(* ===== verification/Prelude.thy ===== *)
theory Prelude
  imports Main "HOL-Library.Word" "HOL-Library.Multiset"
begin

text \<open>
  Shared vocabulary of the development.

  The type synonyms name the C integer types, \<open>errno\<close> the error codes that the
  host and guest code return as negative integers, and \<open>'a result\<close> a call that
  either fails with one of them or returns a value.  The rest is byte-addressed
  memory with little-endian loads and stores (the shared ring, the ioctl
  parameter buffers), index facts on lists used as C arrays, and half-open
  intervals used by the address-space allocators.
\<close>

unbundle bit_operations_syntax

named_theorems mem_simps \<open>read-over-write laws of byte memory\<close>
named_theorems result_simps \<open>characterisations of successful calls\<close>

type_synonym u8 = "8 word"
type_synonym u16 = "16 word"
type_synonym u32 = "32 word"
type_synonym u64 = "64 word"

type_synonym fd = int

datatype errno = EPERM | ENOENT | EINTR | EIO | E2BIG | EBADF | EAGAIN | ENOMEM | EACCES | EFAULT
  | EBUSY | EEXIST | ENODEV | EINVAL | ENFILE | EMFILE | ENOTTY | ENOSPC | ESPIPE | EPIPE
  | ERANGE | EOPNOTSUPP | ETIMEDOUT | EALREADY | ENOTCONN | EPROTO | ESRCH | ENOSYS | ECONNRESET

type_synonym 'a result = "errno + 'a"

section \<open>Results\<close>

definition is_ok :: "'a result \<Rightarrow> bool" where
  "is_ok r = (case r of Inl _ \<Rightarrow> False | Inr _ \<Rightarrow> True)"

lemma is_ok_simps [simp]: "\<not> is_ok (Inl e)" "is_ok (Inr x)"
  by (simp_all add: is_ok_def)

lemma is_ok_iff [result_simps]: "is_ok r \<longleftrightarrow> (\<exists>x. r = Inr x)"
  by (cases r) auto

section \<open>Words\<close>

lemma unat_ucast_32_64 [simp]: "unat (ucast (x :: u32) :: u64) = unat x"
proof -
  have "unat x < 2 ^ 64"
    using unsigned_less [of x] by (rule order.strict_trans) simp_all
  then show ?thesis
    by (simp add: unsigned_ucast_eq take_bit_nat_eq_self_iff)
qed

lemma unat_u64_less: "unat (x :: u64) < 2 ^ 64"
  using unsigned_less [of x] by simp

lemma unat_u32_less: "unat (x :: u32) < 2 ^ 32"
  using unsigned_less [of x] by simp

lemma unat_of_nat_u64 [simp]: "n < 2 ^ 64 \<Longrightarrow> unat (of_nat n :: u64) = n"
  by (simp add: unsigned_of_nat take_bit_nat_eq_self_iff)

lemma unat_of_nat_u32 [simp]: "n < 2 ^ 32 \<Longrightarrow> unat (of_nat n :: u32) = n"
  by (simp add: unsigned_of_nat take_bit_nat_eq_self_iff)

lemma ucast_64_32_unat: "unat y < 2 ^ 32 \<Longrightarrow> unat (ucast (y :: u64) :: u32) = unat y"
  by (simp add: unsigned_ucast_eq take_bit_nat_eq_self_iff)

lemma nat_and_pred_zero_power2:
  fixes n :: nat
  assumes "0 < n" and "n AND (n - 1) = 0"
  shows "\<exists>k. n = 2 ^ k"
  using assms
proof (induction n rule: less_induct)
  case (less n)
  show ?case
  proof (cases "even n")
    case True
    then obtain m where m: "n = 2 * m" by blast
    with less.prems have "0 < m" by simp
    have "(n - 1) div 2 = m - 1" "n div 2 = m" using \<open>0 < m\<close> by (auto simp: m)
    then have "m AND (m - 1) = 0"
      using less.prems(2) and_rec [of n "n - 1"] by simp
    then obtain k where "m = 2 ^ k"
      using less.IH [of m] \<open>0 < m\<close> m by auto
    then have "n = 2 ^ Suc k" using m by simp
    then show ?thesis ..
  next
    case False
    then obtain q where q: "n = 2 * q + 1" by (rule oddE)
    then have "q = 0"
      using less.prems(2) and_rec [of n "n - 1"] by simp
    then have "n = 2 ^ 0" using q by simp
    then show ?thesis ..
  qed
qed

section \<open>Byte memory\<close>

type_synonym mem = "nat \<Rightarrow> u8"

definition le32 :: "u8 \<Rightarrow> u8 \<Rightarrow> u8 \<Rightarrow> u8 \<Rightarrow> u32" where
  "le32 b0 b1 b2 b3 =
     ucast b0 OR push_bit 8 (ucast b1) OR push_bit 16 (ucast b2) OR push_bit 24 (ucast b3)"

definition byte32 :: "nat \<Rightarrow> u32 \<Rightarrow> u8" where
  "byte32 i v = ucast (drop_bit (8 * i) v)"

definition ld32 :: "mem \<Rightarrow> nat \<Rightarrow> u32" where
  "ld32 m a = le32 (m a) (m (a + 1)) (m (a + 2)) (m (a + 3))"

definition st32 :: "mem \<Rightarrow> nat \<Rightarrow> u32 \<Rightarrow> mem" where
  "st32 m a v = m(a := byte32 0 v, a + 1 := byte32 1 v, a + 2 := byte32 2 v, a + 3 := byte32 3 v)"

definition ld_bytes :: "mem \<Rightarrow> nat \<Rightarrow> nat \<Rightarrow> u8 list" where
  "ld_bytes m a n = map (\<lambda>i. m (a + i)) [0..<n]"

definition st_bytes :: "mem \<Rightarrow> nat \<Rightarrow> u8 list \<Rightarrow> mem" where
  "st_bytes m a xs = (\<lambda>i. if a \<le> i \<and> i < a + length xs then xs ! (i - a) else m i)"

lemma le32_byte32 [simp]: "le32 (byte32 0 v) (byte32 1 v) (byte32 2 v) (byte32 3 v) = v"
proof (rule bit_word_eqI)
  fix n assume n: "n < LENGTH(32)"
  then consider "n < 8" | "8 \<le> n" "n < 16" | "16 \<le> n" "n < 24" | "24 \<le> n" "n < 32"
    by fastforce
  then show "bit (le32 (byte32 0 v) (byte32 1 v) (byte32 2 v) (byte32 3 v)) n = bit v n"
    using n by cases (auto simp add: le32_def byte32_def bit_simps less_diff_conv2)
qed

lemma ld32_st32_same [mem_simps]: "ld32 (st32 m a v) a = v"
  using le32_byte32 [of v] by (simp add: ld32_def st32_def del: le32_byte32)

lemma st32_frame [mem_simps]: "i < a \<or> a + 4 \<le> i \<Longrightarrow> st32 m a v i = m i"
  by (auto simp: st32_def)

lemma ld32_cong:
  assumes "\<And>i. i < 4 \<Longrightarrow> m (a + i) = m' (a + i)"
  shows "ld32 m a = ld32 m' a"
  using assms [of 0] assms [of 1] assms [of 2] assms [of 3] by (simp add: ld32_def)

lemma ld32_st32_other [mem_simps]:
  "b + 4 \<le> a \<or> a + 4 \<le> b \<Longrightarrow> ld32 (st32 m a v) b = ld32 m b"
  by (rule ld32_cong) (auto simp: mem_simps)

lemma st_bytes_frame [mem_simps]: "i < a \<or> a + length xs \<le> i \<Longrightarrow> st_bytes m a xs i = m i"
  by (auto simp: st_bytes_def)

lemma ld32_st_bytes_other [mem_simps]:
  "b + 4 \<le> a \<or> a + length xs \<le> b \<Longrightarrow> ld32 (st_bytes m a xs) b = ld32 m b"
  by (rule ld32_cong) (auto simp: mem_simps)

lemma length_ld_bytes [simp]: "length (ld_bytes m a n) = n"
  by (simp add: ld_bytes_def)

lemma nth_ld_bytes [simp]: "i < n \<Longrightarrow> ld_bytes m a n ! i = m (a + i)"
  by (simp add: ld_bytes_def)

lemma ld_bytes_cong: "(\<And>i. i < n \<Longrightarrow> m (a + i) = m' (a + i)) \<Longrightarrow> ld_bytes m a n = ld_bytes m' a n"
  by (simp add: ld_bytes_def)

lemma ld_st_bytes_same [mem_simps]: "ld_bytes (st_bytes m a xs) a (length xs) = xs"
  by (rule nth_equalityI) (auto simp: st_bytes_def)

lemma take_ld_st_bytes [mem_simps]:
  "length xs \<le> n \<Longrightarrow> take (length xs) (ld_bytes (st_bytes m a xs) a n) = xs"
  by (rule nth_equalityI) (auto simp: st_bytes_def)

definition ld64 :: "mem \<Rightarrow> nat \<Rightarrow> u64" where
  "ld64 m a = ucast (ld32 m a) OR push_bit 32 (ucast (ld32 m (a + 4)))"

definition st64 :: "mem \<Rightarrow> nat \<Rightarrow> u64 \<Rightarrow> mem" where
  "st64 m a v = st32 (st32 m a (ucast v)) (a + 4) (ucast (drop_bit 32 v))"

lemma halves_u64: "(ucast (ucast v :: u32) :: u64) OR push_bit 32 (ucast (ucast (drop_bit 32 v) :: u32)) = v"
  by (rule bit_word_eqI) (auto simp: bit_simps not_less)

lemma ld64_st64_same [mem_simps]: "ld64 (st64 m a v) a = v"
  by (simp add: ld64_def st64_def mem_simps halves_u64)

lemma st64_frame [mem_simps]: "i < a \<or> a + 8 \<le> i \<Longrightarrow> st64 m a v i = m i"
  by (auto simp: st64_def mem_simps)

lemma ld64_cong:
  assumes "\<And>i. i < 8 \<Longrightarrow> m (a + i) = m' (a + i)"
  shows "ld64 m a = ld64 m' a"
proof -
  have "ld32 m a = ld32 m' a" by (rule ld32_cong) (use assms in simp)
  moreover have "ld32 m (a + 4) = ld32 m' (a + 4)"
    by (rule ld32_cong) (use assms [of "4 + _"] in \<open>simp add: add.assoc\<close>)
  ultimately show ?thesis by (simp add: ld64_def)
qed

lemma ld32_st64_other [mem_simps]:
  "b + 4 \<le> a \<or> a + 8 \<le> b \<Longrightarrow> ld32 (st64 m a v) b = ld32 m b"
  by (rule ld32_cong) (auto simp: mem_simps)

lemma ld64_st64_other [mem_simps]:
  "b + 8 \<le> a \<or> a + 8 \<le> b \<Longrightarrow> ld64 (st64 m a v) b = ld64 m b"
  by (rule ld64_cong) (auto simp: mem_simps)

lemma ld64_st32_other [mem_simps]:
  "b + 8 \<le> a \<or> a + 4 \<le> b \<Longrightarrow> ld64 (st32 m a v) b = ld64 m b"
  by (rule ld64_cong) (auto simp: mem_simps)

lemma ld64_st_bytes_other [mem_simps]:
  "b + 8 \<le> a \<or> a + length xs \<le> b \<Longrightarrow> ld64 (st_bytes m a xs) b = ld64 m b"
  by (rule ld64_cong) (auto simp: mem_simps)

section \<open>Lists\<close>

lemma distinct_concat_map:
  assumes "distinct ks" and "\<And>k. k \<in> set ks \<Longrightarrow> distinct (f k)"
    and "\<And>j k. j \<in> set ks \<Longrightarrow> k \<in> set ks \<Longrightarrow> j \<noteq> k \<Longrightarrow> set (f j) \<inter> set (f k) = {}"
  shows "distinct (concat (map f ks))"
  using assms
proof (induction ks)
  case (Cons k ks)
  have "set (f k) \<inter> set (f j) = {}" if "j \<in> set ks" for j
    using Cons.prems(1,3) that by fastforce
  then show ?case using Cons by auto
qed simp

text \<open>The first index of a C array scan, and removal by moving the last element down.\<close>

fun first_index :: "('a \<Rightarrow> bool) \<Rightarrow> 'a list \<Rightarrow> nat option" where
  "first_index P [] = None"
| "first_index P (x # xs) = (if P x then Some 0 else map_option Suc (first_index P xs))"

definition swap_remove :: "nat \<Rightarrow> 'a list \<Rightarrow> 'a list" where
  "swap_remove i xs = butlast (xs[i := last xs])"

lemma first_index_Some: "first_index P xs = Some i \<Longrightarrow> i < length xs \<and> P (xs ! i)"
  by (induction xs arbitrary: i) (auto split: if_splits)

lemma first_index_None: "first_index P xs = None \<longleftrightarrow> (\<forall>x \<in> set xs. \<not> P x)"
  by (induction xs) auto

lemma mset_swap_remove: "i < length xs \<Longrightarrow> mset (swap_remove i xs) = mset xs - {#xs ! i#}"
proof (cases xs rule: rev_cases)
  case (snoc ys y)
  assume "i < length xs"
  then show ?thesis
    by (cases "i = length ys") (auto simp: snoc swap_remove_def nth_append list_update_append mset_update)
qed simp

lemma length_swap_remove [simp]: "length (swap_remove i xs) = length xs - 1"
  by (simp add: swap_remove_def)

section \<open>Half-open intervals\<close>

text \<open>The address allocators hand out extents \<open>(off, len)\<close> covering \<open>[off, off + len)\<close>.\<close>

type_synonym extent = "nat \<times> nat"

definition ext_set :: "extent \<Rightarrow> nat set" where
  "ext_set e = {fst e ..< fst e + snd e}"

definition ext_disj :: "extent \<Rightarrow> extent \<Rightarrow> bool" where
  "ext_disj e f \<longleftrightarrow> fst e + snd e \<le> fst f \<or> fst f + snd f \<le> fst e"

lemma ext_disj_commute: "ext_disj e f = ext_disj f e"
  by (auto simp: ext_disj_def)

lemma ext_disj_set: "ext_disj e f \<Longrightarrow> ext_set e \<inter> ext_set f = {}"
  by (auto simp: ext_disj_def ext_set_def)

lemma ext_disj_iff:
  assumes "0 < snd e" and "0 < snd f"
  shows "ext_disj e f \<longleftrightarrow> ext_set e \<inter> ext_set f = {}"
proof
  assume *: "ext_set e \<inter> ext_set f = {}"
  have "max (fst e) (fst f) \<notin> ext_set e \<or> max (fst e) (fst f) \<notin> ext_set f"
    using * by blast
  with assms show "ext_disj e f"
    by (auto simp: ext_disj_def ext_set_def max_def split: if_splits)
qed (rule ext_disj_set)

end
