(* ===== verification/Fifo.thy ===== *)
theory Fifo
  imports Prelude
begin

text \<open>
  The contract of a bounded first-in first-out channel: what the two ends of the
  command-buffer transport rely on.  A message may arrive padded, so delivery is
  up to a relation between the message sent and the message received.  Traces are
  arbitrary interleavings of the sends and receives that succeed.
\<close>

datatype 'm fifo_event = Sent 'm | Received 'm

inductive fifo_trace ::
  "('m \<Rightarrow> 's \<Rightarrow> 's option) \<Rightarrow> ('s \<Rightarrow> ('m \<times> 's) option) \<Rightarrow> 's \<Rightarrow> 'm fifo_event list \<Rightarrow> 's \<Rightarrow> bool"
  for send recv where
  fifo_nil: "fifo_trace send recv s [] s"
| fifo_sent: "fifo_trace send recv s es s' \<Longrightarrow> send m s' = Some s''
    \<Longrightarrow> fifo_trace send recv s (es @ [Sent m]) s''"
| fifo_received: "fifo_trace send recv s es s' \<Longrightarrow> recv s' = Some (m, s'')
    \<Longrightarrow> fifo_trace send recv s (es @ [Received m]) s''"

fun fifo_sents :: "'m fifo_event list \<Rightarrow> 'm list" where
  "fifo_sents [] = []"
| "fifo_sents (Sent m # es) = m # fifo_sents es"
| "fifo_sents (Received m # es) = fifo_sents es"

fun fifo_receiveds :: "'m fifo_event list \<Rightarrow> 'm list" where
  "fifo_receiveds [] = []"
| "fifo_receiveds (Sent m # es) = fifo_receiveds es"
| "fifo_receiveds (Received m # es) = m # fifo_receiveds es"

lemma fifo_sents_append [simp]: "fifo_sents (xs @ ys) = fifo_sents xs @ fifo_sents ys"
  by (induction xs rule: fifo_sents.induct) simp_all

lemma fifo_receiveds_append [simp]:
  "fifo_receiveds (xs @ ys) = fifo_receiveds xs @ fifo_receiveds ys"
  by (induction xs rule: fifo_receiveds.induct) simp_all

locale bounded_fifo =
  fixes inv :: "'s \<Rightarrow> bool"
    and queue :: "'s \<Rightarrow> 'm list"
    and send :: "'m \<Rightarrow> 's \<Rightarrow> 's option"
    and recv :: "'s \<Rightarrow> ('m \<times> 's) option"
    and sendable :: "'m \<Rightarrow> bool"
    and delivers :: "'m \<Rightarrow> 'm \<Rightarrow> bool"
  assumes send_queue: "inv s \<Longrightarrow> sendable m \<Longrightarrow> send m s = Some s' \<Longrightarrow>
      inv s' \<and> (\<exists>m'. delivers m m' \<and> queue s' = queue s @ [m'])"
    and recv_empty: "inv s \<Longrightarrow> queue s = [] \<Longrightarrow> recv s = None"
    and recv_head: "inv s \<Longrightarrow> queue s = m # ms \<Longrightarrow>
      \<exists>s'. recv s = Some (m, s') \<and> inv s' \<and> queue s' = ms"
begin

lemma recv_SomeD:
  assumes "inv s" and "recv s = Some (m, s')"
  shows "inv s' \<and> queue s = m # queue s'"
  using assms recv_empty recv_head [of s] by (cases "queue s") fastforce+

lemma trace_order:
  assumes "fifo_trace send recv s es s'" and "inv s" and "queue s = []"
    and "\<And>m. m \<in> set (fifo_sents es) \<Longrightarrow> sendable m"
  shows "inv s' \<and> list_all2 delivers (fifo_sents es) (fifo_receiveds es @ queue s')"
  using assms
proof (induction rule: fifo_trace.induct)
  case (fifo_sent s es s' m s'')
  then have "inv s'" and *: "list_all2 delivers (fifo_sents es) (fifo_receiveds es @ queue s')"
    by simp_all
  with send_queue [of s' m s''] fifo_sent obtain m' where
    "inv s''" "delivers m m'" "queue s'' = queue s' @ [m']" by auto
  with * list_all2_appendI [OF *, of "[m]" "[m']"] show ?case by simp
next
  case (fifo_received s es s' m s'')
  then show ?case using recv_SomeD [of s' m s''] by simp
qed simp

lemma trace_drains:
  assumes "inv s"
  shows "\<exists>s'. fifo_trace send recv s (map Received (queue s)) s' \<and> inv s' \<and> queue s' = []"
proof -
  have "\<exists>s'. fifo_trace send recv s (map Received ms) s' \<and> inv s' \<and> queue s' = ms'"
    if "queue s = ms @ ms'" for ms ms'
    using that
  proof (induction ms arbitrary: ms' rule: rev_induct)
    case Nil
    then show ?case using assms fifo_nil by fastforce
  next
    case (snoc m ms)
    then obtain s' where "fifo_trace send recv s (map Received ms) s'" "inv s'" "queue s' = m # ms'"
      by fastforce
    with recv_head [of s' m ms'] show ?case by (fastforce intro: fifo_received)
  qed
  from this [of "queue s" "[]"] show ?thesis by simp
qed

end

end
