(* ===== verification/Ring.thy ===== *)
theory Ring
  imports Fifo
begin

text \<open>
  The single-producer, single-consumer byte ring of \<open>common/nvkvm_ring.h\<close>.

  A ring is its two free-running 64-bit counters and the byte memory of the data
  region; the trusted capacity \<open>N\<close> is an argument of every operation, as in the
  code.  Offsets into the data region are natural numbers, so that an access past
  the region is visible as an offset of at least \<open>N\<close>.  The abstraction of a ring
  is the list of payloads between \<open>head\<close> and \<open>tail\<close>.
\<close>

section \<open>Definitions\<close>

record ring =
  rsize :: u64
  tail :: u64
  head :: u64
  data :: mem

definition NVKVM_RING_REC_SKIP :: u32 where "NVKVM_RING_REC_SKIP = 0"
definition NVKVM_RING_REC_DATA :: u32 where "NVKVM_RING_REC_DATA = 1"

datatype peek_result = RING_EMPTY | RING_BAD | RING_OK nat u32 u64

definition sizeof_ring :: u64 where "sizeof_ring = 256"

definition nvkvm_ring_resp_off :: "u32 \<Rightarrow> u64" where
  "nvkvm_ring_resp_off ring_bytes = sizeof_ring + ucast ring_bytes"

definition nvkvm_ring_region_size :: "u32 \<Rightarrow> u64" where
  "nvkvm_ring_region_size ring_bytes = 2 * (sizeof_ring + ucast ring_bytes)"

definition nvkvm_ring_roundup :: "u32 \<Rightarrow> u32" where
  "nvkvm_ring_roundup x = (x + 7) AND NOT 7"

definition nvkvm_ring_size_ok :: "u64 \<Rightarrow> bool" where
  "nvkvm_ring_size_ok n \<longleftrightarrow> n \<ge> 64 \<and> n AND (n - 1) = 0"

definition put_rec :: "nat \<Rightarrow> u32 \<Rightarrow> u32 \<Rightarrow> ring \<Rightarrow> ring" where
  "put_rec off len type r = r\<lparr>data := st32 (st32 (data r) off len) (off + 4) type\<rparr>"

definition nvkvm_ring_reserve :: "u64 \<Rightarrow> u32 \<Rightarrow> ring \<Rightarrow> (nat \<times> u64 \<times> ring) option" where
  "nvkvm_ring_reserve cap payload r =
    (let rec = nvkvm_ring_roundup (8 + payload); N = cap in
     if \<not> nvkvm_ring_size_ok N then None
     else
       let used = tail r - head r;
           off = tail r AND (N - 1);
           to_end = N - off in
       if ucast rec > N \<or> ucast payload > N then None
       else if ucast rec \<le> to_end then
         (if N - used < ucast rec then None
          else Some (unat off + 8, ucast rec, put_rec (unat off) rec NVKVM_RING_REC_DATA r))
       else if N - used < to_end + ucast rec then None
       else Some (8, to_end + ucast rec,
                  put_rec 0 rec NVKVM_RING_REC_DATA
                    (put_rec (unat off) (ucast to_end) NVKVM_RING_REC_SKIP r)))"

definition nvkvm_ring_commit :: "u64 \<Rightarrow> ring \<Rightarrow> ring" where
  "nvkvm_ring_commit tot r = r\<lparr>tail := tail r + tot\<rparr>"

text \<open>One iteration of the loop of \<open>nvkvm_ring_peek\<close>; \<open>None\<close> is \<open>continue\<close>.\<close>

definition ring_peek_iter :: "u64 \<Rightarrow> ring \<Rightarrow> ring \<times> peek_result option" where
  "ring_peek_iter N r =
    (let avail = tail r - head r in
     if avail = 0 then (r, Some RING_EMPTY)
     else if avail < 8 \<or> avail > N then (r, Some RING_BAD)
     else
       let off = head r AND (N - 1);
           len = ld32 (data r) (unat off);
           type = ld32 (data r) (unat off + 4) in
       if len < 8 \<or> len AND 7 \<noteq> 0 \<or> ucast len > avail \<or> ucast len > N \<or> off + ucast len > N
       then (r, Some RING_BAD)
       else if type = NVKVM_RING_REC_SKIP then (r\<lparr>head := head r + ucast len\<rparr>, None)
       else if type \<noteq> NVKVM_RING_REC_DATA then (r, Some RING_BAD)
       else (r, Some (RING_OK (unat off + 8) (len - 8) (ucast len))))"

lemma ring_peek_iter_progress:
  assumes "ring_peek_iter N r = (r', None)"
  shows "unat (tail r' - head r') < unat (tail r - head r)"
proof -
  define len :: u64 where "len = ucast (ld32 (data r) (unat (head r AND (N - 1))))"
  have r': "r' = r\<lparr>head := head r + len\<rparr>" and le: "len \<le> tail r - head r"
    and pos: "ld32 (data r) (unat (head r AND (N - 1))) \<ge> 8"
    using assms by (auto simp: ring_peek_iter_def Let_def len_def split: if_splits)
  have "0 < len"
    using pos by (simp add: len_def word_less_nat_alt word_le_nat_alt)
  then show ?thesis
    using le by (simp add: r' diff_diff_eq [symmetric] word_less_nat_alt word_le_nat_alt unat_sub)
qed

function ring_peek_loop :: "u64 \<Rightarrow> ring \<Rightarrow> ring \<times> peek_result" where
  "ring_peek_loop N r =
    (case ring_peek_iter N r of
       (r', Some res) \<Rightarrow> (r', res)
     | (r', None) \<Rightarrow> ring_peek_loop N r')"
  by pat_completeness auto
termination
  by (relation "measure (\<lambda>(N, r). unat (tail r - head r))")
    (auto simp: ring_peek_iter_progress)

declare ring_peek_loop.simps [simp del]

definition nvkvm_ring_peek :: "u64 \<Rightarrow> ring \<Rightarrow> ring \<times> peek_result" where
  "nvkvm_ring_peek cap r =
    (if \<not> nvkvm_ring_size_ok cap then (r, RING_BAD) else ring_peek_loop cap r)"

definition nvkvm_ring_pop :: "u64 \<Rightarrow> ring \<Rightarrow> ring" where
  "nvkvm_ring_pop tot r = r\<lparr>head := head r + tot\<rparr>"

definition nvkvm_ring_has_work :: "ring \<Rightarrow> bool" where
  "nvkvm_ring_has_work r \<longleftrightarrow> tail r \<noteq> head r"

text \<open>
  The way every producer of the code uses the ring (reserve, copy the payload in,
  commit) and every consumer (peek, copy the payload out, pop).
\<close>

definition ring_send :: "u64 \<Rightarrow> u8 list \<Rightarrow> ring \<Rightarrow> ring option" where
  "ring_send N xs r =
    (case nvkvm_ring_reserve N (of_nat (length xs)) r of
       None \<Rightarrow> None
     | Some (p, tot, r') \<Rightarrow>
         Some (nvkvm_ring_commit tot (r'\<lparr>data := st_bytes (data r') p xs\<rparr>)))"

definition ring_recv :: "u64 \<Rightarrow> ring \<Rightarrow> (u8 list \<times> ring) option" where
  "ring_recv N r =
    (case nvkvm_ring_peek N r of
       (r', RING_OK p len tot) \<Rightarrow>
         Some (ld_bytes (data r') p (unat len), nvkvm_ring_pop tot r')
     | _ \<Rightarrow> None)"

text \<open>
  The abstraction: the payloads of the \<open>n\<close> bytes of records that start at the
  free-running position \<open>h\<close>, or \<open>None\<close> if they are not a well-formed sequence.
\<close>

function ring_parse :: "mem \<Rightarrow> nat \<Rightarrow> nat \<Rightarrow> nat \<Rightarrow> u8 list list option" where
  "ring_parse d N h n =
    (if n = 0 then Some []
     else
       let off = h mod N; len = unat (ld32 d off); type = ld32 d (off + 4) in
       if len < 8 \<or> \<not> 8 dvd len \<or> len > n \<or> off + len > N then None
       else if type = NVKVM_RING_REC_SKIP then ring_parse d N (h + len) (n - len)
       else if type = NVKVM_RING_REC_DATA then
         map_option ((#) (ld_bytes d (off + 8) (len - 8))) (ring_parse d N (h + len) (n - len))
       else None)"
  by pat_completeness auto
termination
  by (relation "measure (\<lambda>(d, N, h, n). n)") (auto simp: not_less)

declare ring_parse.simps [simp del]

definition ring_queue :: "u64 \<Rightarrow> ring \<Rightarrow> u8 list list option" where
  "ring_queue N r = ring_parse (data r) (unat N) (unat (head r)) (unat (tail r - head r))"

definition ring_inv :: "u64 \<Rightarrow> ring \<Rightarrow> bool" where
  "ring_inv N r \<longleftrightarrow>
     nvkvm_ring_size_ok N \<and> unat N < 2 ^ 32 \<and> 8 dvd unat (head r) \<and> 8 dvd unat (tail r)
     \<and> unat (tail r - head r) \<le> unat N \<and> ring_queue N r \<noteq> None"

section \<open>Arithmetic of positions\<close>

lemma ring_size_okD:
  assumes "nvkvm_ring_size_ok N"
  obtains k where "6 \<le> k" "k < 64" "unat N = 2 ^ k" "N = 2 ^ k"
proof -
  have ge: "64 \<le> unat N" and z: "N AND (N - 1) = 0"
    using assms by (simp_all add: nvkvm_ring_size_ok_def word_le_nat_alt)
  then have "unat (N - 1) = unat N - 1"
    by (simp add: unat_sub word_le_nat_alt)
  then have "unat N AND (unat N - 1) = 0"
    using z by (metis unsigned_and_eq unsigned_0)
  then obtain k where k: "unat N = 2 ^ k"
    using nat_and_pred_zero_power2 [of "unat N"] ge by auto
  have "(2::nat) ^ 6 \<le> 2 ^ k" using ge k by simp
  then have "6 \<le> k" by (simp only: power_increasing_iff)
  moreover have "unat N < 2 ^ LENGTH(64)" by (rule unsigned_less)
  then have "(2::nat) ^ k < 2 ^ 64" using k by simp
  then have "k < 64" by (simp only: power_strict_increasing_iff)
  moreover have "N = of_nat (unat N)" by simp
  then have "N = 2 ^ k" by (simp only: k) simp
  ultimately show thesis using k that by blast
qed

lemma ring_off_mod:
  assumes "nvkvm_ring_size_ok N"
  shows "unat (c AND (N - 1)) = unat c mod unat N"
proof -
  obtain k where k: "unat N = 2 ^ k" "N = 2 ^ k" using assms by (rule ring_size_okD)
  have "c AND (N - 1) = take_bit k c"
    by (simp add: k(2) take_bit_eq_mask mask_eq_exp_minus_1)
  then show ?thesis
    by (simp only: k(1) unsigned_take_bit_eq) (simp add: take_bit_eq_mod)
qed

lemma ring_size_ok_pos: "nvkvm_ring_size_ok N \<Longrightarrow> 64 \<le> unat N"
  by (simp add: nvkvm_ring_size_ok_def word_le_nat_alt)

lemma ring_size_ok_dvd: "nvkvm_ring_size_ok N \<Longrightarrow> unat N dvd 2 ^ 64 \<and> 8 dvd unat N"
proof (elim ring_size_okD)
  fix k :: nat assume "6 \<le> k" "k < 64" "unat N = 2 ^ k"
  moreover have "(2::nat) ^ 3 dvd 2 ^ k" using \<open>6 \<le> k\<close> by (intro le_imp_power_dvd) simp
  moreover have "(2::nat) ^ k dvd 2 ^ 64" using \<open>k < 64\<close> by (intro le_imp_power_dvd) simp
  ultimately show ?thesis by simp
qed

lemma ring_pos_add_mod:
  assumes "nvkvm_ring_size_ok N"
  shows "unat (c + d :: u64) mod unat N = (unat c + unat d) mod unat N"
proof -
  have "unat N dvd 2 ^ 64" using ring_size_ok_dvd [OF assms] ..
  then show ?thesis by (simp add: unat_word_ariths mod_mod_cancel)
qed

lemma ring_pos_add_dvd8:
  assumes "8 dvd unat (c :: u64)" and "8 dvd unat d"
  shows "8 dvd unat (c + d)"
  using assms by (simp add: unat_word_ariths dvd_mod_iff)

lemma and_7_dvd: "(x :: u32) AND 7 = 0 \<longleftrightarrow> 8 dvd unat x"
proof -
  have "x AND 7 = take_bit 3 x" by (simp add: take_bit_eq_mask mask_eq_exp_minus_1)
  then have "unat (x AND 7) = unat x mod 8"
    by (simp only: unsigned_take_bit_eq) (simp add: take_bit_eq_mod)
  then show ?thesis
    by (metis dvd_eq_mod_eq_0 unsigned_0 unat_eq_0)
qed

lemma ring_parse_mod: "ring_parse d N (h mod N) n = ring_parse d N h n"
proof (induction n arbitrary: h rule: less_induct)
  case (less n)
  let ?len = "unat (ld32 d (h mod N))"
  have "ring_parse d N (h mod N + ?len) (n - ?len) = ring_parse d N (h + ?len) (n - ?len)"
    if "n \<noteq> 0" "\<not> ?len < 8"
    using less.IH [of "n - ?len" "h mod N + ?len"] less.IH [of "n - ?len" "h + ?len"] that
    by (simp add: mod_add_left_eq)
  then show ?case
    by (subst (1 2) ring_parse.simps) (simp add: Let_def)
qed

text \<open>The abstraction only reads the bytes of the window it parses.\<close>

lemma window_mod_within:
  fixes N h i :: nat
  assumes "h mod N + i < N"
  shows "(h + i) mod N = h mod N + i"
  using mod_less [OF assms] by (simp only: mod_add_left_eq)

lemma window_mod:
  fixes N h i :: nat
  assumes "8 dvd N" "8 dvd h" "0 < N" "i < 8"
  shows "(h + i) mod N = h mod N + i"
proof -
  have "8 dvd h mod N" using assms by (simp add: dvd_mod_iff)
  moreover have "h mod N < N" using assms by simp
  ultimately have "h mod N + 8 \<le> N" using assms(1) by (auto elim!: dvdE)
  then have "h mod N + i < N" using assms by simp
  then show ?thesis by (rule window_mod_within)
qed

lemma ring_parse_cong:
  assumes "8 dvd N" "8 dvd h" "0 < N" "8 dvd n" "n \<le> N"
    and "\<And>i. i < n \<Longrightarrow> d ((h + i) mod N) = d' ((h + i) mod N)"
  shows "ring_parse d N h n = ring_parse d' N h n"
  using assms
proof (induction n arbitrary: h rule: less_induct)
  case (less n)
  show ?case
  proof (cases "n = 0")
    case False
    let ?off = "h mod N" and ?len = "unat (ld32 d (h mod N))"
    have "8 \<le> n" using False less.prems by (auto elim: dvdE)
    then have hdr: "d (?off + i) = d' (?off + i)" if "i < 8" for i
      using less.prems(6) [of i] that window_mod [OF less.prems(1-3) that] by simp
    then have ld: "ld32 d ?off = ld32 d' ?off" "ld32 d (?off + 4) = ld32 d' (?off + 4)"
      by (auto intro!: ld32_cong simp: add.assoc)
    have rest: "ring_parse d N (h + ?len) (n - ?len) = ring_parse d' N (h + ?len) (n - ?len)"
      if "\<not> ?len < 8" "8 dvd ?len" "\<not> ?len > n"
    proof (rule less.IH)
      fix i assume "i < n - ?len"
      then show "d ((h + ?len + i) mod N) = d' ((h + ?len + i) mod N)"
        using less.prems(6) [of "?len + i"] by (simp add: add.assoc)
    qed (use that False less.prems in auto)
    have pay: "ld_bytes d (?off + 8) (?len - 8) = ld_bytes d' (?off + 8) (?len - 8)"
      if "\<not> ?len < 8" "\<not> ?len > n" "\<not> ?off + ?len > N"
    proof (rule ld_bytes_cong)
      fix i assume i: "i < ?len - 8"
      then have "(h + (8 + i)) mod N = ?off + 8 + i"
        using that window_mod_within [of h N "8 + i"] by simp
      then show "d (?off + 8 + i) = d' (?off + 8 + i)"
        using less.prems(6) [of "8 + i"] i that by simp
    qed
    show ?thesis
      by (subst (1 2) ring_parse.simps) (use rest pay in \<open>auto simp: Let_def ld [symmetric]\<close>)
  qed (simp add: ring_parse.simps)
qed

definition rec_ok :: "mem \<Rightarrow> nat \<Rightarrow> nat \<Rightarrow> nat \<Rightarrow> nat \<Rightarrow> bool" where
  "rec_ok d N h n len \<longleftrightarrow> len = unat (ld32 d (h mod N)) \<and> 8 \<le> len \<and> 8 dvd len \<and> len \<le> n \<and> h mod N + len \<le> N"

lemma REC_DATA_not_SKIP [simp]: "NVKVM_RING_REC_DATA \<noteq> NVKVM_RING_REC_SKIP"
  by (simp add: NVKVM_RING_REC_SKIP_def NVKVM_RING_REC_DATA_def)

lemma rec_okD:
  assumes "rec_ok d N h n len"
  shows "len \<le> n" "8 dvd len" "8 \<le> len" "len < 2 ^ 32" "h mod N + len \<le> N"
proof -
  have "len = unat (ld32 d (h mod N))" using assms by (simp only: rec_ok_def)
  then show "len < 2 ^ 32" using unat_u32_less by (simp only:)
qed (use assms in \<open>unfold rec_ok_def, blast+\<close>)

lemma ring_parse_0 [simp]: "ring_parse d N h 0 = Some []"
  by (simp add: ring_parse.simps)

lemma ring_parse_skip:
  assumes "rec_ok d N h n len" and "ld32 d (h mod N + 4) = NVKVM_RING_REC_SKIP"
  shows "ring_parse d N h n = ring_parse d N (h + len) (n - len)"
  using assms by (subst ring_parse.simps) (auto simp: rec_ok_def Let_def)

lemma ring_parse_data:
  assumes "rec_ok d N h n len" and "ld32 d (h mod N + 4) = NVKVM_RING_REC_DATA"
  shows "ring_parse d N h n =
    map_option ((#) (ld_bytes d (h mod N + 8) (len - 8))) (ring_parse d N (h + len) (n - len))"
  using assms
  by (subst ring_parse.simps) (auto simp: rec_ok_def Let_def)

lemma ring_parse_SomeE:
  assumes "ring_parse d N h n = Some q" and "n \<noteq> 0"
  obtains (skip) len where "rec_ok d N h n len" "ld32 d (h mod N + 4) = NVKVM_RING_REC_SKIP"
      "ring_parse d N (h + len) (n - len) = Some q"
  | (rec) len zs where "rec_ok d N h n len" "ld32 d (h mod N + 4) = NVKVM_RING_REC_DATA"
      "ring_parse d N (h + len) (n - len) = Some zs" "q = ld_bytes d (h mod N + 8) (len - 8) # zs"
proof -
  define len where "len = unat (ld32 d (h mod N))"
  have ok: "rec_ok d N h n len"
    using assms ring_parse.simps [of d N h n] by (auto simp: rec_ok_def len_def Let_def split: if_splits)
  have "ld32 d (h mod N + 4) = NVKVM_RING_REC_SKIP \<or> ld32 d (h mod N + 4) = NVKVM_RING_REC_DATA"
    using assms ring_parse.simps [of d N h n] by (auto simp: Let_def split: if_splits)
  then show thesis
  proof
    assume t: "ld32 d (h mod N + 4) = NVKVM_RING_REC_SKIP"
    then show thesis using skip [OF ok t] ring_parse_skip [OF ok t] assms by simp
  next
    assume t: "ld32 d (h mod N + 4) = NVKVM_RING_REC_DATA"
    with ring_parse_data [OF ok t] assms(1) obtain zs where
      "ring_parse d N (h + len) (n - len) = Some zs" "q = ld_bytes d (h mod N + 8) (len - 8) # zs"
      by (cases "ring_parse d N (h + len) (n - len)") auto
    with rec [OF ok t] show thesis by blast
  qed
qed

lemma ring_parse_append:
  assumes "ring_parse d N h n = Some xs" and "ring_parse d N (h + n) m = Some ys"
  shows "ring_parse d N h (n + m) = Some (xs @ ys)"
  using assms
proof (induction n arbitrary: h xs rule: less_induct)
  case (less n)
  show ?case
  proof (cases "n = 0")
    case True
    then show ?thesis using less.prems by simp
  next
    case False
    from less.prems(1) this show ?thesis
    proof (cases rule: ring_parse_SomeE)
      case (skip len)
      then have "rec_ok d N h (n + m) len" "n + m - len = n - len + m" "n - len < n"
        "h + len + (n - len) = h + n"
        using False by (auto simp: rec_ok_def)
      then show ?thesis
        using less.IH [of "n - len" "h + len" xs] skip less.prems(2) by (simp add: ring_parse_skip)
    next
      case (rec len zs)
      then have "rec_ok d N h (n + m) len" "n + m - len = n - len + m" "n - len < n"
        "h + len + (n - len) = h + n"
        using False by (auto simp: rec_ok_def)
      then show ?thesis
        using less.IH [of "n - len" "h + len" zs] rec less.prems(2) by (simp add: ring_parse_data)
    qed
  qed
qed

section \<open>Consumer\<close>

text \<open>Position \<open>h\<close> advanced past a record of \<open>len\<close> bytes, at 64 bits and as a natural number.\<close>

lemma ring_advance:
  assumes "nvkvm_ring_size_ok N" and "len \<le> unat (t - h :: u64)"
  shows "unat (t - (h + of_nat len)) = unat (t - h) - len"
    and "ring_parse d (unat N) (unat (h + of_nat len)) n = ring_parse d (unat N) (unat h + len) n"
    and "8 dvd unat h \<Longrightarrow> 8 dvd len \<Longrightarrow> 8 dvd unat (h + of_nat len)"
proof -
  have "len < 2 ^ 64"
    using assms(2) unat_u64_less [of "t - h"] by linarith
  then have len: "unat (of_nat len :: u64) = len" by simp
  have "t - (h + of_nat len) = (t - h) - of_nat len" by simp
  then show "unat (t - (h + of_nat len)) = unat (t - h) - len"
    using assms(2) by (simp only: unat_sub word_le_nat_alt len)
  have "unat (h + of_nat len) mod unat N = (unat h + len) mod unat N"
    using ring_pos_add_mod [OF assms(1), of h "of_nat len"] by (simp only: len)
  then show "ring_parse d (unat N) (unat (h + of_nat len)) n = ring_parse d (unat N) (unat h + len) n"
    by (metis ring_parse_mod)
  show "8 dvd unat h \<Longrightarrow> 8 dvd len \<Longrightarrow> 8 dvd unat (h + of_nat len)"
    using ring_pos_add_dvd8 [of h "of_nat len"] by (simp only: len)
qed

lemma ring_peek_iter_rec:
  assumes "nvkvm_ring_size_ok N" and "unat (tail r - head r) \<le> unat N"
    and ok: "rec_ok (data r) (unat N) (unat (head r)) (unat (tail r - head r)) len"
  defines "off \<equiv> unat (head r) mod unat N"
  shows "ring_peek_iter N r =
    (if ld32 (data r) (off + 4) = NVKVM_RING_REC_SKIP then (r\<lparr>head := head r + of_nat len\<rparr>, None)
     else if ld32 (data r) (off + 4) \<noteq> NVKVM_RING_REC_DATA then (r, Some RING_BAD)
     else (r, Some (RING_OK (off + 8) (of_nat (len - 8)) (of_nat len))))"
proof -
  define w where "w = ld32 (data r) off"
  have off: "unat (head r AND (N - 1)) = off"
    using ring_off_mod [OF assms(1)] by (simp add: off_def)
  have len: "len = unat w" using ok by (simp add: rec_ok_def off_def w_def)
  have b: "8 \<le> unat w" "8 dvd unat w" "unat w \<le> unat (tail r - head r)" "off + unat w \<le> unat N"
    using ok unfolding len rec_ok_def off_def by blast+
  have "off + unat w < 2 ^ 64" using b(4) unat_u64_less [of N] by linarith
  then have "unat ((head r AND (N - 1)) + ucast w) = off + unat w"
    by (subst unat_word_ariths) (simp add: off)
  then have sum: "\<not> (head r AND (N - 1)) + ucast w > N"
    using b(4) by (simp add: word_less_nat_alt)
  have "unat (ucast w :: u64) = unat (of_nat len :: u64)"
    using unat_u32_less [of w] by (simp add: len del: of_nat_unat)
  then have cast: "ucast w = (of_nat len :: u64)" by (simp only: word_unat_eq_iff)
  have sub: "w - 8 = of_nat (len - 8)"
    using b(1) by (simp add: len of_nat_diff)
  have "\<not> w < 8" "w AND 7 = 0" "\<not> ucast w > tail r - head r" "\<not> ucast w > N"
      "\<not> tail r - head r < 8" "\<not> tail r - head r > N" "tail r - head r \<noteq> 0"
    using b assms(2) by (auto simp: and_7_dvd word_less_nat_alt)
  then show ?thesis
    using sum unfolding ring_peek_iter_def Let_def off w_def [symmetric] cast sub
    by (simp only: if_False if_True simp_thms)
qed

lemma ring_peek_loop_skip:
  assumes "nvkvm_ring_size_ok N" and "unat (tail r - head r) \<le> unat N"
    and "rec_ok (data r) (unat N) (unat (head r)) (unat (tail r - head r)) len"
    and "ld32 (data r) (unat (head r) mod unat N + 4) = NVKVM_RING_REC_SKIP"
  shows "ring_peek_iter N r = (r\<lparr>head := head r + of_nat len\<rparr>, None)"
    and "ring_peek_loop N r = ring_peek_loop N (r\<lparr>head := head r + of_nat len\<rparr>)"
proof -
  show it: "ring_peek_iter N r = (r\<lparr>head := head r + of_nat len\<rparr>, None)"
    using ring_peek_iter_rec [OF assms(1-3)] assms(4) by (simp only: if_True simp_thms)
  show "ring_peek_loop N r = ring_peek_loop N (r\<lparr>head := head r + of_nat len\<rparr>)"
    by (subst ring_peek_loop.simps) (simp add: it)
qed

lemma ring_peek_loop_empty:
  assumes "nvkvm_ring_size_ok N" and "unat (tail r - head r) \<le> unat N"
    and "ring_queue N r = Some []"
  shows "ring_peek_loop N r = (r\<lparr>head := tail r\<rparr>, RING_EMPTY)"
  using assms
proof (induction N r rule: ring_peek_loop.induct)
  case (1 N r)
  show ?case
  proof (cases "unat (tail r - head r) = 0")
    case True
    then have "ring_peek_iter N r = (r, Some RING_EMPTY)" and "tail r = head r"
      by (simp_all add: unat_eq_0 ring_peek_iter_def)
    then show ?thesis by (subst ring_peek_loop.simps) simp
  next
    case False
    from "1.prems"(3) [unfolded ring_queue_def] this show ?thesis
    proof (cases rule: ring_parse_SomeE)
      case (skip len)
      note sk = ring_peek_loop_skip [OF "1.prems"(1,2) skip(1,2)]
      have "len \<le> unat (tail r - head r)" using skip(1) by (simp add: rec_ok_def)
      note adv = ring_advance [OF "1.prems"(1) this]
      show ?thesis
        using "1.IH" [OF sk(1) [symmetric] refl] "1.prems" skip(3)
        by (simp add: sk(2) adv ring_queue_def)
    qed simp
  qed
qed

lemma ring_peek_loop_record:
  assumes "nvkvm_ring_size_ok N" and "unat (tail r - head r) \<le> unat N"
    and "ring_queue N r = Some (x # q)"
  shows "\<exists>h p len tot.
       ring_peek_loop N r = (r\<lparr>head := h\<rparr>, RING_OK p len tot)
       \<and> ld_bytes (data r) p (unat len) = x
       \<and> ring_queue N (r\<lparr>head := h + tot\<rparr>) = Some q
       \<and> unat (tail r - (h + tot)) \<le> unat (tail r - head r)
       \<and> (8 dvd unat (head r) \<longrightarrow> 8 dvd unat (h + tot))"
  using assms
proof (induction N r rule: ring_peek_loop.induct)
  case (1 N r)
  have "unat (tail r - head r) \<noteq> 0"
  proof
    assume "unat (tail r - head r) = 0"
    then have "ring_queue N r = Some []" by (simp only: ring_queue_def ring_parse_0)
    with "1.prems"(3) show False by simp
  qed
  from "1.prems"(3) [unfolded ring_queue_def] this show ?case
  proof (cases rule: ring_parse_SomeE)
    case (skip len)
    note sk = ring_peek_loop_skip [OF "1.prems"(1,2) skip(1,2)]
    have len: "len \<le> unat (tail r - head r)" "8 dvd len" using rec_okD [OF skip(1)] by blast+
    note adv = ring_advance [OF "1.prems"(1) len(1)]
    have "ring_queue N (r\<lparr>head := head r + of_nat len\<rparr>) = Some (x # q)"
      using skip(3) by (simp add: adv ring_queue_def)
    with "1.IH" [OF sk(1) [symmetric] refl "1.prems"(1)] "1.prems"(2) adv(1)
    obtain h p len' tot where
      "ring_peek_loop N r = (r\<lparr>head := h\<rparr>, RING_OK p len' tot)" "ld_bytes (data r) p (unat len') = x"
      "ring_queue N (r\<lparr>head := h + tot\<rparr>) = Some q"
      "unat (tail r - (h + tot)) \<le> unat (tail r - head r)"
      "8 dvd unat (head r + of_nat len) \<longrightarrow> 8 dvd unat (h + tot)"
      unfolding sk(2) by fastforce
    with len(2) adv(3) show ?thesis by blast
  next
    case (rec len zs)
    have len: "len \<le> unat (tail r - head r)" "8 dvd len" "8 \<le> len" "len < 2 ^ 32"
      using rec_okD [OF rec(1)] by blast+
    note adv = ring_advance [OF "1.prems"(1) len(1)]
    have it: "ring_peek_iter N r =
        (r, Some (RING_OK (unat (head r) mod unat N + 8) (of_nat (len - 8)) (of_nat len)))"
      using ring_peek_iter_rec [OF "1.prems"(1,2) rec(1)] rec(2)
      by (simp only: if_False simp_thms REC_DATA_not_SKIP)
    have pk: "ring_peek_loop N r =
        (r\<lparr>head := head r\<rparr>, RING_OK (unat (head r) mod unat N + 8) (of_nat (len - 8)) (of_nat len))"
      by (subst ring_peek_loop.simps) (simp add: it)
    have pay: "ld_bytes (data r) (unat (head r) mod unat N + 8) (unat (of_nat (len - 8) :: u32)) = x"
      using rec(4) len(4) by simp
    have q: "ring_queue N (r\<lparr>head := head r + of_nat len\<rparr>) = Some q"
      using rec(3,4) by (simp add: adv ring_queue_def)
    have le: "unat (tail r - (head r + of_nat len)) \<le> unat (tail r - head r)"
      using adv(1) by simp
    show ?thesis
      by (rule exI)+ (intro conjI, rule pk, rule pay, rule q, rule le, rule impI, erule adv(3), rule len(2))
  qed
qed

section \<open>Producer\<close>

lemma unat_and_7: "unat ((x :: u32) AND 7) = unat x mod 8"
proof -
  have "x AND 7 = take_bit 3 x" by (simp add: take_bit_eq_mask mask_eq_exp_minus_1)
  then show ?thesis by (simp only: unsigned_take_bit_eq) (simp add: take_bit_eq_mod)
qed

lemma unat_ring_roundup:
  assumes "unat x + 7 < 2 ^ 32"
  shows "unat (nvkvm_ring_roundup x) = (unat x + 7) div 8 * 8"
proof -
  define y where "y = x + 7"
  have y: "unat y = unat x + 7" using assms by (simp add: y_def unat_word_ariths)
  have "(y AND 7) + (y AND NOT 7) = (y AND 7) OR (y AND NOT 7)"
    by (rule disjunctive_add_eq_or) (rule bit_word_eqI, simp add: bit_simps)
  also have "\<dots> = y" by (rule bit_word_eqI) (auto simp add: bit_simps)
  finally have "(y AND 7) + (y AND NOT 7) = y" .
  then have eq: "y AND NOT 7 = y - (y AND 7)" by (metis add_diff_cancel_left')
  have "y AND 7 \<le> y" by (simp add: word_le_nat_alt unat_and_7)
  then have "unat (y AND NOT 7) = unat y - unat y mod 8"
    by (simp only: eq unat_sub unat_and_7)
  then show ?thesis
    by (simp add: nvkvm_ring_roundup_def y_def [symmetric] y minus_mod_eq_div_mult)
qed

lemma mod_window_neq:
  fixes a b N :: nat
  assumes "a < b" "b < a + N"
  shows "a mod N \<noteq> b mod N"
proof
  assume "a mod N = b mod N"
  then have "N dvd b - a" using assms mod_eq_dvd_iff_nat [of a b N] by simp
  then show False using assms by (auto dest: dvd_imp_le)
qed

lemma ring_tail_mod:
  assumes "nvkvm_ring_size_ok N"
  shows "unat (tail r) mod unat N = (unat (head r) + unat (tail r - head r)) mod unat N"
  using ring_pos_add_mod [OF assms, of "head r" "tail r - head r"] by simp

text \<open>Appending a well-formed run of records in the free part of the ring.\<close>

lemma ring_extend:
  assumes inv: "ring_inv N r" and q: "ring_queue N r = Some q"
    and room: "unat (tail r - head r) + unat tot \<le> unat N" and "8 dvd unat tot"
    and frame: "\<And>p. (\<And>j. j < unat tot \<Longrightarrow> p \<noteq> (unat (tail r) + j) mod unat N) \<Longrightarrow> d p = data r p"
    and new: "ring_parse d (unat N) (unat (tail r)) (unat tot) = Some ys"
  defines "r' \<equiv> r\<lparr>data := d, tail := tail r + tot\<rparr>"
  shows "ring_inv N r' \<and> ring_queue N r' = Some (q @ ys)"
proof -
  let ?N = "unat N" and ?h = "unat (head r)" and ?n = "unat (tail r - head r)"
  have ok: "nvkvm_ring_size_ok N" and al: "8 dvd ?h" "8 dvd unat (tail r)" and "unat N < 2 ^ 32"
    using inv by (auto simp: ring_inv_def)
  have N: "8 dvd ?N" "0 < ?N" "64 \<le> ?N"
    using ring_size_ok_dvd [OF ok] ring_size_ok_pos [OF ok] by auto
  have n8: "8 dvd ?n"
  proof -
    have "8 dvd ?N" "8 dvd unat (tail r) mod ?N" using N al by (auto simp: dvd_mod_iff)
    then have "8 dvd (?h + ?n) mod ?N" by (simp add: ring_tail_mod [OF ok, symmetric])
    then have "8 dvd ?h + ?n" using N(1) by (simp add: dvd_mod_iff)
    then show ?thesis using al(1) by (simp add: dvd_add_right_iff)
  qed
  have avail: "unat (tail r + tot - head r) = ?n + unat tot"
  proof -
    have eq: "tail r + tot - head r = (tail r - head r) + tot" by simp
    have "?n + unat tot < 2 ^ 64" using room unat_u64_less [of N] by linarith
    then show ?thesis unfolding eq by (subst unat_word_ariths) simp
  qed
  have "ring_parse d ?N ?h ?n = ring_parse (data r) ?N ?h ?n"
  proof (rule ring_parse_cong)
    fix i assume i: "i < ?n"
    show "d ((?h + i) mod ?N) = data r ((?h + i) mod ?N)"
    proof (rule frame)
      fix j assume "j < unat tot"
      then have "(?h + i) mod ?N \<noteq> (?h + ?n + j) mod ?N"
        using i room by (intro mod_window_neq) linarith+
      then show "(?h + i) mod ?N \<noteq> (unat (tail r) + j) mod ?N"
        by (metis ring_tail_mod [OF ok] mod_add_left_eq)
    qed
  qed (use N al n8 room in auto)
  then have "ring_parse d ?N ?h ?n = Some q" using q by (simp add: ring_queue_def)
  moreover have "ring_parse d ?N (?h + ?n) (unat tot) = Some ys"
    using new by (metis ring_parse_mod ring_tail_mod [OF ok])
  ultimately have "ring_queue N r' = Some (q @ ys)"
    unfolding r'_def ring_queue_def by (simp add: avail ring_parse_append)
  then show ?thesis
    using ok al \<open>unat N < 2 ^ 32\<close> room ring_pos_add_dvd8 [OF al(2) \<open>8 dvd unat tot\<close>]
    by (simp add: ring_inv_def r'_def avail)
qed

text \<open>A reservation of \<open>payload\<close> bytes takes \<open>ring_rec_len payload\<close> bytes of the ring.\<close>

definition ring_rec_len :: "nat \<Rightarrow> nat" where
  "ring_rec_len n = (n + 15) div 8 * 8"

lemma ring_rec_len: "8 dvd ring_rec_len n" "n + 8 \<le> ring_rec_len n" "ring_rec_len n < n + 16"
  by (auto simp: ring_rec_len_def)

lemma ring_reserve_cases:
  assumes "nvkvm_ring_size_ok N" "unat N < 2 ^ 32" "unat (tail r - head r) \<le> unat N"
    and "nvkvm_ring_reserve N payload r = Some (p, tot, r')"
  defines "off \<equiv> unat (tail r) mod unat N" and "len \<equiv> ring_rec_len (unat payload)"
  obtains (fits) "p = off + 8" "unat tot = len" "off + len \<le> unat N"
      "unat (tail r - head r) + len \<le> unat N"
      "r' = put_rec off (of_nat len) NVKVM_RING_REC_DATA r"
  | (wraps) "p = 8" "unat tot = unat N - off + len" "unat N < off + len"
      "unat (tail r - head r) + (unat N - off) + len \<le> unat N"
      "r' = put_rec 0 (of_nat len) NVKVM_RING_REC_DATA
              (put_rec off (of_nat (unat N - off)) NVKVM_RING_REC_SKIP r)"
proof -
  let ?rec = "nvkvm_ring_roundup (8 + payload)" and ?o = "tail r AND (N - 1)"
  have off: "unat ?o = off" using ring_off_mod [OF assms(1)] by (simp add: off_def)
  have offlt: "off < unat N" using ring_size_ok_pos [OF assms(1)] by (simp add: off_def)
  obtain k where k: "unat N = 2 ^ k" using assms(1) by (rule ring_size_okD)
  have N31: "unat N \<le> 2 ^ 31"
  proof -
    have "k < 32" using assms(2) unfolding k by (simp only: power_strict_increasing_iff)
    then have "(2::nat) ^ k \<le> 2 ^ 31" by (intro power_increasing) simp_all
    then show ?thesis by (simp only: k)
  qed
  have guard: "\<not> ucast ?rec > N" "\<not> ucast payload > N"
    using assms(1,4) by (auto simp: nvkvm_ring_reserve_def Let_def split: if_splits)
  then have pl: "unat payload \<le> unat N" by (simp add: word_less_nat_alt not_less)
  then have "unat (8 + payload) = 8 + unat payload"
    using N31 by (simp add: unat_word_ariths)
  then have rec: "unat ?rec = len"
    using N31 pl unat_ring_roundup [of "8 + payload"] by (simp add: len_def ring_rec_len_def)
  have to_end: "unat (N - ?o) = unat N - off"
    using off offlt by (simp add: unat_sub word_le_nat_alt)
  have free: "unat (N - (tail r - head r)) = unat N - unat (tail r - head r)"
    using assms(3) by (simp add: unat_sub word_le_nat_alt)
  have recw: "?rec = of_nat len" by (simp flip: rec)
  have lenN: "len \<le> unat N" using guard(1) rec by (simp add: word_less_nat_alt not_less)
  have sum: "unat (N - ?o + ucast ?rec) = unat N - off + len"
    using to_end rec lenN N31 by (subst unat_word_ariths) simp
  have tow: "ucast (N - ?o) = (of_nat (unat N - off) :: u32)"
    using to_end N31 by (simp add: word_unat_eq_iff ucast_64_32_unat)
  show thesis
  proof (cases "ucast ?rec \<le> N - ?o")
    case True
    then have "off + len \<le> unat N"
      using rec to_end offlt by (simp add: word_le_nat_alt)
    then show thesis
      using assms(1,4) guard True fits rec free lenN assms(3)
      by (auto simp: nvkvm_ring_reserve_def Let_def off recw word_less_nat_alt split: if_splits)
  next
    case False
    then have "unat N < off + len"
      using rec to_end offlt by (simp add: word_le_nat_alt)
    then show thesis
      using assms(1,4) guard False wraps rec free sum assms(3)
      by (auto simp: nvkvm_ring_reserve_def Let_def off recw tow word_less_nat_alt split: if_splits)
  qed
qed

text \<open>The record written by a producer, read back through the abstraction.\<close>

definition put_data :: "mem \<Rightarrow> nat \<Rightarrow> nat \<Rightarrow> u8 list \<Rightarrow> mem" where
  "put_data d off len xs =
     st_bytes (st32 (st32 d off (of_nat len)) (off + 4) NVKVM_RING_REC_DATA) (off + 8) xs"

lemma put_data_frame:
  "length xs + 8 \<le> len \<Longrightarrow> p < off \<or> off + len \<le> p \<Longrightarrow> put_data d off len xs p = d p"
  by (auto simp: put_data_def mem_simps)

lemma put_data_parse:
  assumes "h mod N + len \<le> N" "len = ring_rec_len (length xs)" "len < 2 ^ 32" "n = len"
  shows "\<exists>pad. length pad < 8 \<and> ring_parse (put_data d (h mod N) len xs) N h n = Some [xs @ pad]"
proof -
  let ?d = "put_data d (h mod N) len xs" and ?off = "h mod N"
  note len = ring_rec_len [of "length xs", folded assms(2)]
  have "ld32 ?d ?off = of_nat len" "ld32 ?d (?off + 4) = NVKVM_RING_REC_DATA"
    by (simp_all add: put_data_def mem_simps)
  then have ok: "rec_ok ?d N h len len" and ty: "ld32 ?d (?off + 4) = NVKVM_RING_REC_DATA"
    using assms len by (simp_all add: rec_ok_def)
  have "take (length xs) (ld_bytes ?d (?off + 8) (len - 8)) = xs"
    unfolding put_data_def by (rule take_ld_st_bytes) (use len(2) in simp)
  then have "ld_bytes ?d (?off + 8) (len - 8) = xs @ drop (length xs) (ld_bytes ?d (?off + 8) (len - 8))"
    by (metis append_take_drop_id)
  then show ?thesis
    using len ring_parse_data [OF ok ty] assms(4)
    by (intro exI [of _ "drop (length xs) (ld_bytes ?d (?off + 8) (len - 8))"]) simp
qed

lemma ring_send_queue:
  assumes inv: "ring_inv N r" and q: "ring_queue N r = Some q"
    and len: "length xs < 2 ^ 32" and send: "ring_send N xs r = Some r'"
  shows "ring_inv N r' \<and> (\<exists>pad. length pad < 8 \<and> ring_queue N r' = Some (q @ [xs @ pad]))"
proof -
  let ?t = "unat (tail r)" and ?N = "unat N" and ?len = "ring_rec_len (length xs)"
  let ?off = "?t mod ?N"
  obtain p tot r1 where res: "nvkvm_ring_reserve N (of_nat (length xs)) r = Some (p, tot, r1)"
    and r': "r' = r1\<lparr>data := st_bytes (data r1) p xs, tail := tail r1 + tot\<rparr>"
    using send by (auto simp: ring_send_def nvkvm_ring_commit_def split: option.splits prod.splits)
  have ok: "nvkvm_ring_size_ok N" "?N < 2 ^ 32" "unat (tail r - head r) \<le> ?N"
    using inv by (simp_all add: ring_inv_def)
  have N: "8 dvd ?N" "64 \<le> ?N" "?off < ?N"
    using ring_size_ok_dvd [OF ok(1)] ring_size_ok_pos [OF ok(1)] by auto
  note rl = ring_rec_len [of "length xs"]
  have pl: "unat (of_nat (length xs) :: u32) = length xs" using len by simp
  from ok res show ?thesis
  proof (cases rule: ring_reserve_cases)
    case fits
    note fits = fits [unfolded pl]
    let ?d = "put_data (data r) ?off ?len xs"
    have r'': "r' = r\<lparr>data := ?d, tail := tail r + tot\<rparr>"
      by (simp add: r' fits put_rec_def put_data_def)
    obtain pad where pad: "length pad < 8" "ring_parse ?d ?N ?t (unat tot) = Some [xs @ pad]"
      using put_data_parse [of ?t ?N ?len xs "unat tot" "data r"] fits ok(2) by auto
    have "?d p = data r p" if "\<And>j. j < unat tot \<Longrightarrow> p \<noteq> (?t + j) mod ?N" for p
    proof (rule put_data_frame)
      show "p < ?off \<or> ?off + ?len \<le> p"
        using that [of "p - ?off"] window_mod_within [of ?t ?N "p - ?off"] fits(2,3) by fastforce
    qed (use rl in simp)
    then show ?thesis
      using ring_extend [OF inv q _ _ _ pad(2)] pad(1) fits rl r'' by auto
  next
    case wraps
    note wraps = wraps [unfolded pl]
    define te where "te = ?N - ?off"
    note wraps = wraps [folded te_def]
    let ?d1 = "st32 (st32 (data r) ?off (of_nat te)) (?off + 4) NVKVM_RING_REC_SKIP"
    let ?d = "put_data ?d1 0 ?len xs"
    have r'': "r' = r\<lparr>data := ?d, tail := tail r + tot\<rparr>"
      by (simp add: r' wraps put_rec_def put_data_def)
    have sum: "?off + te = ?N" using N(3) by (simp add: te_def)
    have le: "?len \<le> ?off" using wraps(4) sum by linarith
    have te: "8 dvd te" using N inv by (simp add: te_def ring_inv_def dvd_mod_iff)
    then have te8: "8 \<le> te" using N(3) sum by (intro dvd_imp_le) simp_all
    have wrap: "(?t + te) mod ?N = 0"
      using mod_add_left_eq [of ?t ?N te] by (simp add: sum)
    obtain pad where pad: "length pad < 8" "ring_parse ?d ?N (?t + te) ?len = Some [xs @ pad]"
      using put_data_parse [of "?t + te" ?N ?len xs ?len ?d1] ok(2) wraps(4) by (auto simp: wrap)
    have "ld32 ?d ?off = of_nat te" "ld32 ?d (?off + 4) = NVKVM_RING_REC_SKIP"
      using le rl(2) by (simp_all add: put_data_def mem_simps)
    then have "ring_parse ?d ?N ?t (unat tot) = Some [xs @ pad]"
      using ring_parse_skip [of ?d ?N ?t "unat tot" te] te te8 sum wraps(2) ok(2) pad(2)
      by (simp add: rec_ok_def)
    moreover have "?d p = data r p" if "\<And>j. j < unat tot \<Longrightarrow> p \<noteq> (?t + j) mod ?N" for p
    proof -
      have "p < ?off \<or> ?N \<le> p"
        using that [of "p - ?off"] window_mod_within [of ?t ?N "p - ?off"] wraps(2) sum by fastforce
      moreover have "?len \<le> p"
        using that [of "te + p"] window_mod_within [of "?t + te" ?N p] wraps(2) wrap le N(3)
        by (fastforce simp: add.assoc)
      ultimately show ?thesis
        using te8 rl(2) sum by (auto simp: put_data_frame st32_frame)
    qed
    ultimately show ?thesis
      using ring_extend [OF inv q] pad(1) wraps(2,4) te rl(1) r'' by auto
  qed
qed

lemma ring_recv_queue:
  assumes inv: "ring_inv N r"
  shows "ring_queue N r = Some [] \<Longrightarrow> ring_recv N r = None"
    and "ring_queue N r = Some (x # q) \<Longrightarrow>
      \<exists>r'. ring_recv N r = Some (x, r') \<and> ring_inv N r' \<and> ring_queue N r' = Some q"
proof -
  have ok: "nvkvm_ring_size_ok N" "unat (tail r - head r) \<le> unat N"
    using inv by (simp_all add: ring_inv_def)
  show "ring_recv N r = None" if "ring_queue N r = Some []"
    using ring_peek_loop_empty [OF ok that] ok(1) by (simp add: ring_recv_def nvkvm_ring_peek_def)
  show "\<exists>r'. ring_recv N r = Some (x, r') \<and> ring_inv N r' \<and> ring_queue N r' = Some q"
    if qx: "ring_queue N r = Some (x # q)"
  proof -
    obtain h p len tot where pk: "ring_peek_loop N r = (r\<lparr>head := h\<rparr>, RING_OK p len tot)"
      and x: "ld_bytes (data r) p (unat len) = x"
      and q': "ring_queue N (r\<lparr>head := h + tot\<rparr>) = Some q"
      and le: "unat (tail r - (h + tot)) \<le> unat (tail r - head r)"
      and al: "8 dvd unat (head r) \<longrightarrow> 8 dvd unat (h + tot)"
      using ring_peek_loop_record [OF ok qx] by blast
    have "ring_recv N r = Some (x, r\<lparr>head := h + tot\<rparr>)"
      using ok(1) pk x by (simp add: ring_recv_def nvkvm_ring_peek_def nvkvm_ring_pop_def)
    moreover have "ring_inv N (r\<lparr>head := h + tot\<rparr>)"
      using inv al le q' by (simp add: ring_inv_def)
    ultimately show ?thesis using q' by blast
  qed
qed

lemma ring_empty_inv:
  assumes "nvkvm_ring_size_ok N" "unat N < 2 ^ 32" "head r = 0" "tail r = 0"
  shows "ring_inv N r \<and> ring_queue N r = Some []"
  using assms by (simp add: ring_inv_def ring_queue_def)

text \<open>
  A ring never refuses a record for which it has room: twice the record length of
  free space is always enough, whatever the position of the wrap.
\<close>

lemma ring_send_succeeds:
  assumes inv: "ring_inv N r" and len: "length xs < 2 ^ 31"
    and room: "unat (tail r - head r) + 2 * ring_rec_len (length xs) \<le> unat N"
  shows "\<exists>r'. ring_send N xs r = Some r'"
proof -
  let ?rec = "nvkvm_ring_roundup (8 + of_nat (length xs))" and ?o = "tail r AND (N - 1)"
  let ?len = "ring_rec_len (length xs)"
  have ok: "nvkvm_ring_size_ok N" "unat N < 2 ^ 32" "unat (tail r - head r) \<le> unat N"
    using inv by (simp_all add: ring_inv_def)
  have off: "unat ?o < unat N"
    using ring_off_mod [OF ok(1)] ring_size_ok_pos [OF ok(1)] by simp
  have pl: "unat (of_nat (length xs) :: u32) = length xs" using len by simp
  then have "unat (8 + of_nat (length xs) :: u32) = 8 + length xs"
    using len by (simp add: unat_word_ariths)
  then have rec: "unat ?rec = ?len"
    using len unat_ring_roundup [of "8 + of_nat (length xs)"] by (simp add: ring_rec_len_def)
  have te: "unat (N - ?o) = unat N - unat ?o" using off by (simp add: unat_sub word_le_nat_alt)
  have free: "unat (N - (tail r - head r)) = unat N - unat (tail r - head r)"
    using ok(3) by (simp add: unat_sub word_le_nat_alt)
  have sum: "unat (N - ?o + ucast ?rec) = unat N - unat ?o + ?len"
    using te rec ok(2) room by (subst unat_word_ariths) simp
  have g: "\<not> ucast ?rec > N" "\<not> ucast (of_nat (length xs) :: u32) > N" "\<not> N - (tail r - head r) < ucast ?rec"
    using room ring_rec_len(2) [of "length xs"] by (simp_all add: word_less_nat_alt rec free pl)
  have "\<not> ucast ?rec \<le> N - ?o \<Longrightarrow> \<not> N - (tail r - head r) < N - ?o + ucast ?rec"
    using room by (simp add: word_less_nat_alt word_le_nat_alt rec free sum te)
  then have "nvkvm_ring_reserve N (of_nat (length xs)) r \<noteq> None"
    using g ok(1) by (simp add: nvkvm_ring_reserve_def Let_def)
  then show ?thesis by (auto simp: ring_send_def)
qed

section \<open>The ring as a channel\<close>

definition ring_delivers :: "u8 list \<Rightarrow> u8 list \<Rightarrow> bool" where
  "ring_delivers m m' \<longleftrightarrow> (\<exists>pad. length pad < 8 \<and> m' = m @ pad)"

definition ring_pending :: "u64 \<Rightarrow> ring \<Rightarrow> u8 list list" where
  "ring_pending N r = the (ring_queue N r)"

lemma ring_pending: "ring_inv N r \<Longrightarrow> ring_queue N r = Some (ring_pending N r)"
  by (auto simp: ring_inv_def ring_pending_def)

lemma ring_pendingI: "ring_queue N r = Some q \<Longrightarrow> ring_pending N r = q"
  by (simp add: ring_pending_def)

interpretation rq: bounded_fifo "ring_inv N" "ring_pending N" "ring_send N" "ring_recv N"
    "\<lambda>m. length m < 2 ^ 32" ring_delivers for N
proof (standard, goal_cases)
  case (1 r m r')
  then show ?case
    using ring_send_queue [of N r "ring_pending N r" m r'] ring_pending [of N r]
    unfolding ring_delivers_def by (blast dest: ring_pendingI)
next
  case (2 r)
  then show ?case using ring_recv_queue(1) [of N r] ring_pending [of N r] by simp
next
  case (3 r m ms)
  then show ?case using ring_recv_queue(2) [of N r m ms] ring_pending [of N r]
    by (auto dest: ring_pendingI)
qed

section \<open>Bounds against a hostile peer\<close>

lemma ring_peek_iter_safe:
  assumes "nvkvm_ring_size_ok N" and "ring_peek_iter N r = (r', Some (RING_OK p len tot))"
  shows "8 \<le> p \<and> p + unat len \<le> unat N \<and> unat tot = unat len + 8 \<and> 8 dvd unat tot
    \<and> unat tot \<le> unat (tail r - head r) \<and> r' = r"
proof -
  define off where "off = head r AND (N - 1)"
  define w where "w = ld32 (data r) (unat off)"
  have offlt: "unat off < unat N"
    using ring_off_mod [OF assms(1)] ring_size_ok_pos [OF assms(1)] by (simp add: off_def)
  have r: "r' = r" "p = unat off + 8" "len = w - 8" "tot = ucast w"
    and c: "\<not> w < 8" "w AND 7 = 0" "\<not> ucast w > tail r - head r" "\<not> ucast w > N" "\<not> off + ucast w > N"
    using assms(2) by (auto simp: ring_peek_iter_def Let_def off_def [symmetric] w_def [symmetric] split: if_splits)
  have wlt: "unat w \<le> unat N" using c(4) by (simp add: word_less_nat_alt)
  have "unat N \<le> 2 ^ 63"
  proof -
    obtain k where k: "k < 64" "unat N = 2 ^ k" using assms(1) by (rule ring_size_okD)
    then have "(2::nat) ^ k \<le> 2 ^ 63" by (intro power_increasing) simp_all
    then show ?thesis by (simp only: k)
  qed
  then have "unat (off + ucast w) = unat off + unat w"
    using offlt wlt by (subst unat_word_ariths) simp
  then have "unat off + unat w \<le> unat N" using c(5) by (simp add: word_less_nat_alt)
  moreover have "unat (w - 8) = unat w - 8" "8 \<le> unat w"
    using c(1) by (simp_all add: unat_sub word_less_nat_alt word_le_nat_alt)
  moreover have "8 dvd unat w" using c(2) by (simp add: and_7_dvd)
  moreover have "unat w \<le> unat (tail r - head r)" using c(3) by (simp add: word_less_nat_alt)
  ultimately show ?thesis by (simp add: r)
qed

lemma ring_peek_iter_other:
  "ring_peek_iter N r = (r', None) \<Longrightarrow> data r' = data r \<and> tail r' = tail r"
  by (auto simp: ring_peek_iter_def Let_def split: if_splits)

lemma ring_peek_loop_safe:
  assumes "nvkvm_ring_size_ok N" and "ring_peek_loop N r = (r', RING_OK p len tot)"
  shows "8 \<le> p \<and> p + unat len \<le> unat N \<and> unat tot = unat len + 8 \<and> 8 dvd unat tot
    \<and> unat tot \<le> unat (tail r' - head r') \<and> data r' = data r \<and> tail r' = tail r"
  using assms
proof (induction N r rule: ring_peek_loop.induct)
  case (1 N r)
  show ?case
  proof (cases "ring_peek_iter N r")
    case (Pair r1 res)
    have un: "ring_peek_loop N r = (case res of Some x \<Rightarrow> (r1, x) | None \<Rightarrow> ring_peek_loop N r1)"
      by (subst ring_peek_loop.simps) (simp add: Pair split: option.splits)
    show ?thesis
    proof (cases res)
      case None
      then have e: "data r1 = data r" "tail r1 = tail r" and "ring_peek_loop N r1 = (r', RING_OK p len tot)"
        using ring_peek_iter_other [of N r r1] Pair "1.prems"(2) un by simp_all
      from "1.IH" [OF Pair [symmetric] None "1.prems"(1) this(3)] show ?thesis unfolding e .
    next
      case (Some x)
      then show ?thesis
        using ring_peek_iter_safe [OF "1.prems"(1)] Pair "1.prems"(2) un by fastforce
    qed
  qed
qed

lemma put_rec_frame: "p < off \<or> off + 8 \<le> p \<Longrightarrow> data (put_rec off len ty r) p = data r p"
  by (auto simp: put_rec_def mem_simps)

lemma ring_reserve_safe:
  assumes ok: "nvkvm_ring_size_ok N" "unat N < 2 ^ 32" and al: "8 dvd unat (tail r)"
    and res: "nvkvm_ring_reserve N payload r = Some (p, tot, r')"
  shows "8 \<le> p \<and> p + unat payload \<le> unat N \<and> tail r' = tail r \<and> head r' = head r
    \<and> (\<forall>a \<ge> unat N. data r' a = data r a)"
proof -
  let ?rec = "nvkvm_ring_roundup (8 + payload)" and ?o = "tail r AND (N - 1)"
  have off: "unat ?o = unat (tail r) mod unat N" by (rule ring_off_mod [OF ok(1)])
  have N: "8 dvd unat N" "64 \<le> unat N"
    using ring_size_ok_dvd [OF ok(1)] ring_size_ok_pos [OF ok(1)] by auto
  then have "8 dvd unat ?o" "unat ?o < unat N" using al by (simp_all add: off dvd_mod_iff)
  then have o8: "unat ?o + 8 \<le> unat N" using N by (auto elim!: dvdE)
  obtain k where k: "unat N = 2 ^ k" using ok(1) by (rule ring_size_okD)
  have "k < 32" using ok(2) unfolding k by (simp only: power_strict_increasing_iff)
  then have "(2::nat) ^ k \<le> 2 ^ 31" by (intro power_increasing) simp_all
  then have N31: "unat N \<le> 2 ^ 31" by (simp only: k)
  have guard: "\<not> ucast ?rec > N" "\<not> ucast payload > N"
    using ok(1) res by (auto simp: nvkvm_ring_reserve_def Let_def split: if_splits)
  then have pl: "unat payload \<le> unat N" "unat ?rec \<le> unat N" by (simp_all add: word_less_nat_alt)
  then have "unat (8 + payload) = 8 + unat payload" using N31 by (simp add: unat_word_ariths)
  then have rec: "unat ?rec = ring_rec_len (unat payload)"
    using N31 pl unat_ring_roundup [of "8 + payload"] by (simp add: ring_rec_len_def)
  note rl = ring_rec_len(2) [of "unat payload"]
  have te: "unat (N - ?o) = unat N - unat ?o" using o8 by (simp add: unat_sub word_le_nat_alt)
  consider "ucast ?rec \<le> N - ?o" "p = unat ?o + 8" "r' = put_rec (unat ?o) ?rec NVKVM_RING_REC_DATA r"
    | "p = 8" "r' = put_rec 0 ?rec NVKVM_RING_REC_DATA
                      (put_rec (unat ?o) (ucast (N - ?o)) NVKVM_RING_REC_SKIP r)"
    using ok(1) res guard by (auto simp: nvkvm_ring_reserve_def Let_def split: if_splits)
  then show ?thesis
  proof cases
    case 1
    then have "unat ?o + unat ?rec \<le> unat N" using te o8 by (simp add: word_le_nat_alt)
    then show ?thesis using 1 rl rec o8 by (simp add: put_rec_frame) (simp add: put_rec_def)
  next
    case 2
    then show ?thesis using rl rec o8 pl N(2) by (simp add: put_rec_frame) (simp add: put_rec_def)
  qed
qed

section \<open>Properties\<close>

text \<open>C1: the ring is a first-in first-out channel.  From a fresh ring, after any
  interleaving of successful sends and receives, the payloads received followed by
  those still queued are exactly the payloads sent, in order, each padded by fewer
  than eight bytes; the ring is never seen as malformed, and the consumer can drain
  what is queued.\<close>

theorem ring_fifo_order:
  assumes "nvkvm_ring_size_ok N" and "unat N < 2 ^ 32" and "head r = 0" and "tail r = 0"
    and "fifo_trace (ring_send N) (ring_recv N) r es r'"
    and "\<forall>m \<in> set (fifo_sents es). length m < 2 ^ 32"
  shows "\<exists>pend. ring_queue N r' = Some pend
    \<and> list_all2 ring_delivers (fifo_sents es) (fifo_receiveds es @ pend)
    \<and> (\<exists>r''. fifo_trace (ring_send N) (ring_recv N) r' (map Received pend) r''
            \<and> ring_recv N r'' = None)"
proof -
  have init: "ring_inv N r" "ring_pending N r = []"
    using ring_empty_inv [OF assms(1-4)] by (auto dest: ring_pendingI)
  have tr: "ring_inv N r'" "list_all2 ring_delivers (fifo_sents es) (fifo_receiveds es @ ring_pending N r')"
    using rq.trace_order [OF assms(5) init] assms(6) by auto
  show ?thesis
    using tr ring_pending [OF tr(1)] rq.trace_drains [OF tr(1)] rq.recv_empty by blast
qed

definition demo_ring :: ring where
  "demo_ring = \<lparr>rsize = 64, tail = 0, head = 0, data = (\<lambda>_. 0)\<rparr>"

theorem ring_fifo_order_witness:
  "\<exists>r' pend. fifo_trace (ring_send 64) (ring_recv 64) demo_ring [Sent [1, 2, 3]] r'
     \<and> ring_queue 64 r' = Some pend \<and> list_all2 ring_delivers [[1, 2, 3]] pend"
proof -
  obtain r' where send: "ring_send 64 [1, 2, 3] demo_ring = Some r'"
    by (simp add: ring_send_def nvkvm_ring_reserve_def nvkvm_ring_size_ok_def demo_ring_def
        nvkvm_ring_roundup_def Let_def)
  have tr: "fifo_trace (ring_send 64) (ring_recv 64) demo_ring ([] @ [Sent [1, 2, 3]]) r'"
    by (rule fifo_sent [where s' = demo_ring]) (rule fifo_nil, rule send)
  then show ?thesis
    using ring_fifo_order [OF _ _ _ _ tr]
    by (auto simp: nvkvm_ring_size_ok_def demo_ring_def)
qed

text \<open>C2: whatever a hostile peer has written to the counters and to the data
  region, a record that \<open>nvkvm_ring_peek\<close> reports lies inside the data region, its
  length agrees with the amount to pop, and peeking changes neither the data nor the
  producer's counter.\<close>

theorem ring_peek_in_bounds:
  assumes "nvkvm_ring_peek N r = (r', RING_OK p len tot)"
  shows "8 \<le> p \<and> p + unat len \<le> unat N \<and> unat tot = unat len + 8 \<and> 8 dvd unat tot
    \<and> unat tot \<le> unat (tail r' - head r') \<and> data r' = data r \<and> tail r' = tail r"
proof (rule ring_peek_loop_safe)
  show "nvkvm_ring_size_ok N" and "ring_peek_loop N r = (r', RING_OK p len tot)"
    using assms by (simp_all add: nvkvm_ring_peek_def split: if_splits)
qed

theorem ring_peek_in_bounds_witness:
  "\<exists>r r'. nvkvm_ring_peek 64 r = (r', RING_OK 24 8 16) \<and> 24 + unat (8 :: u32) \<le> unat (64 :: u64)"
proof -
  let ?r = "\<lparr>rsize = 0, tail = 48, head = 16, data = st32 (st32 (\<lambda>_. 255) 16 16) 20 1\<rparr>"
  have it: "ring_peek_iter 64 ?r = (?r, Some (RING_OK 24 8 16))"
    by (simp add: ring_peek_iter_def Let_def ld32_st32_same ld32_st32_other
        NVKVM_RING_REC_SKIP_def NVKVM_RING_REC_DATA_def)
  have "nvkvm_ring_peek 64 ?r = (?r, RING_OK 24 8 16)"
    unfolding nvkvm_ring_peek_def
    by (subst ring_peek_loop.simps) (simp add: it nvkvm_ring_size_ok_def)
  with ring_peek_in_bounds [OF this] show ?thesis by blast
qed

text \<open>C3: a reservation made at an aligned producer position hands out a payload
  area inside the data region and writes no byte past it, even if the consumer's
  counter is forged.\<close>

theorem ring_reserve_in_bounds:
  assumes "unat N < 2 ^ 32" and "8 dvd unat (tail r)"
    and "nvkvm_ring_reserve N payload r = Some (p, tot, r')"
  shows "8 \<le> p \<and> p + unat payload \<le> unat N \<and> tail r' = tail r \<and> head r' = head r
    \<and> (\<forall>a \<ge> unat N. data r' a = data r a)"
proof -
  have "nvkvm_ring_size_ok N" using assms(3) by (simp add: nvkvm_ring_reserve_def Let_def split: if_splits)
  then show ?thesis using ring_reserve_safe assms by blast
qed

theorem ring_reserve_in_bounds_witness:
  "\<exists>p tot r'. nvkvm_ring_reserve 64 5 demo_ring = Some (p, tot, r') \<and> p + unat (5 :: u32) \<le> unat (64 :: u64)"
proof -
  obtain p tot r' where *: "nvkvm_ring_reserve 64 5 demo_ring = Some (p, tot, r')"
    by (simp add: nvkvm_ring_reserve_def nvkvm_ring_size_ok_def demo_ring_def
        nvkvm_ring_roundup_def Let_def)
  have "8 dvd unat (tail demo_ring)" by (simp add: demo_ring_def)
  with ring_reserve_in_bounds [OF _ _ *] * show ?thesis by auto
qed

text \<open>The alignment matters.  A producer counter forged to an unaligned
  position makes \<open>nvkvm_ring_reserve\<close> write the header of its skip record past the end
  of the data region (here byte 64 of a 64-byte region).\<close>

lemma ring_reserve_unaligned_writes_past_end:
  "\<exists>r p tot r'. nvkvm_ring_reserve 64 8 r = Some (p, tot, r') \<and> data r' 64 \<noteq> data r 64"
proof -
  let ?r = "\<lparr>rsize = 64, tail = 60, head = 60, data = (\<lambda>_. 255)\<rparr>"
  have "nvkvm_ring_reserve 64 8 ?r = Some (8, 20, put_rec 0 16 NVKVM_RING_REC_DATA
      (put_rec 60 4 NVKVM_RING_REC_SKIP ?r))"
    by (simp add: nvkvm_ring_reserve_def nvkvm_ring_size_ok_def nvkvm_ring_roundup_def Let_def)
  moreover have "data (put_rec 0 16 NVKVM_RING_REC_DATA (put_rec 60 4 NVKVM_RING_REC_SKIP ?r)) 64 = 0"
    by (simp add: put_rec_def st32_def byte32_def NVKVM_RING_REC_SKIP_def)
  ultimately show ?thesis by (intro exI conjI) (assumption, simp)
qed

text \<open>A producer is never refused while the ring has room for twice the
  record, so the bounded responses of the stub always fit once the guest has drained
  the ring.\<close>

lemma ring_send_progress:
  assumes "ring_inv N r" and "length xs < 2 ^ 31"
    and "unat (tail r - head r) + 2 * ring_rec_len (length xs) \<le> unat N"
  shows "\<exists>r'. ring_send N xs r = Some r'"
  using assms by (rule ring_send_succeeds)

end
