(* ===== verification/SlotTable.thy ===== *)
theory SlotTable
  imports Prelude
begin

text \<open>
  The contract of a table that hands out identifiers for live entries.  The device
  keeps several of them (host handles, isolates, mapping tokens); their clients rely
  on the fact that an identifier denotes the entry it was handed out for until that
  entry is released, whatever happens to other identifiers in between.
\<close>

locale slot_table =
  fixes inv :: "'s \<Rightarrow> bool"
    and live :: "'s \<Rightarrow> 'k \<rightharpoonup> 'v"
    and alloc :: "'v \<Rightarrow> 's \<Rightarrow> ('k \<times> 's) option"
    and release :: "'k \<Rightarrow> 's \<Rightarrow> 's option"
  assumes alloc_live: "inv s \<Longrightarrow> alloc v s = Some (k, s') \<Longrightarrow>
      inv s' \<and> live s k = None \<and> live s' = (live s)(k \<mapsto> v)"
    and release_live: "inv s \<Longrightarrow> release k s = Some s' \<Longrightarrow>
      inv s' \<and> live s k \<noteq> None \<and> live s' = (live s)(k := None)"

datatype ('k, 'v) slot_op = Alloc 'v 'k | Release 'k

inductive slot_run ::
  "('v \<Rightarrow> 's \<Rightarrow> ('k \<times> 's) option) \<Rightarrow> ('k \<Rightarrow> 's \<Rightarrow> 's option) \<Rightarrow> 's \<Rightarrow> ('k, 'v) slot_op list \<Rightarrow> 's \<Rightarrow> bool"
  for alloc release where
  run_nil: "slot_run alloc release s [] s"
| run_alloc: "alloc v s = Some (k, s') \<Longrightarrow> slot_run alloc release s' ops s''
    \<Longrightarrow> slot_run alloc release s (Alloc v k # ops) s''"
| run_release: "release k s = Some s' \<Longrightarrow> slot_run alloc release s' ops s''
    \<Longrightarrow> slot_run alloc release s (Release k # ops) s''"

text \<open>The map of live entries that a sequence of operations leaves, read off the operations.\<close>

fun slot_spec :: "('k, 'v) slot_op list \<Rightarrow> ('k \<rightharpoonup> 'v) \<Rightarrow> ('k \<rightharpoonup> 'v)" where
  "slot_spec [] m = m"
| "slot_spec (Alloc v k # ops) m = slot_spec ops (m(k \<mapsto> v))"
| "slot_spec (Release k # ops) m = slot_spec ops (m(k := None))"

context slot_table
begin

lemma run_live:
  assumes "slot_run alloc release s ops s'" and "inv s"
  shows "inv s' \<and> live s' = slot_spec ops (live s)"
  using assms
  by (induction rule: slot_run.induct) (auto dest: alloc_live release_live)

lemma run_stable:
  assumes "slot_run alloc release s ops s'" and "inv s" and "live s k = Some v"
    and "Release k \<notin> set ops"
  shows "live s' k = Some v \<and> (\<forall>w. Alloc w k \<notin> set ops)"
  using assms
proof (induction rule: slot_run.induct)
  case (run_alloc v' s k' s' ops s'')
  then have "k' \<noteq> k" "live s' k = Some v" "inv s'" using alloc_live [of s v' k' s'] by auto
  with run_alloc show ?case by auto
next
  case (run_release k' s s' ops s'')
  then have "k' \<noteq> k" "live s' k = Some v" "inv s'" using release_live [of s k' s'] by auto
  with run_release show ?case by auto
qed simp

end

end
