(* ===== verification/HandleTable.thy ===== *)
theory HandleTable
  imports SlotTable
begin

text \<open>
  The host handle table of \<open>qemu/nvkvm_handle.c\<close>: device and memory file
  descriptors held by the device model on behalf of guest sessions.

  The descriptors that the host operating system returns are arguments of the
  operations; the descriptors that an operation passes to \<open>close\<close> are returned as a
  list, in order.  Every operation runs under the table lock, so each is one step.
\<close>

section \<open>Definitions\<close>

definition NVKVM_HANDLE_MAX :: nat where "NVKVM_HANDLE_MAX = 65536"
definition NVKVM_HANDLE_TYPE_NVIDIA :: int where "NVKVM_HANDLE_TYPE_NVIDIA = 1"
definition NVKVM_HANDLE_TYPE_MEMORY :: int where "NVKVM_HANDLE_TYPE_MEMORY = 2"
definition NVKVM_DEV_CTL :: int where "NVKVM_DEV_CTL = 0"
definition NVKVM_DEV_UVM :: int where "NVKVM_DEV_UVM = 1"
definition NVKVM_DEV_EVENTFD :: int where "NVKVM_DEV_EVENTFD = 255"

record nvkvm_handle =
  h_id :: u32
  h_type :: int
  h_fd :: fd
  h_session :: u32
  h_dev :: int
  h_refs :: u32
  h_poll :: bool
  h_in_use :: bool

record handle_table =
  handles :: "nat \<Rightarrow> nvkvm_handle"
  next_id :: u32

datatype dev_path = Path_CTL | Path_UVM | Path_GPU nat

definition nvidia_dev_path :: "int \<Rightarrow> dev_path option" where
  "nvidia_dev_path dev_id =
    (if dev_id = NVKVM_DEV_CTL then Some Path_CTL
     else if dev_id = NVKVM_DEV_UVM then Some Path_UVM
     else let n = dev_id - 16 in
       if n \<ge> 0 \<and> n < 16 then Some (Path_GPU (nat n)) else None)"

definition zero_handle :: nvkvm_handle where
  "zero_handle = \<lparr>h_id = 0, h_type = 0, h_fd = 0, h_session = 0, h_dev = 0, h_refs = 0,
     h_poll = False, h_in_use = False\<rparr>"

definition nvkvm_handle_table_init :: handle_table where
  "nvkvm_handle_table_init = \<lparr>handles = (\<lambda>i. zero_handle\<lparr>h_fd := -1\<rparr>), next_id = 1\<rparr>"

definition set_slot :: "nat \<Rightarrow> nvkvm_handle \<Rightarrow> handle_table \<Rightarrow> handle_table" where
  "set_slot i h t = t\<lparr>handles := (handles t)(i := h)\<rparr>"

definition fini_step :: "nat \<Rightarrow> handle_table \<times> fd list \<Rightarrow> handle_table \<times> fd list" where
  "fini_step i = (\<lambda>(t, closed). let h = handles t i in
     if h_in_use h \<and> h_fd h \<ge> 0 then (set_slot i (h\<lparr>h_fd := -1\<rparr>) t, closed @ [h_fd h])
     else (t, closed))"

definition nvkvm_handle_table_fini :: "handle_table \<Rightarrow> handle_table \<times> fd list" where
  "nvkvm_handle_table_fini t = fold fini_step [0..<NVKVM_HANDLE_MAX] (t, [])"

definition bump_next_id :: "u32 \<Rightarrow> u32" where
  "bump_next_id i = (if unat (i + 1) \<ge> NVKVM_HANDLE_MAX then 1 else i + 1)"

fun alloc_slot_loop :: "nat \<Rightarrow> handle_table \<Rightarrow> u32 option \<times> handle_table" where
  "alloc_slot_loop 0 t = (None, t)"
| "alloc_slot_loop (Suc attempts) t =
    (let i = next_id t;
         t = t\<lparr>next_id := bump_next_id i\<rparr> in
     if i = 0 then alloc_slot_loop attempts t
     else let k = unat i mod NVKVM_HANDLE_MAX in
       if \<not> h_in_use (handles t k) then
         (Some i, set_slot k (zero_handle\<lparr>h_id := i, h_fd := -1, h_in_use := True\<rparr>) t)
       else alloc_slot_loop attempts t)"

definition alloc_slot :: "handle_table \<Rightarrow> u32 option \<times> handle_table" where
  "alloc_slot t = alloc_slot_loop NVKVM_HANDLE_MAX t"

definition fill_slot :: "u32 \<Rightarrow> int \<Rightarrow> fd \<Rightarrow> u32 \<Rightarrow> int \<Rightarrow> handle_table \<Rightarrow> handle_table" where
  "fill_slot i type fd session dev t =
    (let k = unat i mod NVKVM_HANDLE_MAX in
     set_slot k ((handles t k)\<lparr>h_type := type, h_fd := fd, h_session := session, h_dev := dev\<rparr>) t)"

text \<open>\<open>os_open\<close> is what \<open>eventfd\<close> or \<open>open\<close> returns for the requested device.\<close>

definition nvkvm_handle_open_nvidia ::
  "u32 \<Rightarrow> int \<Rightarrow> fd result \<Rightarrow> handle_table \<Rightarrow> u32 result \<times> handle_table \<times> fd list" where
  "nvkvm_handle_open_nvidia session_id dev_id os_open t =
    (if dev_id \<noteq> NVKVM_DEV_EVENTFD \<and> nvidia_dev_path dev_id = None then (Inl EINVAL, t, [])
     else case os_open of
       Inl e \<Rightarrow> (Inl e, t, [])
     | Inr fd \<Rightarrow>
        (case alloc_slot t of
           (None, t) \<Rightarrow> (Inl EMFILE, t, [fd])
         | (Some i, t) \<Rightarrow>
             (Inr i, fill_slot i NVKVM_HANDLE_TYPE_NVIDIA fd session_id dev_id t, [])))"

definition nvkvm_handle_alloc_pending ::
  "u32 \<Rightarrow> int \<Rightarrow> handle_table \<Rightarrow> u32 result \<times> handle_table" where
  "nvkvm_handle_alloc_pending session_id dev_id t =
    (case alloc_slot t of
       (None, t) \<Rightarrow> (Inl EMFILE, t)
     | (Some i, t) \<Rightarrow> (Inr i, fill_slot i NVKVM_HANDLE_TYPE_NVIDIA (-1) session_id dev_id t))"

definition bad_id :: "u32 \<Rightarrow> bool" where
  "bad_id i \<longleftrightarrow> i = 0 \<or> unat i \<ge> NVKVM_HANDLE_MAX"

definition slot_of :: "u32 \<Rightarrow> handle_table \<Rightarrow> nvkvm_handle" where
  "slot_of i t = handles t (unat i mod NVKVM_HANDLE_MAX)"

definition stale :: "u32 \<Rightarrow> handle_table \<Rightarrow> bool" where
  "stale i t \<longleftrightarrow> \<not> h_in_use (slot_of i t) \<or> h_id (slot_of i t) \<noteq> i"

definition upd_slot :: "u32 \<Rightarrow> (nvkvm_handle \<Rightarrow> nvkvm_handle) \<Rightarrow> handle_table \<Rightarrow> handle_table" where
  "upd_slot i f t = set_slot (unat i mod NVKVM_HANDLE_MAX) (f (slot_of i t)) t"

definition nvkvm_handle_attach_fd :: "u32 \<Rightarrow> fd \<Rightarrow> handle_table \<Rightarrow> unit result \<times> handle_table" where
  "nvkvm_handle_attach_fd i fd t =
    (if bad_id i \<or> fd < 0 then (Inl EINVAL, t)
     else if stale i t then (Inl EBADF, t)
     else if h_fd (slot_of i t) \<ge> 0 then (Inl EEXIST, t)
     else (Inr (), upd_slot i (\<lambda>h. h\<lparr>h_fd := fd\<rparr>) t))"

definition nvkvm_handle_abort_open :: "u32 \<Rightarrow> handle_table \<Rightarrow> handle_table" where
  "nvkvm_handle_abort_open i t =
    (if bad_id i then t
     else if \<not> stale i t \<and> h_fd (slot_of i t) < 0 then upd_slot i (\<lambda>h. h\<lparr>h_in_use := False\<rparr>) t
     else t)"

text \<open>\<open>os_memfd\<close> and \<open>os_trunc\<close> are what \<open>memfd_create\<close> and \<open>ftruncate\<close> return.\<close>

definition nvkvm_handle_open_memory ::
  "u32 \<Rightarrow> u64 \<Rightarrow> fd result \<Rightarrow> unit result \<Rightarrow> handle_table \<Rightarrow> u32 result \<times> handle_table \<times> fd list" where
  "nvkvm_handle_open_memory session_id sz os_memfd os_trunc t =
    (case os_memfd of
       Inl e \<Rightarrow> (Inl e, t, [])
     | Inr fd \<Rightarrow>
        (case (if sz > 0 then os_trunc else Inr ()) of
           Inl e \<Rightarrow> (Inl e, t, [fd])
         | Inr _ \<Rightarrow>
            (case alloc_slot t of
               (None, t) \<Rightarrow> (Inl EMFILE, t, [fd])
             | (Some i, t) \<Rightarrow> (Inr i, fill_slot i NVKVM_HANDLE_TYPE_MEMORY fd session_id 0 t, []))))"

definition nvkvm_handle_get :: "u32 \<Rightarrow> handle_table \<Rightarrow> nvkvm_handle option" where
  "nvkvm_handle_get i t = (if bad_id i \<or> stale i t then None else Some (slot_of i t))"

text \<open>\<open>os_dup\<close> is what \<open>fcntl (F_DUPFD_CLOEXEC)\<close> returns for a descriptor.\<close>

definition nvkvm_handle_acquire_fd :: "u32 \<Rightarrow> (fd \<Rightarrow> fd) \<Rightarrow> handle_table \<Rightarrow> fd \<times> int option" where
  "nvkvm_handle_acquire_fd i os_dup t =
    (if bad_id i then (-1, None)
     else if \<not> stale i t \<and> h_fd (slot_of i t) \<ge> 0
     then (os_dup (h_fd (slot_of i t)), Some (h_dev (slot_of i t)))
     else (-1, None))"

definition nvkvm_handle_ref_isolate :: "u32 \<Rightarrow> handle_table \<Rightarrow> unit result \<times> handle_table" where
  "nvkvm_handle_ref_isolate i t =
    (if bad_id i \<or> stale i t then (Inl EBADF, t)
     else (Inr (), upd_slot i (\<lambda>h. h\<lparr>h_refs := h_refs h + 1\<rparr>) t))"

definition nvkvm_handle_unref_isolate :: "u32 \<Rightarrow> handle_table \<Rightarrow> unit result \<times> handle_table" where
  "nvkvm_handle_unref_isolate i t =
    (if bad_id i \<or> stale i t then (Inl EBADF, t)
     else (Inr (), upd_slot i (\<lambda>h. if h_refs h > 0 then h\<lparr>h_refs := h_refs h - 1\<rparr> else h) t))"

definition close_fd_of :: "nvkvm_handle \<Rightarrow> fd list" where
  "close_fd_of h = (if h_fd h \<ge> 0 then [h_fd h] else [])"

definition drop_fd :: "nvkvm_handle \<Rightarrow> nvkvm_handle" where
  "drop_fd h = (if h_fd h \<ge> 0 then h\<lparr>h_fd := -1\<rparr> else h)"

definition nvkvm_handle_close :: "u32 \<Rightarrow> handle_table \<Rightarrow> unit result \<times> handle_table \<times> fd list" where
  "nvkvm_handle_close i t =
    (if bad_id i \<or> stale i t then (Inl EBADF, t, [])
     else if h_refs (slot_of i t) > 0 then (Inl EBUSY, t, [])
     else (Inr (), upd_slot i (\<lambda>h. (drop_fd h)\<lparr>h_in_use := False\<rparr>) t, close_fd_of (slot_of i t)))"

definition close_session_step :: "u32 \<Rightarrow> nat \<Rightarrow> handle_table \<times> fd list \<Rightarrow> handle_table \<times> fd list" where
  "close_session_step session_id i = (\<lambda>(t, closed). let h = handles t i in
     if \<not> h_in_use h \<or> h_session h \<noteq> session_id then (t, closed)
     else (set_slot i ((drop_fd h)\<lparr>h_in_use := False\<rparr>) t, closed @ close_fd_of h))"

definition nvkvm_handle_close_session :: "u32 \<Rightarrow> handle_table \<Rightarrow> handle_table \<times> fd list" where
  "nvkvm_handle_close_session session_id t =
     fold (close_session_step session_id) [1..<NVKVM_HANDLE_MAX] (t, [])"

declare alloc_slot_loop.simps(2) [simp del]

text \<open>
  The table invariant, the descriptors the table owns, and what an identifier
  denotes.
\<close>

definition handle_inv :: "handle_table \<Rightarrow> bool" where
  "handle_inv t \<longleftrightarrow> 1 \<le> unat (next_id t) \<and> unat (next_id t) < NVKVM_HANDLE_MAX
     \<and> (\<forall>i < NVKVM_HANDLE_MAX. h_in_use (handles t i) \<longrightarrow> i \<noteq> 0 \<and> unat (h_id (handles t i)) = i)
     \<and> (\<forall>i < NVKVM_HANDLE_MAX. \<not> h_in_use (handles t i) \<longrightarrow> h_fd (handles t i) < 0)"

definition owns_fd :: "handle_table \<Rightarrow> nat \<Rightarrow> fd \<Rightarrow> bool" where
  "owns_fd t i fd \<longleftrightarrow> i < NVKVM_HANDLE_MAX \<and> h_in_use (handles t i) \<and> h_fd (handles t i) = fd \<and> fd \<ge> 0"

definition table_fds :: "handle_table \<Rightarrow> fd set" where
  "table_fds t = {fd. \<exists>i. owns_fd t i fd}"

definition fd_inv :: "handle_table \<Rightarrow> bool" where
  "fd_inv t \<longleftrightarrow> (\<forall>i j fd. owns_fd t i fd \<longrightarrow> owns_fd t j fd \<longrightarrow> i = j)"

type_synonym handle_info = "int \<times> fd \<times> u32 \<times> int"

definition handle_live :: "handle_table \<Rightarrow> u32 \<Rightarrow> handle_info option" where
  "handle_live t i =
     map_option (\<lambda>h. (h_type h, h_fd h, h_session h, h_dev h)) (nvkvm_handle_get i t)"

definition handle_open :: "handle_info \<Rightarrow> handle_table \<Rightarrow> (u32 \<times> handle_table) option" where
  "handle_open v t = (case v of (type, fd, session, dev) \<Rightarrow>
     (case alloc_slot t of (None, _) \<Rightarrow> None | (Some i, t) \<Rightarrow> Some (i, fill_slot i type fd session dev t)))"

definition handle_release :: "u32 \<Rightarrow> handle_table \<Rightarrow> handle_table option" where
  "handle_release i t = (case nvkvm_handle_close i t of (Inr _, t, _) \<Rightarrow> Some t | _ \<Rightarrow> None)"

text \<open>
  One step of the table with the descriptors it takes over from the operating system
  and those it closes.  A descriptor handed to the table is not one it already holds.
\<close>

definition fresh_fd :: "fd \<Rightarrow> handle_table \<Rightarrow> bool" where
  "fresh_fd fd t \<longleftrightarrow> fd \<ge> 0 \<and> fd \<notin> table_fds t"

inductive handle_step :: "handle_table \<Rightarrow> fd set \<Rightarrow> fd list \<Rightarrow> handle_table \<Rightarrow> bool" where
  step_open: "nvidia_dev_path dev \<noteq> None \<or> dev = NVKVM_DEV_EVENTFD \<Longrightarrow> fresh_fd fd t \<Longrightarrow>
    nvkvm_handle_open_nvidia s dev (Inr fd) t = (r, t', cl) \<Longrightarrow> handle_step t {fd} cl t'"
| step_open_err: "nvkvm_handle_open_nvidia s dev (Inl e) t = (r, t', cl) \<Longrightarrow> handle_step t {} cl t'"
| step_memory: "fresh_fd fd t \<Longrightarrow>
    nvkvm_handle_open_memory s sz (Inr fd) trunc t = (r, t', cl) \<Longrightarrow> handle_step t {fd} cl t'"
| step_pending: "nvkvm_handle_alloc_pending s dev t = (r, t') \<Longrightarrow> handle_step t {} [] t'"
| step_attach: "fresh_fd fd t \<Longrightarrow>
    nvkvm_handle_attach_fd i fd t = (Inr (), t') \<Longrightarrow> handle_step t {fd} [] t'"
| step_abort: "handle_step t {} [] (nvkvm_handle_abort_open i t)"
| step_ref: "nvkvm_handle_ref_isolate i t = (r, t') \<Longrightarrow> handle_step t {} [] t'"
| step_unref: "nvkvm_handle_unref_isolate i t = (r, t') \<Longrightarrow> handle_step t {} [] t'"
| step_close: "nvkvm_handle_close i t = (r, t', cl) \<Longrightarrow> handle_step t {} cl t'"
| step_session: "nvkvm_handle_close_session s t = (t', cl) \<Longrightarrow> handle_step t {} cl t'"

inductive handle_reach :: "handle_table \<Rightarrow> fd set \<Rightarrow> bool" where
  reach_init: "handle_reach nvkvm_handle_table_init {}"
| reach_step: "handle_reach t F \<Longrightarrow> handle_step t opened cl t' \<Longrightarrow>
    handle_reach t' (F \<union> opened - set cl)"

section \<open>Slots\<close>

lemma HANDLE_MAX [simp]: "NVKVM_HANDLE_MAX = 65536"
  by (simp add: NVKVM_HANDLE_MAX_def)

lemma bad_id_iff: "\<not> bad_id i \<longleftrightarrow> 0 < unat i \<and> unat i < 65536"
  by (auto simp: bad_id_def unat_gt_0)

lemma slot_of_good: "\<not> bad_id i \<Longrightarrow> slot_of i t = handles t (unat i)"
  by (simp add: slot_of_def bad_id_iff)

lemma upd_slot_good: "\<not> bad_id i \<Longrightarrow> upd_slot i f t = set_slot (unat i) (f (handles t (unat i))) t"
  by (simp add: upd_slot_def bad_id_iff slot_of_def)

lemma set_slot_sel [simp]:
  "handles (set_slot i h t) = (handles t)(i := h)" "next_id (set_slot i h t) = next_id t"
  by (simp_all add: set_slot_def)

lemma get_iff:
  "nvkvm_handle_get i t = Some h \<longleftrightarrow>
     \<not> bad_id i \<and> h = handles t (unat i) \<and> h_in_use h \<and> h_id h = i"
  by (auto simp: nvkvm_handle_get_def stale_def slot_of_good)

lemma inv_get:
  assumes "handle_inv t" and "\<not> bad_id i"
  shows "nvkvm_handle_get i t = (if h_in_use (handles t (unat i)) then Some (handles t (unat i)) else None)"
proof -
  have "h_id (handles t (unat i)) = i" if "h_in_use (handles t (unat i))"
    using assms that by (simp add: handle_inv_def bad_id_iff word_unat_eq_iff)
  then show ?thesis using assms(2) by (auto simp: nvkvm_handle_get_def stale_def slot_of_good)
qed

section \<open>Allocation\<close>

definition next_pos :: "nat \<Rightarrow> nat" where
  "next_pos a = (if a + 1 \<ge> 65536 then 1 else a + 1)"

lemma alloc_step:
  assumes "1 \<le> unat (next_id t)" "unat (next_id t) < 65536"
  shows "alloc_slot_loop (Suc n) t =
    (let t' = t\<lparr>next_id := of_nat (next_pos (unat (next_id t)))\<rparr> in
     if \<not> h_in_use (handles t (unat (next_id t))) then
       (Some (next_id t), set_slot (unat (next_id t))
          (zero_handle\<lparr>h_id := next_id t, h_fd := -1, h_in_use := True\<rparr>) t')
     else alloc_slot_loop n t')"
proof -
  have "unat (next_id t + 1) = unat (next_id t) + 1"
    using assms(2) by (simp add: unat_word_ariths)
  moreover have "next_id t + 1 = of_nat (unat (next_id t) + 1)" by simp
  ultimately have "bump_next_id (next_id t) = of_nat (next_pos (unat (next_id t)))"
    by (simp only: bump_next_id_def next_pos_def HANDLE_MAX) simp
  moreover have "next_id t \<noteq> 0" using assms(1) by auto
  ultimately show ?thesis
    using assms by (simp add: Let_def alloc_slot_loop.simps(2))
qed

lemma next_pos_bounds: "1 \<le> a \<Longrightarrow> a < 65536 \<Longrightarrow> 1 \<le> next_pos a \<and> next_pos a < 65536"
  by (simp add: next_pos_def)

lemma alloc_loop_Some:
  assumes "1 \<le> unat (next_id t)" "unat (next_id t) < 65536"
    and "alloc_slot_loop n t = (Some i, t')"
  shows "\<not> bad_id i \<and> \<not> h_in_use (handles t (unat i))
    \<and> handles t' = (handles t)(unat i := zero_handle\<lparr>h_id := i, h_fd := -1, h_in_use := True\<rparr>)
    \<and> 1 \<le> unat (next_id t') \<and> unat (next_id t') < 65536"
  using assms
proof (induction n arbitrary: t)
  case (Suc n)
  let ?t = "t\<lparr>next_id := of_nat (next_pos (unat (next_id t)))\<rparr>"
  have nb: "1 \<le> unat (next_id ?t)" "unat (next_id ?t) < 65536"
    using next_pos_bounds [OF Suc.prems(1,2)] by simp_all
  show ?case
  proof (cases "h_in_use (handles t (unat (next_id t)))")
    case True
    then have "alloc_slot_loop n ?t = (Some i, t')"
      using Suc.prems by (simp only: alloc_step [OF Suc.prems(1,2)] Let_def if_False simp_thms)
    from Suc.IH [OF nb this] show ?thesis by simp
  next
    case False
    then show ?thesis
      using Suc.prems nb by (auto simp: alloc_step Let_def bad_id_iff)
  qed
qed simp

lemma alloc_loop_None:
  assumes "1 \<le> unat (next_id t)" "unat (next_id t) < 65536"
    and "alloc_slot_loop n t = (None, t')"
  shows "handles t' = handles t \<and> 1 \<le> unat (next_id t') \<and> unat (next_id t') < 65536
    \<and> (\<forall>j < n. h_in_use (handles t ((next_pos ^^ j) (unat (next_id t)))))"
  using assms
proof (induction n arbitrary: t)
  case (Suc n)
  let ?t = "t\<lparr>next_id := of_nat (next_pos (unat (next_id t)))\<rparr>"
  have nb: "1 \<le> unat (next_id ?t)" "unat (next_id ?t) < 65536" "unat (next_id ?t) = next_pos (unat (next_id t))"
    using next_pos_bounds [OF Suc.prems(1,2)] by simp_all
  have use: "h_in_use (handles t (unat (next_id t)))" and l: "alloc_slot_loop n ?t = (None, t')"
    using Suc.prems(3) unfolding alloc_step [OF Suc.prems(1,2)] Let_def by (auto split: if_splits)
  from Suc.IH [OF nb(1,2) l] nb(3) have
    rest: "\<forall>j < n. h_in_use (handles t ((next_pos ^^ Suc j) (unat (next_id t))))"
    and "handles t' = handles t \<and> 1 \<le> unat (next_id t') \<and> unat (next_id t') < 65536"
    by (auto simp: funpow_swap1)
  moreover have "\<forall>j < Suc n. h_in_use (handles t ((next_pos ^^ j) (unat (next_id t))))"
    using use rest by (auto simp: less_Suc_eq_0_disj simp del: funpow.simps(2)) 
  ultimately show ?case by blast
qed simp

lemma next_pos_funpow:
  assumes "1 \<le> a" "a < 65536"
  shows "(next_pos ^^ j) a = (a - 1 + j) mod 65535 + 1"
proof (induction j)
  case (Suc j)
  then show ?case by (auto simp: next_pos_def mod_Suc)
qed (use assms in simp)

lemma next_pos_covers:
  assumes "1 \<le> a" "a < 65536" "1 \<le> b" "b < 65536"
  shows "\<exists>j < 65536. (next_pos ^^ j) a = b"
proof -
  let ?j = "if a \<le> b then b - a else 65535 + b - a"
  have "(a - 1 + ?j) mod 65535 + 1 = b"
    using assms by (auto simp: mod_if not_le)
  moreover have "?j < 65536" using assms by auto
  ultimately show ?thesis using next_pos_funpow [OF assms(1,2)] by metis
qed

lemma alloc_slot_Some:
  assumes "handle_inv t" and "alloc_slot t = (Some i, t')"
  shows "\<not> bad_id i \<and> \<not> h_in_use (handles t (unat i))
    \<and> handles t' = (handles t)(unat i := zero_handle\<lparr>h_id := i, h_fd := -1, h_in_use := True\<rparr>)
    \<and> 1 \<le> unat (next_id t') \<and> unat (next_id t') < 65536"
  using alloc_loop_Some [of t] assms by (simp add: alloc_slot_def handle_inv_def)

lemma alloc_slot_None:
  assumes "handle_inv t" and "alloc_slot t = (None, t')"
  shows "handle_inv t' \<and> handles t' = handles t \<and> (\<forall>k. 1 \<le> k \<longrightarrow> k < 65536 \<longrightarrow> h_in_use (handles t k))"
proof -
  have b: "1 \<le> unat (next_id t)" "unat (next_id t) < 65536" using assms by (auto simp: handle_inv_def)
  note full = alloc_loop_None [OF b, of NVKVM_HANDLE_MAX t'] 
  have "h_in_use (handles t k)" if "1 \<le> k" "k < 65536" for k
    using next_pos_covers [OF b that] full assms(2) by (auto simp: alloc_slot_def)
  then show ?thesis using full assms by (simp add: alloc_slot_def handle_inv_def)
qed

lemma alloc_slot_hit:
  assumes "1 \<le> unat (next_id t)" "unat (next_id t) < 65536" "\<not> h_in_use (handles t (unat (next_id t)))"
  shows "alloc_slot t = (Some (next_id t), set_slot (unat (next_id t))
    (zero_handle\<lparr>h_id := next_id t, h_fd := -1, h_in_use := True\<rparr>)
    (t\<lparr>next_id := of_nat (next_pos (unat (next_id t)))\<rparr>))"
proof -
  have "alloc_slot t = alloc_slot_loop (Suc 65535) t" by (simp add: alloc_slot_def)
  then show ?thesis
    using assms(3) by (simp only: alloc_step [OF assms(1,2)] Let_def if_True simp_thms)
qed

section \<open>Invariant\<close>

lemma handle_inv_init: "handle_inv nvkvm_handle_table_init"
  by (simp add: handle_inv_def nvkvm_handle_table_init_def zero_handle_def)

lemma handle_inv_upd:
  assumes "handle_inv t" and "\<not> bad_id i" and "\<not> stale i t"
    and "h_in_use h \<Longrightarrow> h_id h = i" and "\<not> h_in_use h \<Longrightarrow> h_fd h < 0"
  shows "handle_inv (set_slot (unat i) h t)"
  using assms by (auto simp: handle_inv_def bad_id_iff)

lemma open_handles:
  assumes "handle_inv t" and "handle_open (ty, fd, s, d) t = Some (i, t')"
  shows "\<not> bad_id i" "\<not> h_in_use (handles t (unat i))"
    "handles t' = (handles t)(unat i :=
       zero_handle\<lparr>h_id := i, h_type := ty, h_fd := fd, h_session := s, h_dev := d, h_in_use := True\<rparr>)"
    "handle_inv t'"
proof -
  obtain t1 where a: "alloc_slot t = (Some i, t1)" and t': "t' = fill_slot i ty fd s d t1"
    using assms(2) by (auto simp: handle_open_def split: prod.splits option.splits)
  note al = alloc_slot_Some [OF assms(1) a]
  show b: "\<not> bad_id i" and "\<not> h_in_use (handles t (unat i))" using al by simp_all
  show h: "handles t' = (handles t)(unat i :=
       zero_handle\<lparr>h_id := i, h_type := ty, h_fd := fd, h_session := s, h_dev := d, h_in_use := True\<rparr>)"
    using al b by (simp add: t' fill_slot_def Let_def bad_id_iff zero_handle_def)
  have "next_id t' = next_id t1" by (simp add: t' fill_slot_def Let_def)
  then show "handle_inv t'"
    using assms(1) al b by (auto simp: handle_inv_def h bad_id_iff)
qed

lemma open_live:
  assumes "handle_inv t" and "handle_open v t = Some (i, t')"
  shows "handle_inv t' \<and> handle_live t i = None \<and> handle_live t' = (handle_live t)(i \<mapsto> v)"
proof -
  obtain ty fd s d where v: "v = (ty, fd, s, d)" by (cases v)
  note o = open_handles [OF assms(1) assms(2) [unfolded v]]
  have "handle_live t i = None" using o(1,2) assms(1) by (simp add: handle_live_def inv_get)
  moreover have "handle_live t' j = ((handle_live t)(i \<mapsto> v)) j" for j
  proof (cases "bad_id j")
    case True
    then show ?thesis using o(1) by (auto simp: handle_live_def nvkvm_handle_get_def)
  next
    case False
    have "unat j = unat i \<longleftrightarrow> j = i" by (simp add: word_unat_eq_iff)
    then show ?thesis
      using False o assms(1) by (auto simp: handle_live_def inv_get v)
  qed
  ultimately show ?thesis using o(4) by blast
qed

lemma close_Some:
  assumes "nvkvm_handle_close i t = (Inr u, t', cl)"
  shows "\<not> bad_id i" "\<not> stale i t" "h_refs (handles t (unat i)) = 0"
    "t' = set_slot (unat i) ((drop_fd (handles t (unat i)))\<lparr>h_in_use := False\<rparr>) t"
    "cl = close_fd_of (handles t (unat i))"
  using assms by (auto simp: nvkvm_handle_close_def upd_slot_good slot_of_good word_gt_0 split: if_splits)

lemma close_inv:
  assumes "handle_inv t" and "nvkvm_handle_close i t = (Inr u, t', cl)"
  shows "handle_inv t'"
  using close_Some [OF assms(2)] assms(1) by (auto intro!: handle_inv_upd simp: drop_fd_def)

lemma release_live:
  assumes "handle_inv t" and "handle_release i t = Some t'"
  shows "handle_inv t' \<and> handle_live t i \<noteq> None \<and> handle_live t' = (handle_live t)(i := None)"
proof -
  obtain u cl where c: "nvkvm_handle_close i t = (Inr u, t', cl)"
    using assms(2) by (auto simp: handle_release_def split: prod.splits sum.splits)
  note cs = close_Some [OF c]
  have inv: "handle_inv t'" by (rule close_inv [OF assms(1) c])
  have "handle_live t i \<noteq> None"
    using cs(1,2) by (simp add: handle_live_def nvkvm_handle_get_def)
  moreover have "handle_live t' j = ((handle_live t)(i := None)) j" for j
  proof (cases "bad_id j")
    case True
    then show ?thesis by (simp add: handle_live_def nvkvm_handle_get_def)
  next
    case False
    have "unat j = unat i \<longleftrightarrow> j = i" by (simp add: word_unat_eq_iff)
    then show ?thesis
      using False cs(4) inv assms(1) by (auto simp: handle_live_def inv_get)
  qed
  ultimately show ?thesis using inv by blast
qed

interpretation ht: slot_table handle_inv handle_live handle_open handle_release
  by standard (rule open_live release_live; assumption)+

section \<open>Session teardown\<close>

lemma close_session_fold:
  assumes "distinct ks" and "fold (close_session_step s) ks (t, cl) = (t', cl')"
  shows "next_id t' = next_id t
    \<and> handles t' = (\<lambda>k. if k \<in> set ks \<and> h_in_use (handles t k) \<and> h_session (handles t k) = s
          then (drop_fd (handles t k))\<lparr>h_in_use := False\<rparr> else handles t k)
    \<and> cl' = cl @ concat (map (\<lambda>k. if h_in_use (handles t k) \<and> h_session (handles t k) = s
          then close_fd_of (handles t k) else []) ks)"
  using assms
proof (induction ks arbitrary: t cl)
  case (Cons k ks)
  obtain t1 cl1 where st: "close_session_step s k (t, cl) = (t1, cl1)" by fastforce
  have eq: "handles t1 j = handles t j" if "j \<in> set ks" for j
    using st Cons.prems(1) that by (auto simp: close_session_step_def Let_def split: if_splits)
  have IH: "next_id t' = next_id t1
    \<and> handles t' = (\<lambda>k. if k \<in> set ks \<and> h_in_use (handles t1 k) \<and> h_session (handles t1 k) = s
          then (drop_fd (handles t1 k))\<lparr>h_in_use := False\<rparr> else handles t1 k)
    \<and> cl' = cl1 @ concat (map (\<lambda>k. if h_in_use (handles t1 k) \<and> h_session (handles t1 k) = s
          then close_fd_of (handles t1 k) else []) ks)"
    using Cons.IH [of t1 cl1] Cons.prems st by simp
  have m: "map (\<lambda>k. if h_in_use (handles t1 k) \<and> h_session (handles t1 k) = s
          then close_fd_of (handles t1 k) else []) ks
      = map (\<lambda>k. if h_in_use (handles t k) \<and> h_session (handles t k) = s
          then close_fd_of (handles t k) else []) ks"
    by (rule map_cong) (simp_all add: eq)
  show ?case
    using IH [unfolded m] st Cons.prems(1) eq
    by (auto simp: close_session_step_def Let_def fun_eq_iff split: if_splits)
qed simp

lemmas close_session_eq = close_session_fold [OF distinct_upt, of s 1 NVKVM_HANDLE_MAX t "[]" t' cl for s t t' cl,
  folded nvkvm_handle_close_session_def]

lemma close_session_inv:
  assumes "handle_inv t" and "nvkvm_handle_close_session s t = (t', cl)"
  shows "handle_inv t'"
  using close_session_eq [OF assms(2)] assms(1) by (auto simp: handle_inv_def drop_fd_def)

text \<open>Closing a session leaves no handle of that session and does not touch the
  handles of any other session.\<close>

lemma close_session_live:
  assumes "handle_inv t" and "nvkvm_handle_close_session s t = (t', cl)"
  shows "handle_live t' i =
    (case handle_live t i of Some (ty, fd, s', d) \<Rightarrow> if s' = s then None else Some (ty, fd, s', d)
     | None \<Rightarrow> None)"
proof (cases "bad_id i")
  case True
  then show ?thesis by (simp add: handle_live_def nvkvm_handle_get_def)
next
  case False
  have inv': "handle_inv t'" by (rule close_session_inv [OF assms])
  show ?thesis
    using close_session_eq [OF assms(2)] False assms(1)
    by (auto simp: handle_live_def inv_get [OF inv'] inv_get [OF assms(1)] bad_id_iff)
qed

section \<open>Descriptor ownership\<close>

definition fds_of :: "nvkvm_handle \<Rightarrow> fd set" where
  "fds_of h = (if h_in_use h \<and> h_fd h \<ge> 0 then {h_fd h} else {})"

lemma owns_fds_of: "owns_fd t i fd \<longleftrightarrow> i < 65536 \<and> fd \<in> fds_of (handles t i)"
  by (auto simp: owns_fd_def fds_of_def)

lemma fds_cong: "handles t = handles t' \<Longrightarrow> table_fds t = table_fds t' \<and> fd_inv t = fd_inv t'"
  by (simp add: table_fds_def fd_inv_def owns_fd_def)

lemma set_slot_fds:
  assumes "fd_inv t" and "i < 65536"
    and "\<And>fd. fd \<in> fds_of h \<Longrightarrow> fd \<in> fds_of (handles t i) \<or> fd \<notin> table_fds t"
  shows "table_fds (set_slot i h t) = table_fds t - fds_of (handles t i) \<union> fds_of h"
    and "fd_inv (set_slot i h t)"
proof -
  have own: "owns_fd (set_slot i h t) j fd \<longleftrightarrow> (if j = i then fd \<in> fds_of h else owns_fd t j fd)" for j fd
    using assms(2) by (simp add: owns_fds_of)
  have old: "fd \<in> fds_of (handles t i) \<longleftrightarrow> owns_fd t i fd" for fd
    using assms(2) by (simp add: owns_fds_of)
  show "table_fds (set_slot i h t) = table_fds t - fds_of (handles t i) \<union> fds_of h"
  proof (rule set_eqI)
    fix fd
    have "owns_fd t j fd \<Longrightarrow> owns_fd t i fd \<Longrightarrow> j = i" for j using assms(1) by (auto simp: fd_inv_def)
    then show "fd \<in> table_fds (set_slot i h t) \<longleftrightarrow> fd \<in> table_fds t - fds_of (handles t i) \<union> fds_of h"
      by (auto simp: table_fds_def own old)
  qed
  have "j = i" if "owns_fd t j fd" "fd \<in> fds_of h" for j fd
    using that assms(1,3) unfolding fd_inv_def table_fds_def old by blast
  then show "fd_inv (set_slot i h t)"
    using assms(1) unfolding fd_inv_def own by (metis (full_types))
qed

lemma open_fds:
  assumes inv: "handle_inv t" "fd_inv t" and op: "handle_open (ty, fd, s, d) t = Some (i, t')"
    and new: "fd < 0 \<or> fresh_fd fd t"
  shows "table_fds t' = table_fds t \<union> {x. x = fd \<and> fd \<ge> 0} \<and> fd_inv t'"
proof -
  note o = open_handles [OF inv(1) op]
  let ?h = "zero_handle\<lparr>h_id := i, h_type := ty, h_fd := fd, h_session := s, h_dev := d, h_in_use := True\<rparr>"
  have e: "fds_of (handles t (unat i)) = {}" and n: "fds_of ?h = {x. x = fd \<and> fd \<ge> 0}"
    using o(2) by (auto simp: fds_of_def zero_handle_def)
  have "unat i < 65536" using o(1) by (simp add: bad_id_iff)
  from set_slot_fds [OF inv(2) this, of ?h] new have
    "table_fds (set_slot (unat i) ?h t) = table_fds t \<union> {x. x = fd \<and> fd \<ge> 0} \<and> fd_inv (set_slot (unat i) ?h t)"
    by (auto simp: e n fresh_fd_def)
  then show ?thesis using fds_cong [of t' "set_slot (unat i) ?h t"] o(3) by simp
qed

lemma close_session_fds:
  assumes inv: "handle_inv t" "fd_inv t" and cs: "nvkvm_handle_close_session s t = (t', cl)"
  shows "table_fds t' = table_fds t - set cl" "fd_inv t'" "distinct cl" "set cl \<subseteq> table_fds t"
proof -
  note e = close_session_eq [OF cs]
  have own': "owns_fd t' k fd \<longleftrightarrow> owns_fd t k fd \<and> h_session (handles t k) \<noteq> s" for k fd
    using inv(1) e by (auto simp: owns_fd_def handle_inv_def)
  have cl: "fd \<in> set cl \<longleftrightarrow> (\<exists>k. owns_fd t k fd \<and> h_session (handles t k) = s)" for fd
  proof
    show "fd \<in> set cl \<Longrightarrow> \<exists>k. owns_fd t k fd \<and> h_session (handles t k) = s"
      using e by (auto simp: owns_fd_def close_fd_of_def split: if_splits)
    assume "\<exists>k. owns_fd t k fd \<and> h_session (handles t k) = s"
    then obtain k where k: "owns_fd t k fd" "h_session (handles t k) = s" by blast
    then have "k \<in> set [1..<NVKVM_HANDLE_MAX]" using inv(1) by (auto simp: owns_fd_def handle_inv_def)
    then show "fd \<in> set cl"
      using e k by (auto simp: owns_fd_def close_fd_of_def simp del: set_upt intro!: bexI [of _ k])
  qed
  show "table_fds t' = table_fds t - set cl"
    using inv(2) unfolding table_fds_def fd_inv_def by (auto simp only: own' cl) blast+
  show "fd_inv t'" using inv(2) by (auto simp: fd_inv_def own')
  show "set cl \<subseteq> table_fds t" by (auto simp: cl table_fds_def)
  have "distinct (concat (map (\<lambda>k. if h_in_use (handles t k) \<and> h_session (handles t k) = s
          then close_fd_of (handles t k) else []) [1..<NVKVM_HANDLE_MAX]))"
    using inv(2)
    by (intro distinct_concat_map) (auto simp: close_fd_of_def fd_inv_def owns_fd_def split: if_splits)
  then show "distinct cl" using e by simp
qed

text \<open>The steps of the table, each reduced to a change of one slot or of the slots of a session.\<close>

lemma open_nvidia_cases:
  assumes "nvkvm_handle_open_nvidia s dev (Inr fd) t = (r, t', cl)"
    and "nvidia_dev_path dev \<noteq> None \<or> dev = NVKVM_DEV_EVENTFD"
  obtains (ok) i where "handle_open (NVKVM_HANDLE_TYPE_NVIDIA, fd, s, dev) t = Some (i, t')" "r = Inr i" "cl = []"
  | (full) "alloc_slot t = (None, t')" "r = Inl EMFILE" "cl = [fd]"
  using assms
  by (auto simp: nvkvm_handle_open_nvidia_def handle_open_def split: prod.splits option.splits if_splits)

lemma open_memory_cases:
  assumes "nvkvm_handle_open_memory s sz (Inr fd) trunc t = (r, t', cl)"
  obtains (ok) i where "handle_open (NVKVM_HANDLE_TYPE_MEMORY, fd, s, 0) t = Some (i, t')" "r = Inr i" "cl = []"
  | (full) "alloc_slot t = (None, t')" "r = Inl EMFILE" "cl = [fd]"
  | (trunc) e where "t' = t" "r = Inl e" "cl = [fd]"
  using assms
  by (auto simp: nvkvm_handle_open_memory_def handle_open_def
      split: prod.splits option.splits if_splits sum.splits)

lemma pending_cases:
  assumes "nvkvm_handle_alloc_pending s dev t = (r, t')"
  obtains (ok) i where "handle_open (NVKVM_HANDLE_TYPE_NVIDIA, -1, s, dev) t = Some (i, t')" "r = Inr i"
  | (full) "alloc_slot t = (None, t')" "r = Inl EMFILE"
  using assms
  by (auto simp: nvkvm_handle_alloc_pending_def handle_open_def split: prod.splits option.splits)

definition fd_accounts :: "handle_table \<Rightarrow> fd set \<Rightarrow> fd list \<Rightarrow> handle_table \<Rightarrow> bool" where
  "fd_accounts t opened cl t' \<longleftrightarrow> handle_inv t' \<and> fd_inv t'
     \<and> table_fds t' = table_fds t \<union> opened - set cl \<and> distinct cl \<and> set cl \<subseteq> table_fds t \<union> opened"

lemma accounts_open:
  assumes inv: "handle_inv t" "fd_inv t"
    and "handle_open (ty, fd, s, d) t = Some (i, t')" "fresh_fd fd t"
  shows "fd_accounts t {fd} [] t'"
  using open_fds [OF inv assms(3)] open_handles(4) [OF inv(1) assms(3)] assms(4)
  by (auto simp: fd_accounts_def fresh_fd_def)

lemma accounts_full:
  assumes inv: "handle_inv t" "fd_inv t"
    and "alloc_slot t = (None, t')" "fresh_fd fd t"
  shows "fd_accounts t {fd} [fd] t'"
  using alloc_slot_None [OF inv(1) assms(3)] fds_cong [of t t'] inv assms(4)
  by (auto simp: fd_accounts_def fresh_fd_def)

lemma accounts_same: "handle_inv t \<Longrightarrow> fd_inv t \<Longrightarrow> fd_accounts t {} [] t"
  by (simp add: fd_accounts_def)

lemma accounts_upd:
  assumes inv: "handle_inv t" "fd_inv t"
    and i: "\<not> bad_id i" "\<not> stale i t" "t' = set_slot (unat i) h t"
    and "h_in_use h \<Longrightarrow> h_id h = i" "\<not> h_in_use h \<Longrightarrow> h_fd h < 0"
    and "fds_of h = fds_of (handles t (unat i)) \<union> opened - set cl" "opened \<inter> table_fds t = {}"
    and "distinct cl" "set cl \<subseteq> fds_of (handles t (unat i))"
  shows "fd_accounts t opened cl t'"
proof -
  have lt: "unat i < 65536" using i(1) by (simp add: bad_id_iff)
  have sub: "fds_of (handles t (unat i)) \<subseteq> table_fds t"
    using lt by (auto simp: table_fds_def owns_fds_of)
  have "fd_inv t'" "table_fds t' = table_fds t - fds_of (handles t (unat i)) \<union> fds_of h"
    using set_slot_fds [OF inv(2) lt, of h] i(3) assms(8,9) by auto
  moreover have "handle_inv t'" using handle_inv_upd [OF inv(1) i(1,2) assms(6,7)] i(3) by simp
  ultimately show ?thesis using assms(8-11) sub by (auto simp: fd_accounts_def)
qed

lemma handle_step_accounts:
  assumes "handle_step t opened cl t'" and inv: "handle_inv t" "fd_inv t"
  shows "fd_accounts t opened cl t'"
  using assms(1)
proof cases
  case (step_open dev fd s r)
  from step_open(4,2) show ?thesis
    by (cases rule: open_nvidia_cases)
      (use step_open accounts_open [OF inv] accounts_full [OF inv] in auto)
next
  case (step_open_err s dev e r)
  then show ?thesis
    using accounts_same [OF inv] by (auto simp: nvkvm_handle_open_nvidia_def split: if_splits)
next
  case (step_memory fd s sz trunc r)
  from step_memory(3) show ?thesis
    by (cases rule: open_memory_cases)
      (use step_memory accounts_open [OF inv] accounts_full [OF inv] inv in
        \<open>auto simp: fd_accounts_def fresh_fd_def\<close>)
next
  case (step_pending s dev r)
  from step_pending(3) show ?thesis
  proof (cases rule: pending_cases)
    case (ok i)
    then show ?thesis
      using open_fds [OF inv ok(1)] open_handles(4) [OF inv(1) ok(1)] step_pending
      by (auto simp: fd_accounts_def)
  next
    case full
    then show ?thesis
      using alloc_slot_None [OF inv(1) full(1)] fds_cong [of t t'] inv step_pending
      by (auto simp: fd_accounts_def)
  qed
next
  case (step_attach fd i)
  then show ?thesis
    by (intro accounts_upd [OF inv, of i t' "(handles t (unat i))\<lparr>h_fd := fd\<rparr>"])
      (auto simp: nvkvm_handle_attach_fd_def upd_slot_good slot_of_good stale_def fds_of_def
        fresh_fd_def split: if_splits)
next
  case (step_abort i)
  show ?thesis
  proof (cases "bad_id i \<or> stale i t \<or> h_fd (slot_of i t) \<ge> 0")
    case True
    then show ?thesis using accounts_same [OF inv] step_abort by (auto simp: nvkvm_handle_abort_open_def)
  next
    case False
    then show ?thesis
      using step_abort
      by (intro accounts_upd [OF inv, of i t' "(handles t (unat i))\<lparr>h_in_use := False\<rparr>"])
        (auto simp: nvkvm_handle_abort_open_def upd_slot_good slot_of_good fds_of_def)
  qed
next
  case (step_ref i r)
  show ?thesis
  proof (cases "bad_id i \<or> stale i t")
    case True
    then show ?thesis using accounts_same [OF inv] step_ref by (auto simp: nvkvm_handle_ref_isolate_def)
  next
    case False
    then show ?thesis
      using step_ref
      by (intro accounts_upd [OF inv, of i t'
            "(handles t (unat i))\<lparr>h_refs := h_refs (handles t (unat i)) + 1\<rparr>"])
        (auto simp: nvkvm_handle_ref_isolate_def upd_slot_good slot_of_good stale_def fds_of_def)
  qed
next
  case (step_unref i r)
  show ?thesis
  proof (cases "bad_id i \<or> stale i t")
    case True
    then show ?thesis using accounts_same [OF inv] step_unref by (auto simp: nvkvm_handle_unref_isolate_def)
  next
    case False
    then show ?thesis
      using step_unref
      by (intro accounts_upd [OF inv, of i t' "(let h = handles t (unat i) in
             if h_refs h > 0 then h\<lparr>h_refs := h_refs h - 1\<rparr> else h)"])
        (auto simp: nvkvm_handle_unref_isolate_def upd_slot_good slot_of_good stale_def fds_of_def Let_def
          split: if_splits)
  qed
next
  case (step_close i r)
  show ?thesis
  proof (cases r)
    case (Inl e)
    then show ?thesis using accounts_same [OF inv] step_close by (auto simp: nvkvm_handle_close_def split: if_splits)
  next
    case (Inr u)
    note c = close_Some [OF step_close(2) [unfolded Inr]]
    then show ?thesis
      using step_close(1) inv(1)
      by (intro accounts_upd [OF inv c(1,2,4)])
        (auto simp: drop_fd_def close_fd_of_def fds_of_def stale_def slot_of_good)
  qed
next
  case (step_session s)
  then show ?thesis
    using close_session_fds [OF inv, of s t' cl] close_session_inv [OF inv(1), of s t' cl]
    by (auto simp: fd_accounts_def)
qed

lemma handle_reach_accounts:
  assumes "handle_reach t F"
  shows "handle_inv t \<and> fd_inv t \<and> table_fds t = F"
  using assms
proof induction
  case reach_init
  show ?case
    using handle_inv_init
    by (auto simp: fd_inv_def table_fds_def owns_fd_def nvkvm_handle_table_init_def zero_handle_def)
next
  case (reach_step t F opened cl t')
  then show ?case using handle_step_accounts [of t opened cl t'] by (auto simp: fd_accounts_def)
qed

section \<open>Properties\<close>

text \<open>C4: descriptor accounting.  After any sequence of table operations the table
  owns exactly the descriptors it took over and has not closed, each in one slot; and
  the next operation closes only descriptors it took over, each of them once.\<close>

theorem handle_fd_accounting:
  assumes "handle_reach t F" and "handle_step t opened cl t'"
  shows "table_fds t = F \<and> fd_inv t \<and> distinct cl \<and> set cl \<subseteq> F \<union> opened
    \<and> table_fds t' = F \<union> opened - set cl"
  using handle_reach_accounts [OF assms(1)] handle_step_accounts [OF assms(2)]
  by (auto simp: fd_accounts_def)

definition demo_table :: handle_table where
  "demo_table = snd (nvkvm_handle_alloc_pending 7 0 nvkvm_handle_table_init)"

lemma demo_table_eq:
  "demo_table = \<lparr>handles = (handles nvkvm_handle_table_init)(1 := \<lparr>h_id = 1, h_type = 1, h_fd = -1,
     h_session = 7, h_dev = 0, h_refs = 0, h_poll = False, h_in_use = True\<rparr>), next_id = 2\<rparr>"
  by (simp add: demo_table_def nvkvm_handle_alloc_pending_def alloc_slot_hit next_pos_def fill_slot_def
      nvkvm_handle_table_init_def zero_handle_def set_slot_def NVKVM_HANDLE_TYPE_NVIDIA_def)

lemma demo_table_facts:
  "handle_inv demo_table" "handle_live demo_table 1 = Some (1, -1, 7, 0)"
  by (simp_all add: demo_table_eq handle_inv_def handle_live_def nvkvm_handle_get_def bad_id_def stale_def
      slot_of_def nvkvm_handle_table_init_def zero_handle_def)

theorem handle_fd_accounting_witness:
  "table_fds demo_table = {} \<and> table_fds (upd_slot 1 (\<lambda>h. h\<lparr>h_fd := 9\<rparr>) demo_table) = {9}"
proof -
  have r: "handle_reach demo_table ({} \<union> {} - set [])"
  proof (rule reach_step [OF reach_init step_pending])
    show "nvkvm_handle_alloc_pending 7 0 nvkvm_handle_table_init =
      (fst (nvkvm_handle_alloc_pending 7 0 nvkvm_handle_table_init), demo_table)"
      by (simp add: demo_table_def)
  qed
  have "handle_step demo_table {9} [] (upd_slot 1 (\<lambda>h. h\<lparr>h_fd := 9\<rparr>) demo_table)"
  proof (rule step_attach)
    show "fresh_fd 9 demo_table" using handle_reach_accounts [OF r] by (simp add: fresh_fd_def)
    show "nvkvm_handle_attach_fd 1 9 demo_table = (Inr (), upd_slot 1 (\<lambda>h. h\<lparr>h_fd := 9\<rparr>) demo_table)"
      by (simp add: nvkvm_handle_attach_fd_def bad_id_def stale_def slot_of_def demo_table_eq)
  qed
  from handle_fd_accounting [OF r this] show ?thesis by simp
qed



text \<open>Allocation fails only when every one of the 65535 identifiers is in use,
  and never changes the table when it fails.\<close>

lemma handle_alloc_complete:
  assumes "handle_inv t" and "nvkvm_handle_alloc_pending s dev t = (Inl e, t')"
  shows "e = EMFILE \<and> handles t' = handles t
    \<and> (\<forall>k. 1 \<le> k \<longrightarrow> k < NVKVM_HANDLE_MAX \<longrightarrow> h_in_use (handles t k))"
  using assms(2) alloc_slot_None [OF assms(1)]
  by (auto elim!: pending_cases)

text \<open>A handle that some isolate still holds cannot be closed: the call reports
  \<open>EBUSY\<close>, closes no descriptor and leaves the table as it was.\<close>

lemma handle_close_busy:
  assumes "nvkvm_handle_get i t = Some h" and "h_refs h > 0"
  shows "nvkvm_handle_close i t = (Inl EBUSY, t, [])"
  using assms by (auto simp: nvkvm_handle_get_def nvkvm_handle_close_def split: if_splits)

end
