(* ===== verification/ExtentAlloc.thy ===== *)
theory ExtentAlloc
  imports Prelude
begin

text \<open>
  The contract of an allocator of address extents.  The state invariant is stated
  together with the list of the extents handed out and not yet returned; clients of
  the guest-physical windows rely on the fact that these never overlap and never
  leave the window.
\<close>

definition exts_disjoint :: "extent list \<Rightarrow> bool" where
  "exts_disjoint es \<longleftrightarrow> (\<forall>i < length es. \<forall>j < length es. i \<noteq> j \<longrightarrow> ext_disj (es ! i) (es ! j))"

locale extent_allocator =
  fixes inv :: "'s \<Rightarrow> extent list \<Rightarrow> bool"
    and limit :: "'s \<Rightarrow> nat"
    and alloc :: "nat \<Rightarrow> 's \<Rightarrow> (nat \<times> nat \<times> 's) option"
    and release :: "extent \<Rightarrow> 's \<Rightarrow> 's"
  assumes inv_disjoint: "inv s L \<Longrightarrow> exts_disjoint L"
    and inv_bounded: "inv s L \<Longrightarrow> e \<in> set L \<Longrightarrow> 0 < snd e \<and> fst e + snd e \<le> limit s"
    and alloc_inv: "inv s L \<Longrightarrow> 0 < n \<Longrightarrow> n \<le> limit s \<Longrightarrow> alloc n s = Some (off, len, s') \<Longrightarrow>
      inv s' ((off, len) # L) \<and> n \<le> len \<and> limit s' = limit s"
    and release_inv: "inv s L \<Longrightarrow> e \<in> set L \<Longrightarrow> inv (release e s) (remove1 e L) \<and> limit (release e s) = limit s"

datatype ext_op = ExtAlloc nat extent | ExtFree extent

inductive ext_run ::
  "(nat \<Rightarrow> 's \<Rightarrow> (nat \<times> nat \<times> 's) option) \<Rightarrow> (extent \<Rightarrow> 's \<Rightarrow> 's) \<Rightarrow> nat
     \<Rightarrow> 's \<Rightarrow> extent list \<Rightarrow> ext_op list \<Rightarrow> 's \<Rightarrow> extent list \<Rightarrow> bool"
  for alloc release limit where
  ext_nil: "ext_run alloc release limit s L [] s L"
| ext_alloc: "0 < n \<Longrightarrow> n \<le> limit \<Longrightarrow> alloc n s = Some (off, len, s')
    \<Longrightarrow> ext_run alloc release limit s' ((off, len) # L) ops s'' L''
    \<Longrightarrow> ext_run alloc release limit s L (ExtAlloc n (off, len) # ops) s'' L''"
| ext_free: "e \<in> set L
    \<Longrightarrow> ext_run alloc release limit (release e s) (remove1 e L) ops s'' L''
    \<Longrightarrow> ext_run alloc release limit s L (ExtFree e # ops) s'' L''"

context extent_allocator
begin

lemma run_inv:
  assumes "ext_run alloc release l s L ops s' L'" and "inv s L" and "limit s = l"
  shows "inv s' L' \<and> limit s' = l"
  using assms
proof (induction rule: ext_run.induct)
  case (ext_alloc n s off len s' L ops s'' L'')
  then show ?case using alloc_inv [of s L n off len s'] by simp
next
  case (ext_free e L s ops s'' L'')
  then show ?case using release_inv [of s L e] by simp
qed simp

lemma run_safe:
  assumes "ext_run alloc release l s L ops s' L'" and "inv s L" and "limit s = l"
  shows "exts_disjoint L' \<and> (\<forall>e \<in> set L'. 0 < snd e \<and> fst e + snd e \<le> l)"
  using run_inv [OF assms] inv_disjoint inv_bounded by metis

end

end
