(* ===== verification/KvmSlots.thy ===== *)
theory KvmSlots
  imports SlotTable
begin

text \<open>
  The pool of KVM memory slots of \<open>qemu/nvkvm_mmap_host.c\<close>: a watermark of slots
  never used and a stack of recycled ones, with the counters printed as diagnostics,
  and the two calls that install and remove a guest memory region.
\<close>

section \<open>Definitions\<close>

definition NVKVM_KVM_SLOT_BASE :: int where "NVKVM_KVM_SLOT_BASE = 64"
definition NVKVM_KVM_SLOT_COUNT :: int where "NVKVM_KVM_SLOT_COUNT = 448"

text \<open>The head of \<open>slot_free_stack\<close> is the top of the stack.\<close>

record kvm_pool =
  slot_water :: int
  slot_free_stack :: "int list"
  slot_in_use :: int
  slot_in_use_peak :: int
  slot_alloc_count :: u64
  slot_free_count :: u64

definition kvm_pool_init :: kvm_pool where
  "kvm_pool_init = \<lparr>slot_water = NVKVM_KVM_SLOT_BASE, slot_free_stack = [], slot_in_use = 0,
     slot_in_use_peak = 0, slot_alloc_count = 0, slot_free_count = 0\<rparr>"

definition count_alloc :: "kvm_pool \<Rightarrow> kvm_pool" where
  "count_alloc p =
    (let p = p\<lparr>slot_alloc_count := slot_alloc_count p + 1, slot_in_use := slot_in_use p + 1\<rparr> in
     if slot_in_use p > slot_in_use_peak p then p\<lparr>slot_in_use_peak := slot_in_use p\<rparr> else p)"

definition nvkvm_kvm_slot_alloc :: "kvm_pool \<Rightarrow> int \<times> kvm_pool" where
  "nvkvm_kvm_slot_alloc p =
    (case slot_free_stack p of
       slot # rest \<Rightarrow> (slot, if slot \<ge> 0 then count_alloc (p\<lparr>slot_free_stack := rest\<rparr>)
                              else p\<lparr>slot_free_stack := rest\<rparr>)
     | [] \<Rightarrow>
        if slot_water p < NVKVM_KVM_SLOT_BASE + NVKVM_KVM_SLOT_COUNT
        then (slot_water p, count_alloc (p\<lparr>slot_water := slot_water p + 1\<rparr>))
        else (-1, p))"

definition nvkvm_kvm_slot_release :: "int \<Rightarrow> kvm_pool \<Rightarrow> kvm_pool" where
  "nvkvm_kvm_slot_release slot p =
    (if slot < NVKVM_KVM_SLOT_BASE \<or> slot \<ge> NVKVM_KVM_SLOT_BASE + NVKVM_KVM_SLOT_COUNT then p
     else
       let p = (if int (length (slot_free_stack p)) < NVKVM_KVM_SLOT_COUNT
                then p\<lparr>slot_free_stack := slot # slot_free_stack p\<rparr> else p);
           p = p\<lparr>slot_free_count := slot_free_count p + 1\<rparr> in
       if slot_in_use p > 0 then p\<lparr>slot_in_use := slot_in_use p - 1\<rparr> else p)"

definition nvkvm_kvm_slot_stats :: "kvm_pool \<Rightarrow> int \<times> int \<times> u64 \<times> u64" where
  "nvkvm_kvm_slot_stats p =
     (slot_in_use p, slot_in_use_peak p, slot_alloc_count p, slot_free_count p)"

text \<open>
  \<open>vm_fd\<close> is the descriptor of the virtual machine, \<open>os_set\<close> what
  \<open>KVM_SET_USER_MEMORY_REGION\<close> returns for a slot, an address and a length.
\<close>

definition kvm_add_memory_region ::
  "fd \<Rightarrow> (int \<Rightarrow> u64 \<Rightarrow> u64 \<Rightarrow> unit result) \<Rightarrow> u64 \<Rightarrow> u64 \<Rightarrow> kvm_pool \<Rightarrow> int result \<times> kvm_pool" where
  "kvm_add_memory_region vm_fd os_set gpa len p =
    (case nvkvm_kvm_slot_alloc p of (slot, p) \<Rightarrow>
       if slot < 0 then (Inl ENOSPC, p)
       else if vm_fd < 0 then (Inr (-1), nvkvm_kvm_slot_release slot p)
       else case os_set slot gpa len of
         Inl e \<Rightarrow> (Inl e, nvkvm_kvm_slot_release slot p)
       | Inr _ \<Rightarrow> (Inr slot, p))"

definition kvm_remove_memory_region :: "int \<Rightarrow> kvm_pool \<Rightarrow> kvm_pool" where
  "kvm_remove_memory_region slot p = nvkvm_kvm_slot_release slot p"

text \<open>The slots in use, and the invariant of the pool.\<close>

definition kvm_held :: "kvm_pool \<Rightarrow> int \<Rightarrow> bool" where
  "kvm_held p k \<longleftrightarrow> NVKVM_KVM_SLOT_BASE \<le> k \<and> k < slot_water p \<and> k \<notin> set (slot_free_stack p)"

definition kvm_live :: "kvm_pool \<Rightarrow> int \<Rightarrow> unit option" where
  "kvm_live p k = (if kvm_held p k then Some () else None)"

definition kvm_inv :: "kvm_pool \<Rightarrow> bool" where
  "kvm_inv p \<longleftrightarrow> 64 \<le> slot_water p \<and> slot_water p \<le> 512 \<and> distinct (slot_free_stack p)
     \<and> set (slot_free_stack p) \<subseteq> {64 ..< slot_water p}
     \<and> slot_in_use p = slot_water p - 64 - int (length (slot_free_stack p))
     \<and> slot_in_use p \<le> slot_in_use_peak p \<and> slot_in_use_peak p \<le> 448"

definition kvm_take :: "unit \<Rightarrow> kvm_pool \<Rightarrow> (int \<times> kvm_pool) option" where
  "kvm_take u p = (case nvkvm_kvm_slot_alloc p of (slot, p') \<Rightarrow> if slot < 0 then None else Some (slot, p'))"

text \<open>Clients return a slot only while they hold it.\<close>

definition kvm_give :: "int \<Rightarrow> kvm_pool \<Rightarrow> kvm_pool option" where
  "kvm_give k p = (if kvm_held p k then Some (nvkvm_kvm_slot_release k p) else None)"

section \<open>Invariant\<close>

lemmas kvm_consts = NVKVM_KVM_SLOT_BASE_def NVKVM_KVM_SLOT_COUNT_def

lemma kvm_inv_init: "kvm_inv kvm_pool_init"
  by (simp add: kvm_inv_def kvm_pool_init_def kvm_consts)

lemma count_alloc_sel [simp]:
  "slot_water (count_alloc p) = slot_water p" "slot_free_stack (count_alloc p) = slot_free_stack p"
  "slot_in_use (count_alloc p) = slot_in_use p + 1"
  "slot_in_use_peak (count_alloc p) = max (slot_in_use_peak p) (slot_in_use p + 1)"
  by (auto simp: count_alloc_def Let_def)

lemma kvm_free_length:
  assumes "kvm_inv p"
  shows "int (length (slot_free_stack p)) \<le> slot_water p - 64"
proof -
  have "card (set (slot_free_stack p)) \<le> card {64 ..< slot_water p}"
    using assms by (intro card_mono) (auto simp: kvm_inv_def)
  then show ?thesis using assms by (auto simp: kvm_inv_def distinct_card)
qed

lemma kvm_take_live:
  assumes "kvm_inv p" and "kvm_take u p = Some (k, p')"
  shows "kvm_inv p' \<and> kvm_live p k = None \<and> kvm_live p' = (kvm_live p)(k \<mapsto> u)"
proof (cases "slot_free_stack p")
  case Nil
  then show ?thesis
    using assms kvm_free_length [OF assms(1)]
    by (auto simp: kvm_take_def nvkvm_kvm_slot_alloc_def kvm_inv_def kvm_live_def kvm_held_def kvm_consts fun_eq_iff
        split: if_splits)
next
  case (Cons s rest)
  then have "64 \<le> s" "s < slot_water p" "s \<notin> set rest" using assms(1) by (auto simp: kvm_inv_def)
  then show ?thesis
    using assms Cons kvm_free_length [OF assms(1)]
    by (auto simp: kvm_take_def nvkvm_kvm_slot_alloc_def kvm_inv_def kvm_live_def kvm_held_def kvm_consts fun_eq_iff
        split: if_splits)
qed

lemma kvm_held_room:
  assumes "kvm_inv p" and "kvm_held p k"
  shows "int (length (slot_free_stack p)) + 1 \<le> slot_water p - 64"
proof -
  have "card (insert k (set (slot_free_stack p))) \<le> card {64 ..< slot_water p}"
    using assms by (intro card_mono) (auto simp: kvm_inv_def kvm_held_def kvm_consts)
  then show ?thesis using assms by (auto simp: kvm_inv_def distinct_card kvm_held_def)
qed

lemma kvm_release_eq:
  assumes "kvm_inv p" and "kvm_held p k"
  shows "nvkvm_kvm_slot_release k p = p\<lparr>slot_free_stack := k # slot_free_stack p,
     slot_free_count := slot_free_count p + 1, slot_in_use := slot_in_use p - 1\<rparr>"
  using kvm_held_room [OF assms] assms
  by (auto simp: nvkvm_kvm_slot_release_def kvm_inv_def kvm_held_def kvm_consts Let_def)

lemma kvm_release_live:
  assumes "kvm_inv p" and "kvm_held p k"
  shows "kvm_inv (nvkvm_kvm_slot_release k p)"
    and "kvm_live (nvkvm_kvm_slot_release k p) = (kvm_live p)(k := None)"
  using assms kvm_held_room [OF assms] unfolding kvm_release_eq [OF assms]
  by (auto simp: kvm_inv_def kvm_live_def kvm_held_def kvm_consts fun_eq_iff)

lemma kvm_give_live:
  assumes "kvm_inv p" and "kvm_give k p = Some p'"
  shows "kvm_inv p' \<and> kvm_live p k \<noteq> None \<and> kvm_live p' = (kvm_live p)(k := None)"
  using assms kvm_release_live [of p k] by (auto simp: kvm_give_def kvm_live_def split: if_splits)

lemma kvm_slot_alloc_exhausted:
  assumes "kvm_inv p" and "nvkvm_kvm_slot_alloc p = (k, p')" and "k < 0"
  shows "p' = p \<and> slot_in_use p = NVKVM_KVM_SLOT_COUNT"
  using assms
  by (auto simp: nvkvm_kvm_slot_alloc_def kvm_inv_def kvm_consts split: list.splits if_splits)

interpretation kp: slot_table kvm_inv kvm_live kvm_take kvm_give
  by standard (rule kvm_take_live kvm_give_live; assumption)+

section \<open>Properties\<close>

text \<open>The pool never hands out a slot that is in use, never one outside the range
  reserved for dynamic mappings, and reports exhaustion exactly when all 448 slots are
  in use.\<close>

lemma kvm_slot_alloc_correct:
  assumes "kvm_inv p"
  shows "case nvkvm_kvm_slot_alloc p of (k, p') \<Rightarrow>
    kvm_inv p' \<and>
    (if k < 0 then p' = p \<and> slot_in_use p = NVKVM_KVM_SLOT_COUNT
     else NVKVM_KVM_SLOT_BASE \<le> k \<and> k < NVKVM_KVM_SLOT_BASE + NVKVM_KVM_SLOT_COUNT
        \<and> kvm_live p k = None \<and> kvm_live p' = (kvm_live p)(k \<mapsto> ()))"
proof (cases "nvkvm_kvm_slot_alloc p")
  case (Pair k p')
  show ?thesis
  proof (cases "k < 0")
    case True
    then show ?thesis using kvm_slot_alloc_exhausted [OF assms Pair True] Pair assms by auto
  next
    case False
    then have "kvm_take () p = Some (k, p')" using Pair by (simp add: kvm_take_def)
    from kvm_take_live [OF assms this] False Pair show ?thesis
      using assms by (auto simp: nvkvm_kvm_slot_alloc_def kvm_inv_def kvm_consts split: list.splits if_splits)
  qed
qed

text \<open>Installing a guest memory region never loses a slot.  If the call fails, or
  there is no virtual machine descriptor, the slots in use are the same as before; if
  it succeeds, exactly the slot it reports has become in use.\<close>

lemma kvm_add_region_balanced:
  assumes "kvm_inv p" and "kvm_add_memory_region vm_fd os_set gpa len p = (r, p')"
  shows "kvm_inv p' \<and>
    (case r of Inr k \<Rightarrow> if k = -1 then vm_fd < 0 \<and> kvm_live p' = kvm_live p
                         else kvm_live p k = None \<and> kvm_live p' = (kvm_live p)(k \<mapsto> ())
     | Inl e \<Rightarrow> kvm_live p' = kvm_live p)"
proof (cases "nvkvm_kvm_slot_alloc p")
  case (Pair k p1)
  note add = assms(2) [unfolded kvm_add_memory_region_def Pair prod.case]
  show ?thesis
  proof (cases "k < 0")
    case True
    then have "p1 = p" using kvm_slot_alloc_exhausted [OF assms(1)] Pair by auto
    then show ?thesis using True add assms(1) by auto
  next
    case False
    then have "kvm_take () p = Some (k, p1)" using Pair by (simp add: kvm_take_def)
    note t = kvm_take_live [OF assms(1) this]
    then have "kvm_held p1 k" by (metis kvm_live_def fun_upd_same option.distinct(1))
    with kvm_release_live [of p1 k] t have
      g: "kvm_inv (nvkvm_kvm_slot_release k p1)" "kvm_live (nvkvm_kvm_slot_release k p1) = kvm_live p"
      by (auto simp: fun_upd_idem)
    show ?thesis using add False g t by (auto split: if_splits sum.splits)
  qed
qed

end
