(* ===== verification/GpaWindow.thy ===== *)
theory GpaWindow
  imports ExtentAlloc KvmSlots
begin

text \<open>
  The guest-physical windows of \<open>qemu/nvkvm_mmap_host.c\<close>: the bump allocator of the
  legacy window and the sparse window with its free list, which backs every mapping
  made on behalf of an isolate.

  Byte offsets are natural numbers below \<open>2 ^ 64\<close>; where the C code adds two 64-bit
  values the model reduces modulo \<open>2 ^ 64\<close>.  The address 0 stands for failure, as in
  the code.
\<close>

section \<open>Definitions\<close>

definition wrap64 :: "nat \<Rightarrow> nat" where "wrap64 n = n mod 2 ^ 64"

definition page_round :: "nat \<Rightarrow> nat" where
  "page_round n = wrap64 (n + 4095) div 4096 * 4096"

definition NVKVM_SPARSE_GPA_BASE :: nat where "NVKVM_SPARSE_GPA_BASE = 0x20000000000"
definition NVKVM_SPARSE_GPA_SIZE :: nat where "NVKVM_SPARSE_GPA_SIZE = 128 * 2 ^ 30"
definition NVKVM_GPA_FREE_MAX :: nat where "NVKVM_GPA_FREE_MAX = 16384"

record mmap_win =
  mmap_win_gpa :: nat
  mmap_win_size :: nat
  mmap_win_cur :: nat

definition alloc_gpa :: "nat \<Rightarrow> mmap_win \<Rightarrow> nat \<times> mmap_win" where
  "alloc_gpa len w =
    (let align = (if len \<ge> 2097152 then 2097152 else 4096);
         w = w\<lparr>mmap_win_cur := wrap64 (mmap_win_cur w + align - 1) div align * align\<rparr> in
     if wrap64 (mmap_win_cur w + len) > mmap_win_size w then (0, w)
     else (wrap64 (mmap_win_gpa w + mmap_win_cur w),
           w\<lparr>mmap_win_cur := wrap64 (mmap_win_cur w + len)\<rparr>))"

record sparse_win =
  sparse_vmm_va :: "nat option"
  sparse_gpa_base :: nat
  sparse_size :: nat
  sparse_cur :: nat
  sparse_kvm_slot :: int
  sparse_free :: "extent list option"

text \<open>\<open>os_mmap\<close> is the address at which the operating system reserves the window.\<close>

definition nvkvm_sparse_init :: "nat result \<Rightarrow> sparse_win \<Rightarrow> unit result \<times> sparse_win" where
  "nvkvm_sparse_init os_mmap w =
    (if sparse_vmm_va w \<noteq> None then (Inr (), w)
     else case os_mmap of
       Inl e \<Rightarrow> (Inl e, w)
     | Inr va \<Rightarrow> (Inr (), w\<lparr>sparse_gpa_base := 0, sparse_size := NVKVM_SPARSE_GPA_SIZE,
         sparse_vmm_va := Some va, sparse_cur := 0, sparse_kvm_slot := -1, sparse_free := Some []\<rparr>))"

text \<open>
  What the window is installed with: the base the firmware gave to the reservation
  BAR, if there is one, and the KVM call of the host.
\<close>

record win_env =
  window_base_get :: "nat option"
  kvm_vm_fd :: fd
  kvm_set_region :: "int \<Rightarrow> u64 \<Rightarrow> u64 \<Rightarrow> unit result"

definition nvkvm_sparse_ensure ::
  "win_env \<Rightarrow> sparse_win \<times> kvm_pool \<Rightarrow> nat \<times> sparse_win \<times> kvm_pool" where
  "nvkvm_sparse_ensure env = (\<lambda>(w, p).
    if sparse_vmm_va w = None then (0, w, p)
    else if sparse_kvm_slot w \<ge> 0 then (sparse_gpa_base w, w, p)
    else
      let base = (case window_base_get env of Some b \<Rightarrow> b | None \<Rightarrow> NVKVM_SPARSE_GPA_BASE) in
      if window_base_get env \<noteq> None \<and> base = 0 then (0, w, p)
      else case kvm_add_memory_region (kvm_vm_fd env) (kvm_set_region env) (of_nat base)
                  (of_nat (sparse_size w)) p of
        (Inl e, p) \<Rightarrow> (0, w, p)
      | (Inr slot, p) \<Rightarrow> (base, w\<lparr>sparse_gpa_base := base, sparse_kvm_slot := slot\<rparr>, p))"

definition nvkvm_sparse_fini :: "sparse_win \<times> kvm_pool \<Rightarrow> sparse_win \<times> kvm_pool" where
  "nvkvm_sparse_fini = (\<lambda>(w, p).
    if sparse_vmm_va w = None then (w, p)
    else (w\<lparr>sparse_vmm_va := None, sparse_free := None\<rparr>,
          if sparse_kvm_slot w \<ge> 0 then kvm_remove_memory_region (sparse_kvm_slot w) p else p))"

definition best_fit_step :: "nat \<Rightarrow> extent list \<Rightarrow> nat \<Rightarrow> nat \<Rightarrow> nat" where
  "best_fit_step sz fl i best =
    (if snd (fl ! i) \<ge> sz \<and> (best = length fl \<or> snd (fl ! i) < snd (fl ! best)) then i else best)"

definition best_fit :: "nat \<Rightarrow> extent list \<Rightarrow> nat" where
  "best_fit sz fl = fold (best_fit_step sz fl) [0..<length fl] (length fl)"

definition take_extent :: "nat \<Rightarrow> nat \<Rightarrow> extent list \<Rightarrow> nat \<times> extent list" where
  "take_extent sz best fl =
    (let (off, len) = fl ! best in
     (off, if len = sz then swap_remove best fl else fl[best := (off + sz, len - sz)]))"

definition sparse_alloc_locked :: "nat \<Rightarrow> sparse_win \<Rightarrow> nat \<times> sparse_win" where
  "sparse_alloc_locked sz w =
    (let bump =
       (let off = page_round (sparse_cur w) in
        if wrap64 (off + sz) > sparse_size w then (0, w)
        else (wrap64 (sparse_gpa_base w + off), w\<lparr>sparse_cur := wrap64 (off + sz)\<rparr>)) in
     case sparse_free w of
       None \<Rightarrow> bump
     | Some fl \<Rightarrow>
        let best = best_fit sz fl in
        if best < length fl then
          let (off, fl) = take_extent sz best fl in
          (wrap64 (sparse_gpa_base w + off), w\<lparr>sparse_free := Some fl\<rparr>)
        else bump)"

definition nvkvm_sparse_gpa_alloc ::
  "win_env \<Rightarrow> nat \<Rightarrow> sparse_win \<times> kvm_pool \<Rightarrow> nat \<times> sparse_win \<times> kvm_pool" where
  "nvkvm_sparse_gpa_alloc env sz = (\<lambda>(w, p).
    if sparse_vmm_va w = None then (0, w, p)
    else case nvkvm_sparse_ensure env (w, p) of (base, w, p) \<Rightarrow>
      if base = 0 then (0, w, p)
      else case sparse_alloc_locked (page_round sz) w of (gpa, w) \<Rightarrow> (gpa, w, p))"

function absorb_tail :: "nat \<Rightarrow> extent list \<Rightarrow> nat \<times> extent list" where
  "absorb_tail cur fl =
    (case first_index (\<lambda>e. wrap64 (fst e + snd e) = cur) fl of
       None \<Rightarrow> (cur, fl)
     | Some i \<Rightarrow> absorb_tail (fst (fl ! i)) (swap_remove i fl))"
  by pat_completeness auto
termination
  by (relation "measure (\<lambda>(cur, fl). length fl)") (auto dest: first_index_Some)

declare absorb_tail.simps [simp del]

definition coalesce_free :: "nat \<Rightarrow> nat \<Rightarrow> extent list \<Rightarrow> extent list option" where
  "coalesce_free off sz fl =
    (case first_index (\<lambda>e. wrap64 (fst e + snd e) = off \<or> wrap64 (off + sz) = fst e) fl of
       None \<Rightarrow> None
     | Some i \<Rightarrow>
        if wrap64 (fst (fl ! i) + snd (fl ! i)) = off
        then Some (fl[i := (fst (fl ! i), wrap64 (snd (fl ! i) + sz))])
        else Some (fl[i := (off, wrap64 (snd (fl ! i) + sz))]))"

definition sparse_free_locked :: "nat \<Rightarrow> nat \<Rightarrow> extent list \<Rightarrow> sparse_win \<Rightarrow> sparse_win" where
  "sparse_free_locked off sz fl w =
    (if wrap64 (off + sz) = sparse_cur w then
       (let (cur, fl) = absorb_tail off fl in w\<lparr>sparse_cur := cur, sparse_free := Some fl\<rparr>)
     else case coalesce_free off sz fl of
       Some fl \<Rightarrow> w\<lparr>sparse_free := Some fl\<rparr>
     | None \<Rightarrow>
        if length fl < NVKVM_GPA_FREE_MAX then w\<lparr>sparse_free := Some (fl @ [(off, sz)])\<rparr> else w)"

definition nvkvm_sparse_gpa_free :: "nat \<Rightarrow> nat \<Rightarrow> sparse_win \<Rightarrow> sparse_win" where
  "nvkvm_sparse_gpa_free gpa sz w =
    (case sparse_free w of
       None \<Rightarrow> w
     | Some fl \<Rightarrow>
        if sparse_vmm_va w = None then w
        else if gpa < sparse_gpa_base w then w
        else
          let off = gpa - sparse_gpa_base w; sz = page_round sz in
          if sz = 0 \<or> wrap64 (off + sz) > sparse_size w then w
          else sparse_free_locked off sz fl w)"

definition nvkvm_gpa_to_vmm_va :: "nat \<Rightarrow> nat \<Rightarrow> sparse_win \<Rightarrow> nat option" where
  "nvkvm_gpa_to_vmm_va gpa sz w =
    (case sparse_vmm_va w of
       None \<Rightarrow> None
     | Some va \<Rightarrow>
        if gpa < sparse_gpa_base w then None
        else
          let off = gpa - sparse_gpa_base w in
          if off \<ge> sparse_size w \<or> wrap64 (off + sz) > sparse_size w then None
          else Some (wrap64 (va + off)))"

text \<open>
  The legacy mapping calls.  \<open>os_mmap\<close> is the host address of the mapping; an unmapped
  host range is returned as the list of \<open>munmap\<close> calls.
\<close>

record mmap_region =
  host_va :: nat
  region_length :: nat
  guest_pa :: nat
  region_slot :: int

definition nvkvm_mmap_create :: "nat \<Rightarrow> nat result \<Rightarrow> mmap_region result" where
  "nvkvm_mmap_create len os_mmap =
    (case os_mmap of
       Inl e \<Rightarrow> Inl e
     | Inr hva \<Rightarrow> Inr \<lparr>host_va = hva, region_length = page_round len, guest_pa = 0, region_slot = 0\<rparr>)"

definition nvkvm_mmap_map_to_guest ::
  "win_env \<Rightarrow> mmap_region \<Rightarrow> mmap_win \<times> kvm_pool
     \<Rightarrow> unit result \<times> mmap_region \<times> (mmap_win \<times> kvm_pool) \<times> (nat \<times> nat) list" where
  "nvkvm_mmap_map_to_guest env region = (\<lambda>(w, p).
    case alloc_gpa (region_length region) w of (gpa, w) \<Rightarrow>
      if gpa = 0 then (Inl ENOMEM, region, (w, p), [(host_va region, region_length region)])
      else case kvm_add_memory_region (kvm_vm_fd env) (kvm_set_region env) (of_nat gpa)
                  (of_nat (region_length region)) p of
        (Inl e, p) \<Rightarrow> (Inl e, region, (w, p), [(host_va region, region_length region)])
      | (Inr slot, p) \<Rightarrow> (Inr (), region\<lparr>guest_pa := gpa, region_slot := slot\<rparr>, (w, p), []))"

definition nvkvm_mmap_unmap_from_guest :: "mmap_region \<Rightarrow> kvm_pool \<Rightarrow> mmap_region \<times> kvm_pool" where
  "nvkvm_mmap_unmap_from_guest region p =
    (if region_slot region \<ge> 0
     then (region\<lparr>region_slot := -1\<rparr>, kvm_remove_memory_region (region_slot region) p)
     else (region, p))"

text \<open>
  The invariant of an installed window and the extents \<open>L\<close> in use: free, live and
  leaked (\<open>K\<close>) extents tile the part of the window below the watermark, and no free
  extent touches the watermark.
\<close>

definition cover :: "extent list \<Rightarrow> nat \<Rightarrow> nat" where
  "cover es x = length (filter (\<lambda>e. x \<in> ext_set e) es)"

definition ext_ok :: "extent \<Rightarrow> bool" where
  "ext_ok e \<longleftrightarrow> 0 < snd e \<and> 4096 dvd fst e \<and> 4096 dvd snd e"

definition tiles :: "extent list \<Rightarrow> nat \<Rightarrow> bool" where
  "tiles es c \<longleftrightarrow> (\<forall>x. cover es x = of_bool (x < c)) \<and> (\<forall>e \<in> set es. ext_ok e)"

definition win_ready :: "sparse_win \<Rightarrow> bool" where
  "win_ready w \<longleftrightarrow> sparse_vmm_va w \<noteq> None \<and> 0 < sparse_gpa_base w \<and> 4096 dvd sparse_size w
     \<and> sparse_gpa_base w + sparse_size w < 2 ^ 63 \<and> sparse_cur w \<le> sparse_size w \<and> 4096 dvd sparse_cur w
     \<and> sparse_kvm_slot w \<ge> 0"

definition win_lists :: "sparse_win \<Rightarrow> extent list \<Rightarrow> extent list \<Rightarrow> extent list \<Rightarrow> bool" where
  "win_lists w fl L K \<longleftrightarrow> sparse_free w = Some fl \<and> tiles (fl @ L @ K) (sparse_cur w)
     \<and> (\<forall>e \<in> set fl. fst e + snd e \<noteq> sparse_cur w)"

definition win_inv :: "sparse_win \<Rightarrow> extent list \<Rightarrow> bool" where
  "win_inv w L \<longleftrightarrow> win_ready w \<and> (\<exists>fl K. win_lists w fl L K)"

definition win_alloc :: "nat \<Rightarrow> sparse_win \<Rightarrow> (nat \<times> nat \<times> sparse_win) option" where
  "win_alloc n w = (case sparse_alloc_locked (page_round n) w of (gpa, w') \<Rightarrow>
     if gpa = 0 then None else Some (gpa - sparse_gpa_base w, page_round n, w'))"

definition win_release :: "extent \<Rightarrow> sparse_win \<Rightarrow> sparse_win" where
  "win_release e w = nvkvm_sparse_gpa_free (sparse_gpa_base w + fst e) (snd e) w"

section \<open>Covering\<close>

lemma wrap64_id: "n < 2 ^ 64 \<Longrightarrow> wrap64 n = n"
  by (simp add: wrap64_def)

lemma page_round:
  assumes "n < 2 ^ 63"
  shows "n \<le> page_round n" "page_round n < n + 4096" "4096 dvd page_round n"
    "4096 dvd n \<Longrightarrow> page_round n = n"
proof -
  have "wrap64 (n + 4095) = n + 4095" using assms by (intro wrap64_id) simp
  then have "page_round n = (n + 4095) div 4096 * 4096" by (simp add: page_round_def)
  then show "n \<le> page_round n" "page_round n < n + 4096" "4096 dvd page_round n"
    "4096 dvd n \<Longrightarrow> page_round n = n" by (auto elim!: dvdE)
qed

lemma page_round_le:
  assumes "n \<le> m" "4096 dvd m" "m < 2 ^ 63"
  shows "page_round n \<le> m"
proof -
  have "page_round n < n + 4096" "4096 dvd page_round n"
    using page_round [of n] assms by auto
  with assms show ?thesis by (auto elim!: dvdE)
qed

lemma cover_simps [simp]:
  "cover [] x = 0" "cover (e # es) x = of_bool (x \<in> ext_set e) + cover es x"
  "cover (es @ fs) x = cover es x + cover fs x"
  by (simp_all add: cover_def)

lemma cover_mset: "mset es = mset fs \<Longrightarrow> cover es x = cover fs x"
  unfolding cover_def by (metis mset_filter size_mset)

lemma cover_remove1: "e \<in> set es \<Longrightarrow> cover es x = of_bool (x \<in> ext_set e) + cover (remove1 e es) x"
  using cover_mset [of es "e # remove1 e es" x] by simp

lemma cover_swap_remove:
  assumes "i < length es"
  shows "cover es x = of_bool (x \<in> ext_set (es ! i)) + cover (swap_remove i es) x"
proof -
  have "mset es = mset ((es ! i) # swap_remove i es)"
    using assms by (simp add: mset_swap_remove)
  from cover_mset [OF this, of x] show ?thesis by simp
qed

lemma cover_update:
  assumes "i < length es"
  shows "cover (es[i := e]) x + of_bool (x \<in> ext_set (es ! i)) = cover es x + of_bool (x \<in> ext_set e)"
proof -
  have "mset (es[i := e]) + {#es ! i#} = mset es + {#e#}"
    using assms by (simp add: mset_update)
  then have "mset (es ! i # es[i := e]) = mset (e # es)" by simp
  from cover_mset [OF this, of x] show ?thesis by simp
qed

lemma set_swap_remove:
  assumes "i < length es"
  shows "set (swap_remove i es) \<subseteq> set es"
proof -
  have "set_mset (mset (swap_remove i es)) \<subseteq> set_mset (mset es)"
    unfolding mset_swap_remove [OF assms] by (auto dest: in_diffD)
  then show ?thesis by simp
qed

lemma tilesD:
  assumes "tiles es c" and "e \<in> set es"
  shows "0 < snd e" "fst e + snd e \<le> c" "4096 dvd fst e" "4096 dvd snd e"
proof -
  show ok: "0 < snd e" "4096 dvd fst e" "4096 dvd snd e" using assms by (auto simp: tiles_def ext_ok_def)
  let ?x = "fst e + snd e - 1"
  have "?x \<in> ext_set e" using ok(1) by (auto simp: ext_set_def)
  then have "cover es ?x > 0" using cover_remove1 [OF assms(2), of ?x] by simp
  then have "?x < c" using assms(1) by (auto simp: tiles_def)
  then show "fst e + snd e \<le> c" using ok(1) by linarith
qed

lemma tiles_disjoint:
  assumes "tiles (fl @ L @ K) c"
  shows "exts_disjoint L"
  unfolding exts_disjoint_def
proof (intro allI impI)
  fix i j assume ij: "i < length L" "j < length L" "i \<noteq> j"
  have pos: "0 < snd (L ! i)" "0 < snd (L ! j)"
    using tilesD(1) [OF assms, of "L ! i"] tilesD(1) [OF assms, of "L ! j"] ij by simp_all
  show "ext_disj (L ! i) (L ! j)"
  proof (rule ccontr)
    assume "\<not> ext_disj (L ! i) (L ! j)"
    then obtain x where x: "x \<in> ext_set (L ! i)" "x \<in> ext_set (L ! j)"
      using pos by (auto simp: ext_disj_iff)
    have "{i, j} \<subseteq> {k. k < length L \<and> x \<in> ext_set (L ! k)}" using ij x by auto
    then have "card {i, j} \<le> cover L x"
      unfolding cover_def length_filter_conv_card by (intro card_mono) auto
    then have "2 \<le> cover (fl @ L @ K) x" using ij(3) by simp
    then show False using assms by (auto simp: tiles_def of_bool_def split: if_splits)
  qed
qed

lemma tiles_cover:
  assumes "tiles (fl @ L @ K) c"
  shows "of_bool (x < c) = cover fl x + cover L x + cover K x"
proof -
  have "cover (fl @ L @ K) x = of_bool (x < c)" using assms unfolding tiles_def by blast
  then show ?thesis by (simp only: cover_simps add.assoc)
qed

section \<open>Allocation\<close>

lemma best_fit_inv:
  assumes "set is \<subseteq> {..<length fl}" and "b \<le> length fl" and "b < length fl \<Longrightarrow> sz \<le> snd (fl ! b)"
  shows "fold (best_fit_step sz fl) is b \<le> length fl
    \<and> (fold (best_fit_step sz fl) is b < length fl \<longrightarrow> sz \<le> snd (fl ! fold (best_fit_step sz fl) is b))"
  using assms by (induction "is" arbitrary: b) (auto simp: best_fit_step_def)

lemma best_fit: "best_fit sz fl < length fl \<Longrightarrow> sz \<le> snd (fl ! best_fit sz fl)"
  using best_fit_inv [of "[0..<length fl]" fl "length fl" sz] by (auto simp: best_fit_def atLeast0LessThan)

lemma tiles_mono_set: "tiles es c \<Longrightarrow> (\<And>x. cover fs x = of_bool (x < d)) \<Longrightarrow> (\<And>e. e \<in> set fs \<Longrightarrow> ext_ok e) \<Longrightarrow> tiles fs d"
  by (simp add: tiles_def)

lemma take_extent_lists:
  assumes t: "tiles (fl @ L @ K) c" and "\<forall>e \<in> set fl. fst e + snd e \<noteq> c"
    and b: "b < length fl" and sz: "sz \<le> snd (fl ! b)" "0 < sz" "4096 dvd sz"
    and r: "take_extent sz b fl = (off, fl')"
  shows "tiles (fl' @ ((off, sz) # L) @ K) c" and "\<forall>e \<in> set fl'. fst e + snd e \<noteq> c"
    and "length fl' \<le> length fl" and "off + sz \<le> c" and "4096 dvd off"
proof -
  obtain len where e: "fl ! b = (off, len)" and
    fl': "fl' = (if len = sz then swap_remove b fl else fl[b := (off + sz, len - sz)])"
    using r by (auto simp: take_extent_def Let_def split: prod.splits)
  have mem: "fl ! b \<in> set fl" using b by simp
  have ok: "0 < len" "off + len \<le> c" "4096 dvd off" "4096 dvd len"
    using tilesD [OF t, of "fl ! b"] mem e by auto
  then show "off + sz \<le> c" "4096 dvd off" using sz e by auto
  show "length fl' \<le> length fl" by (simp add: fl')
  have ne: "off + len \<noteq> c" using assms(2) mem e by force
  have all: "\<forall>e \<in> set (fl @ L @ K). ext_ok e" using t by (simp add: tiles_def)
  have cov: "cover fl' x + of_bool (x \<in> ext_set (off, sz)) = cover fl x" for x
  proof (cases "len = sz")
    case True
    then show ?thesis using cover_swap_remove [OF b, of x] e fl' by simp
  next
    case False
    then have "x \<in> ext_set (off, len) \<longleftrightarrow> x \<in> ext_set (off, sz) \<or> x \<in> ext_set (off + sz, len - sz)"
      and "\<not> (x \<in> ext_set (off, sz) \<and> x \<in> ext_set (off + sz, len - sz))"
      using sz e by (auto simp: ext_set_def)
    then show ?thesis using cover_update [OF b, of "(off + sz, len - sz)" x] e False fl'
      by (auto simp: of_bool_def split: if_splits)
  qed
  have sub: "set fl' \<subseteq> insert (off + sz, len - sz) (set fl)"
    using set_swap_remove [OF b] set_update_subset_insert [of fl b] by (auto simp: fl')
  have okp: "ext_ok (off + sz, len - sz)" if "len \<noteq> sz"
    using ok sz e that by (auto simp: ext_ok_def)
  have sub2: "e = (off + sz, len - sz) \<and> len \<noteq> sz \<or> e \<in> set fl" if "e \<in> set fl'" for e
    using that set_swap_remove [OF b] set_update_subset_insert [of fl b] by (auto simp: fl' split: if_splits)
  show "\<forall>e \<in> set fl'. fst e + snd e \<noteq> c" using sub2 assms(2) ne sz e by fastforce
  show "tiles (fl' @ ((off, sz) # L) @ K) c"
    unfolding tiles_def
  proof (intro conjI allI ballI)
    fix x show "cover (fl' @ ((off, sz) # L) @ K) x = of_bool (x < c)"
      using cov [of x] tiles_cover [OF t, of x] by simp
  next
    fix e' assume "e' \<in> set (fl' @ ((off, sz) # L) @ K)"
    then show "ext_ok e'" using sub2 [of e'] okp all ok sz by (auto simp: ext_ok_def)
  qed
qed

lemma bump_lists:
  assumes t: "tiles (fl @ L @ K) c" and sz: "0 < sz" "4096 dvd sz" and c: "4096 dvd c"
  shows "tiles (fl @ ((c, sz) # L) @ K) (c + sz)" and "\<forall>e \<in> set fl. fst e + snd e \<noteq> c + sz"
proof -
  show "tiles (fl @ ((c, sz) # L) @ K) (c + sz)"
    using t sz c by (auto simp: tiles_def ext_ok_def ext_set_def of_bool_def split: if_splits)
  show "\<forall>e \<in> set fl. fst e + snd e \<noteq> c + sz"
    using tilesD(2) [OF t] sz(1) by fastforce
qed

lemma best_fit_none:
  assumes "set is \<subseteq> {..<length fl}" and "b \<le> length fl"
    and "fold (best_fit_step sz fl) is b = length fl"
  shows "b = length fl \<and> (\<forall>i \<in> set is. snd (fl ! i) < sz)"
  using assms
proof (induction "is" arbitrary: b)
  case (Cons i "is")
  then have "best_fit_step sz fl i b = length fl \<and> (\<forall>i \<in> set is. snd (fl ! i) < sz)"
    by (intro Cons.IH) (auto simp: best_fit_step_def)
  with Cons.prems show ?case by (auto simp: best_fit_step_def split: if_splits)
qed simp

lemma best_fit_full:
  assumes "\<not> best_fit sz fl < length fl"
  shows "\<forall>e \<in> set fl. snd e < sz"
proof -
  have "best_fit sz fl = length fl"
    using assms best_fit_inv [of "[0..<length fl]" fl "length fl" sz]
    by (auto simp: best_fit_def atLeast0LessThan)
  then show ?thesis
    using best_fit_none [of "[0..<length fl]" fl "length fl" sz]
    by (auto simp: best_fit_def in_set_conv_nth atLeast0LessThan) (metis lessThan_iff snd_conv)
qed

lemma sparse_alloc_cases:
  assumes rdy: "win_ready w" and "win_lists w fl L K" and n: "0 < n" "n \<le> sparse_size w"
  defines "sz \<equiv> page_round n"
  obtains (reuse) off fl' where "sparse_alloc_locked sz w = (sparse_gpa_base w + off, w\<lparr>sparse_free := Some fl'\<rparr>)"
      "tiles (fl' @ ((off, sz) # L) @ K) (sparse_cur w)" "\<forall>e \<in> set fl'. fst e + snd e \<noteq> sparse_cur w"
      "length fl' \<le> length fl"
  | (bump) "sparse_alloc_locked sz w = (sparse_gpa_base w + sparse_cur w, w\<lparr>sparse_cur := sparse_cur w + sz\<rparr>)"
      "tiles (fl @ ((sparse_cur w, sz) # L) @ K) (sparse_cur w + sz)"
      "\<forall>e \<in> set fl. fst e + snd e \<noteq> sparse_cur w + sz" "sparse_cur w + sz \<le> sparse_size w"
  | (full) "sparse_alloc_locked sz w = (0, w)" "\<forall>e \<in> set fl. snd e < sz" "sparse_size w < sparse_cur w + sz"
proof -
  have fr: "sparse_free w = Some fl" and t: "tiles (fl @ L @ K) (sparse_cur w)"
    and ends: "\<forall>e \<in> set fl. fst e + snd e \<noteq> sparse_cur w"
    using assms(2) by (auto simp: win_lists_def)
  have rd: "4096 dvd sparse_size w" "sparse_gpa_base w + sparse_size w < 2 ^ 63"
    "sparse_cur w \<le> sparse_size w" "4096 dvd sparse_cur w"
    using rdy by (auto simp: win_ready_def)
  have "n < 2 ^ 63" using n rd(2) by linarith
  note pr = page_round [OF this, folded sz_def]
  have sz: "0 < sz" "sz \<le> sparse_size w"
    using pr(1) n page_round_le [OF n(2) rd(1)] rd(2) by (simp_all add: sz_def)
  have cur: "page_round (sparse_cur w) = sparse_cur w"
    using rd(2-4) page_round(4) [of "sparse_cur w"] by simp
  show thesis
  proof (cases "best_fit sz fl < length fl")
    case True
    obtain off fl' where te: "take_extent sz (best_fit sz fl) fl = (off, fl')" by fastforce
    note tl = take_extent_lists [OF t ends True best_fit [OF True] sz(1) pr(3) te]
    have "wrap64 (sparse_gpa_base w + off) = sparse_gpa_base w + off"
      using tl(4) rd(2,3) by (intro wrap64_id) simp
    then show thesis
      using reuse [OF _ tl(1-3)] True te by (simp add: sparse_alloc_locked_def fr Let_def)
  next
    case False
    have "wrap64 (sparse_cur w + sz) = sparse_cur w + sz"
      "wrap64 (sparse_gpa_base w + sparse_cur w) = sparse_gpa_base w + sparse_cur w"
      using rd sz(2) by (intro wrap64_id; simp)+
    then have "sparse_alloc_locked sz w = (if sparse_cur w + sz > sparse_size w then (0, w)
        else (sparse_gpa_base w + sparse_cur w, w\<lparr>sparse_cur := sparse_cur w + sz\<rparr>))"
      using False by (simp add: sparse_alloc_locked_def fr Let_def cur)
    then show thesis
      using bump [OF _ bump_lists [OF t sz(1) pr(3) rd(4)]] full [OF _ best_fit_full [OF False]]
      by (auto split: if_splits)
  qed
qed

lemma win_alloc_inv:
  assumes rdy: "win_ready w" and lists: "win_lists w fl L K" and n: "0 < n" "n \<le> sparse_size w"
    and al: "win_alloc n w = Some (off, len, w')"
  shows "\<exists>fl'. win_ready w' \<and> win_lists w' fl' ((off, len) # L) K \<and> n \<le> len
    \<and> sparse_size w' = sparse_size w \<and> sparse_gpa_base w' = sparse_gpa_base w
    \<and> sparse_vmm_va w' = sparse_vmm_va w \<and> length fl' \<le> length fl"
proof -
  have "n < 2 ^ 63" and base: "0 < sparse_gpa_base w" using n rdy by (auto simp: win_ready_def)
  note pr = page_round(1,3) [OF this(1)]
  from rdy lists n show ?thesis
  proof (cases rule: sparse_alloc_cases)
    case (reuse off' fl')
    then have "off = off'" "len = page_round n" "w' = w\<lparr>sparse_free := Some fl'\<rparr>"
      using al base by (auto simp: win_alloc_def)
    then show ?thesis
      using reuse pr rdy by (intro exI [of _ fl']) (auto simp: win_ready_def win_lists_def)
  next
    case bump
    then have "off = sparse_cur w" "len = page_round n" "w' = w\<lparr>sparse_cur := sparse_cur w + page_round n\<rparr>"
      using al base by (auto simp: win_alloc_def)
    then show ?thesis
      using bump pr rdy lists by (intro exI [of _ fl]) (auto simp: win_ready_def win_lists_def)
  next
    case full
    then show ?thesis using al by (simp add: win_alloc_def)
  qed
qed

section \<open>Release\<close>

lemma absorb_tail_lists:
  assumes "tiles (fl @ L @ K) c" and "c < 2 ^ 64" and "4096 dvd c" and "absorb_tail c fl = (c', fl')"
  shows "tiles (fl' @ L @ K) c' \<and> c' \<le> c \<and> 4096 dvd c' \<and> (\<forall>e \<in> set fl'. fst e + snd e \<noteq> c')
    \<and> length fl' \<le> length fl"
  using assms
proof (induction c fl rule: absorb_tail.induct)
  case (1 cur fl)
  have ends: "wrap64 (fst e + snd e) = fst e + snd e" if "e \<in> set fl" for e
    using tilesD(2) [OF "1.prems"(1), of e] that "1.prems"(2) by (intro wrap64_id) simp
  show ?case
  proof (cases "first_index (\<lambda>e. wrap64 (fst e + snd e) = cur) fl")
    case None
    then have "absorb_tail cur fl = (cur, fl)" by (subst absorb_tail.simps) simp
    then show ?thesis using "1.prems" None ends by (auto simp: first_index_None)
  next
    case (Some i)
    have un: "absorb_tail cur fl = absorb_tail (fst (fl ! i)) (swap_remove i fl)"
      by (subst absorb_tail.simps) (simp add: Some)
    have i: "i < length fl" "wrap64 (fst (fl ! i) + snd (fl ! i)) = cur" using first_index_Some [OF Some] by auto
    have e: "fst (fl ! i) + snd (fl ! i) = cur" using i ends [of "fl ! i"] by simp
    have d: "4096 dvd fst (fl ! i)" using tilesD(3) [OF "1.prems"(1), of "fl ! i"] i by simp
    have "cover (swap_remove i fl @ L @ K) x = of_bool (x < fst (fl ! i))" for x
      using cover_swap_remove [OF i(1), of x] tiles_cover [OF "1.prems"(1), of x] e
      by (auto simp: ext_set_def of_bool_def split: if_splits)
    moreover have "\<forall>e \<in> set (swap_remove i fl @ L @ K). ext_ok e"
      using set_swap_remove [OF i(1)] "1.prems"(1) by (auto simp: tiles_def)
    ultimately have "tiles (swap_remove i fl @ L @ K) (fst (fl ! i))" by (simp add: tiles_def)
    from "1.IH" [OF Some this] d e "1.prems"(2,4) un show ?thesis by auto
  qed
qed

lemma coalesce_lists:
  assumes t: "tiles (fl @ (off, sz) # R) c" and c: "c < 2 ^ 64" and ne: "off + sz \<noteq> c"
    and ends: "\<forall>e \<in> set fl. fst e + snd e \<noteq> c" and co: "coalesce_free off sz fl = Some fl'"
  shows "tiles (fl' @ R) c \<and> (\<forall>e \<in> set fl'. fst e + snd e \<noteq> c) \<and> length fl' = length fl"
proof -
  have mem: "(off, sz) \<in> set (fl @ (off, sz) # R)" by simp
  note m = tilesD [OF t mem, simplified]
  have w: "wrap64 (off + sz) = off + sz" using m c by (intro wrap64_id) simp
  obtain i where i: "i < length fl" and fi: "first_index (\<lambda>e. wrap64 (fst e + snd e) = off \<or> wrap64 (off + sz) = fst e) fl = Some i"
    using co by (auto simp: coalesce_free_def dest: first_index_Some split: option.splits)
  obtain o1 l1 where e: "fl ! i = (o1, l1)" by fastforce
  note m1 = tilesD [OF t, of "fl ! i", unfolded e, simplified]
  have mi: "(o1, l1) \<in> set fl" using i e by (metis nth_mem)
  have b: "0 < l1" "o1 + l1 \<le> c" "4096 dvd o1" "4096 dvd l1" using m1 mi by auto
  have w1: "wrap64 (o1 + l1) = o1 + l1" "wrap64 (l1 + sz) = l1 + sz"
  proof -
    show "wrap64 (o1 + l1) = o1 + l1" using b c by (intro wrap64_id) simp
    have "l1 \<le> c \<and> sz \<le> c \<and> c < 2 ^ 64" using b m c by simp
    show "wrap64 (l1 + sz) = l1 + sz"
    proof (intro wrap64_id)
      have "o1 + l1 = off \<or> off + sz = o1" using first_index_Some [OF fi] e w \<open>wrap64 (o1 + l1) = o1 + l1\<close> by auto
      then show "l1 + sz < 2 ^ 64" using b m c by linarith
    qed
  qed
  have ne1: "o1 + l1 \<noteq> c" using ends mi by force
  have alt: "o1 + l1 = off \<or> off + sz = o1" using first_index_Some [OF fi] e w w1 by auto
  define e' where "e' = (if o1 + l1 = off then (o1, l1 + sz) else (off, l1 + sz))"
  have fl': "fl' = fl[i := e']"
    using co fi e w1 alt by (auto simp: coalesce_free_def e'_def)
  have e'ok: "ext_ok e'" "fst e' + snd e' \<noteq> c" using alt b m ne ne1 by (auto simp: e'_def ext_ok_def)
  have "x \<in> ext_set e' \<longleftrightarrow> x \<in> ext_set (o1, l1) \<or> x \<in> ext_set (off, sz)"
    "\<not> (x \<in> ext_set (o1, l1) \<and> x \<in> ext_set (off, sz))" for x
    using alt by (auto simp: e'_def ext_set_def)
  then have "cover fl' x = cover fl x + of_bool (x \<in> ext_set (off, sz))" for x
    using cover_update [OF i, of e' x] by (auto simp: fl' e of_bool_def split: if_splits)
  then have "cover (fl' @ R) x = of_bool (x < c)" for x
    using tiles_cover [of fl "[(off, sz)]" R c x] t by simp
  moreover have "set fl' \<subseteq> insert e' (set fl)" by (simp add: fl' set_update_subset_insert)
  ultimately show ?thesis
    using t e'ok ends fl' by (auto simp: tiles_def)
qed

lemma tiles_mset: "mset es = mset fs \<Longrightarrow> tiles es c = tiles fs c"
  unfolding tiles_def using cover_mset [of es fs] by (metis set_mset_mset)

lemma free_tail_lists:
  assumes t: "tiles (fl @ (off, sz) # R) c" and c: "off + sz = c" "c < 2 ^ 64"
    and ab: "absorb_tail off fl = (c', fl')"
  shows "tiles (fl' @ R) c' \<and> c' \<le> c \<and> 4096 dvd c' \<and> (\<forall>e \<in> set fl'. fst e + snd e \<noteq> c')
    \<and> length fl' \<le> length fl"
proof -
  have b: "4096 dvd off" using tilesD(3) [OF t, of "(off, sz)"] by simp
  have "cover (fl @ R) x = of_bool (x < off)" for x
    using tiles_cover [of fl "[(off, sz)]" R c x] t c by (auto simp: ext_set_def of_bool_def split: if_splits)
  then have "tiles (fl @ R @ []) off" using t by (simp add: tiles_def)
  from absorb_tail_lists [OF this _ b ab] c show ?thesis by auto
qed

lemma sparse_free_locked_lists:
  assumes fr: "sparse_free w = Some fl" and t: "tiles (fl @ (off, sz) # L @ K) (sparse_cur w)"
    and ends: "\<forall>e \<in> set fl. fst e + snd e \<noteq> sparse_cur w" and c: "sparse_cur w < 2 ^ 64"
  defines "w' \<equiv> sparse_free_locked off sz fl w"
  shows "\<exists>fl' K'. win_lists w' fl' L K' \<and> length fl' \<le> Suc (length fl)
    \<and> (length fl < NVKVM_GPA_FREE_MAX \<longrightarrow> K' = K)"
proof -
  have b: "off + sz \<le> sparse_cur w" using tilesD(2) [OF t, of "(off, sz)"] by simp
  have ws: "wrap64 (off + sz) = off + sz" using b c by (intro wrap64_id) simp
  consider (tail) "off + sz = sparse_cur w"
    | (coalesce) fl' where "off + sz \<noteq> sparse_cur w" "coalesce_free off sz fl = Some fl'"
    | (append) "off + sz \<noteq> sparse_cur w" "coalesce_free off sz fl = None" "length fl < NVKVM_GPA_FREE_MAX"
    | (leak) "off + sz \<noteq> sparse_cur w" "coalesce_free off sz fl = None" "\<not> length fl < NVKVM_GPA_FREE_MAX"
    by fastforce
  then show ?thesis
  proof cases
    case tail
    obtain c' fl' where ab: "absorb_tail off fl = (c', fl')" by fastforce
    have "w' = w\<lparr>sparse_cur := c', sparse_free := Some fl'\<rparr>"
      using tail ws by (simp add: w'_def sparse_free_locked_def ab)
    with free_tail_lists [OF t tail c ab] have "win_lists w' fl' L K \<and> length fl' \<le> length fl"
      by (simp add: win_lists_def)
    then show ?thesis by (intro exI) auto
  next
    case coalesce
    have "win_lists w' fl' L K \<and> length fl' = length fl"
      using coalesce_lists [OF t c coalesce(1) ends coalesce(2)] coalesce ws
      by (simp add: w'_def sparse_free_locked_def win_lists_def)
    then show ?thesis by (intro exI) auto
  next
    case append
    have "win_lists w' (fl @ [(off, sz)]) L K"
      using append t ends by (auto simp: w'_def sparse_free_locked_def ws win_lists_def)
    then show ?thesis by (intro exI) auto
  next
    case leak
    have "tiles (fl @ L @ (off, sz) # K) (sparse_cur w)"
      using tiles_mset [of "fl @ L @ (off, sz) # K" "fl @ (off, sz) # L @ K"] t by simp
    then have "win_lists w' fl L ((off, sz) # K)"
      using leak ends fr by (auto simp: w'_def sparse_free_locked_def ws win_lists_def)
    then show ?thesis using leak by (intro exI) auto
  qed
qed

lemma sparse_free_locked_ready:
  assumes "win_ready w" and t: "tiles (fl @ (off, sz) # R) (sparse_cur w)"
  defines "w' \<equiv> sparse_free_locked off sz fl w"
  shows "win_ready w'" "sparse_size w' = sparse_size w" "sparse_gpa_base w' = sparse_gpa_base w"
    "sparse_vmm_va w' = sparse_vmm_va w"
proof -
  have b: "off + sz \<le> sparse_cur w" using tilesD(2) [OF t, of "(off, sz)"] by simp
  have c: "sparse_cur w < 2 ^ 64" using assms(1) by (auto simp: win_ready_def)
  have ws: "wrap64 (off + sz) = off + sz" using b c by (intro wrap64_id) simp
  obtain c' fl' where ab: "absorb_tail off fl = (c', fl')" by fastforce
  have "off + sz = sparse_cur w \<Longrightarrow> c' \<le> sparse_cur w \<and> 4096 dvd c'"
    using free_tail_lists [OF t _ c ab] by simp
  then show "win_ready w'"
    using assms(1) by (auto simp: w'_def sparse_free_locked_def ws ab win_ready_def split: option.splits)
  show "sparse_size w' = sparse_size w" "sparse_gpa_base w' = sparse_gpa_base w"
    "sparse_vmm_va w' = sparse_vmm_va w"
    by (auto simp: w'_def sparse_free_locked_def ab split: option.splits)
qed

lemma win_release_lists:
  assumes "win_ready w" and lists: "win_lists w fl L K" and e: "e \<in> set L"
  defines "w' \<equiv> win_release e w"
  shows "win_ready w' \<and> sparse_size w' = sparse_size w \<and> sparse_gpa_base w' = sparse_gpa_base w
    \<and> sparse_vmm_va w' = sparse_vmm_va w
    \<and> (\<exists>fl' K'. win_lists w' fl' (remove1 e L) K' \<and> length fl' \<le> Suc (length fl)
         \<and> (length fl < NVKVM_GPA_FREE_MAX \<longrightarrow> K' = K))"
proof -
  obtain off sz where e2: "e = (off, sz)" by (cases e)
  have fr: "sparse_free w = Some fl" and t: "tiles (fl @ L @ K) (sparse_cur w)"
    and ends: "\<forall>e \<in> set fl. fst e + snd e \<noteq> sparse_cur w"
    using lists by (auto simp: win_lists_def)
  have rd: "sparse_gpa_base w + sparse_size w < 2 ^ 63" "sparse_cur w \<le> sparse_size w" "sparse_vmm_va w \<noteq> None"
    using assms(1) by (auto simp: win_ready_def)
  have b: "0 < sz" "off + sz \<le> sparse_cur w" "4096 dvd sz"
    using tilesD [OF t, of e] e by (auto simp: e2)
  have c64: "sparse_cur w < 2 ^ 64" using rd by simp
  have "page_round sz = sz" using page_round(4) [of sz] b rd by simp
  moreover have "wrap64 (off + sz) = off + sz" using b c64 by (intro wrap64_id) simp
  ultimately have w': "w' = sparse_free_locked off sz fl w"
    using rd b by (auto simp: w'_def win_release_def nvkvm_sparse_gpa_free_def fr e2 Let_def)
  have t1: "tiles (fl @ (off, sz) # remove1 e L @ K) (sparse_cur w)"
    using tiles_mset [of "fl @ (off, sz) # remove1 e L @ K" "fl @ L @ K"] t e by (simp add: e2)
  show ?thesis
    using sparse_free_locked_lists [OF fr t1 ends c64] sparse_free_locked_ready [OF assms(1) t1]
    unfolding w' by blast
qed

interpretation gw: extent_allocator win_inv sparse_size win_alloc win_release
proof (standard, goal_cases)
  case (1 w L)
  then show ?case by (auto simp: win_inv_def win_lists_def dest: tiles_disjoint)
next
  case (2 w L e)
  then obtain fl K where "tiles (fl @ L @ K) (sparse_cur w)" "sparse_cur w \<le> sparse_size w"
    by (auto simp: win_inv_def win_lists_def win_ready_def)
  with 2(2) tilesD(1,2) [of "fl @ L @ K" "sparse_cur w" e] show ?case by auto
next
  case (3 w L n off len w')
  then show ?case using win_alloc_inv [of w _ L _ n off len w'] unfolding win_inv_def by metis
next
  case (4 w L e)
  then show ?case using win_release_lists [of w _ L _ e] unfolding win_inv_def by metis
qed

section \<open>Properties\<close>

definition fresh_window :: sparse_win where
  "fresh_window = \<lparr>sparse_vmm_va = Some 0x7f0000000000, sparse_gpa_base = NVKVM_SPARSE_GPA_BASE,
     sparse_size = NVKVM_SPARSE_GPA_SIZE, sparse_cur = 0, sparse_kvm_slot = 64, sparse_free = Some []\<rparr>"

lemma fresh_window_lists: "win_ready fresh_window" "win_lists fresh_window [] [] []"
  by (simp_all add: win_ready_def win_lists_def fresh_window_def tiles_def
      NVKVM_SPARSE_GPA_BASE_def NVKVM_SPARSE_GPA_SIZE_def)

lemma win_run_frame:
  assumes "ext_run win_alloc win_release l w L ops w' L'" and "win_ready w" and "win_lists w fl L []"
    and "sparse_size w = l" and "length fl + length ops \<le> NVKVM_GPA_FREE_MAX"
  shows "sparse_gpa_base w' = sparse_gpa_base w \<and> sparse_vmm_va w' = sparse_vmm_va w
    \<and> (\<exists>fl'. win_lists w' fl' L' [])"
  using assms
proof (induction arbitrary: fl rule: ext_run.induct)
  case (ext_alloc n w off len w1 L ops w2 L2)
  from win_alloc_inv [OF ext_alloc.prems(1,2) ext_alloc.hyps(1)] ext_alloc
  obtain fl' where "win_ready w1" "win_lists w1 fl' ((off, len) # L) []" "sparse_size w1 = l"
    "sparse_gpa_base w1 = sparse_gpa_base w" "sparse_vmm_va w1 = sparse_vmm_va w" "length fl' \<le> length fl"
    by auto
  with ext_alloc.IH [of fl'] ext_alloc.prems show ?case by auto
next
  case (ext_free e L w ops w2 L2)
  from win_release_lists [OF ext_free.prems(1,2) ext_free.hyps(1)] ext_free.prems
  obtain fl' where "win_ready (win_release e w)" "win_lists (win_release e w) fl' (remove1 e L) []"
    "sparse_size (win_release e w) = l" "sparse_gpa_base (win_release e w) = sparse_gpa_base w"
    "sparse_vmm_va (win_release e w) = sparse_vmm_va w" "length fl' \<le> Suc (length fl)"
    by auto
  with ext_free.IH [of fl'] ext_free.prems show ?case by auto
qed auto

text \<open>C6: extents of the sparse window never overlap.  After any sequence of
  allocations (of sizes up to the window) and releases of live extents, the live extents
  are pairwise disjoint and lie inside the window.\<close>

theorem sparse_window_disjoint:
  assumes "win_inv w []" and "ext_run win_alloc win_release (sparse_size w) w [] ops w' L"
  shows "exts_disjoint L \<and> (\<forall>e \<in> set L. 0 < snd e \<and> fst e + snd e \<le> sparse_size w)"
  using gw.run_safe [OF assms(2,1) refl] .

theorem sparse_window_disjoint_witness:
  "\<exists>w L. ext_run win_alloc win_release (sparse_size fresh_window) fresh_window []
      [ExtAlloc 5000 (0, 8192), ExtAlloc 1 (8192, 4096)] w L
    \<and> L = [(8192, 4096), (0, 8192)] \<and> exts_disjoint L"
proof -
  have a: "win_alloc 5000 fresh_window = Some (0, 8192, fresh_window\<lparr>sparse_cur := 8192\<rparr>)"
    by (simp add: win_alloc_def sparse_alloc_locked_def best_fit_def page_round_def wrap64_def
        fresh_window_def NVKVM_SPARSE_GPA_BASE_def NVKVM_SPARSE_GPA_SIZE_def)
  have b: "win_alloc 1 (fresh_window\<lparr>sparse_cur := 8192\<rparr>) =
      Some (8192, 4096, fresh_window\<lparr>sparse_cur := 12288\<rparr>)"
    by (simp add: win_alloc_def sparse_alloc_locked_def best_fit_def page_round_def wrap64_def
        fresh_window_def NVKVM_SPARSE_GPA_BASE_def NVKVM_SPARSE_GPA_SIZE_def)
  have run: "ext_run win_alloc win_release (sparse_size fresh_window) fresh_window []
      [ExtAlloc 5000 (0, 8192), ExtAlloc 1 (8192, 4096)] (fresh_window\<lparr>sparse_cur := 12288\<rparr>)
      [(8192, 4096), (0, 8192)]"
    by (rule ext_alloc [where s' = "fresh_window\<lparr>sparse_cur := 8192\<rparr>"], simp,
        simp add: fresh_window_def NVKVM_SPARSE_GPA_SIZE_def, rule a,
        rule ext_alloc [where s' = "fresh_window\<lparr>sparse_cur := 12288\<rparr>"], simp,
        simp add: fresh_window_def NVKVM_SPARSE_GPA_SIZE_def, rule b, rule ext_nil)
  have "win_inv fresh_window []" using fresh_window_lists by (auto simp: win_inv_def)
  from sparse_window_disjoint [OF this run] run show ?thesis by blast
qed

text \<open>C7: the window is recycled completely.  If every extent handed out has been
  returned, and the free list had no occasion to overflow, then the watermark is back at
  zero and the free list is empty.\<close>

theorem sparse_window_recycled:
  assumes "win_ready w" and "win_lists w [] [] []" and "length ops \<le> NVKVM_GPA_FREE_MAX"
    and "ext_run win_alloc win_release (sparse_size w) w [] ops w' []"
  shows "sparse_cur w' = 0 \<and> sparse_free w' = Some []"
proof -
  obtain fl' where l: "win_lists w' fl' [] []"
    using win_run_frame [OF assms(4,1,2) refl] assms(3) by auto
  then have t: "tiles (fl' @ [] @ []) (sparse_cur w')" and f: "sparse_free w' = Some fl'"
    and ends: "\<forall>e \<in> set fl'. fst e + snd e \<noteq> sparse_cur w'" by (simp_all add: win_lists_def)
  have "sparse_cur w' = 0"
  proof (rule ccontr)
    assume pos: "sparse_cur w' \<noteq> 0"
    then have "cover fl' (sparse_cur w' - 1) = 1" using tiles_cover [OF t, of "sparse_cur w' - 1"] by simp
    then obtain e where e: "e \<in> set fl'" "sparse_cur w' - 1 \<in> ext_set e"
      unfolding cover_def by (metis (mono_tags, lifting) filter_False list.size(3) one_neq_zero)
    then have "fst e + snd e = sparse_cur w'" using tilesD(2) [OF t, of e] pos by (auto simp: ext_set_def)
    then show False using ends e(1) by blast
  qed
  then have "fl' = []"
    using tilesD(1,2) [OF t] by (metis add_is_0 append_Nil2 le_zero_eq list.set_intros(1) neq_Nil_conv not_less_zero)
  with f \<open>sparse_cur w' = 0\<close> show ?thesis by simp
qed

theorem sparse_window_recycled_witness:
  "\<exists>w'. ext_run win_alloc win_release (sparse_size fresh_window) fresh_window []
      [ExtAlloc 5000 (0, 8192), ExtFree (0, 8192)] w' []
    \<and> sparse_cur w' = 0 \<and> sparse_free w' = Some []"
proof -
  let ?w = "fresh_window\<lparr>sparse_cur := 8192\<rparr>"
  have a: "win_alloc 5000 fresh_window = Some (0, 8192, ?w)"
    by (simp add: win_alloc_def sparse_alloc_locked_def best_fit_def page_round_def wrap64_def
        fresh_window_def NVKVM_SPARSE_GPA_BASE_def NVKVM_SPARSE_GPA_SIZE_def)
  have run: "ext_run win_alloc win_release (sparse_size fresh_window) fresh_window []
      [ExtAlloc 5000 (0, 8192), ExtFree (0, 8192)] (win_release (0, 8192) ?w) []"
  proof (rule ext_alloc [where s' = ?w])
    show "win_alloc 5000 fresh_window = Some (0, 8192, ?w)" by (rule a)
    have "ext_run win_alloc win_release (sparse_size fresh_window) (win_release (0, 8192) ?w)
        (remove1 (0, 8192) [(0, 8192)]) [] (win_release (0, 8192) ?w) []"
      using ext_nil [of win_alloc win_release _ "win_release (0, 8192) ?w" "[]"] by simp
    then show "ext_run win_alloc win_release (sparse_size fresh_window) ?w [(0, 8192)] [ExtFree (0, 8192)]
        (win_release (0, 8192) ?w) []" by (rule ext_free [rotated]) simp
  qed (simp_all add: fresh_window_def NVKVM_SPARSE_GPA_SIZE_def)
  from sparse_window_recycled [OF fresh_window_lists _ this] run show ?thesis
    by (auto simp: NVKVM_GPA_FREE_MAX_def)
qed

text \<open>An address handed out by the window is usable.  Once the window is
  installed, \<open>nvkvm_sparse_gpa_alloc\<close> either returns 0 because no free extent and no room
  above the watermark is large enough, and leaves the window alone, or returns an address
  inside the guest-physical range of the window whose whole extent
  \<open>nvkvm_gpa_to_vmm_va\<close> translates to the matching place of the host buffer.\<close>

lemma sparse_alloc_translates:
  assumes "win_inv w L" and "0 < sz" and "sz \<le> sparse_size w" and "sparse_vmm_va w = Some va"
    and "va + sparse_size w < 2 ^ 64"
    and "nvkvm_sparse_gpa_alloc env sz (w, p) = (gpa, w', p')"
  shows "p' = p \<and> (if gpa = 0
     then w' = w \<and> (\<forall>e \<in> set (the (sparse_free w)). snd e < page_round sz)
       \<and> sparse_size w < sparse_cur w + page_round sz
     else sparse_gpa_base w \<le> gpa \<and> gpa + sz \<le> sparse_gpa_base w + sparse_size w
       \<and> nvkvm_gpa_to_vmm_va gpa sz w' = Some (va + (gpa - sparse_gpa_base w)))"
proof -
  obtain fl K where l: "win_ready w" "win_lists w fl L K" using assms(1) by (auto simp: win_inv_def)
  have base: "0 < sparse_gpa_base w" "sparse_kvm_slot w \<ge> 0" "sparse_gpa_base w + sparse_size w < 2 ^ 63"
    using l(1) by (auto simp: win_ready_def)
  have al: "sparse_alloc_locked (page_round sz) w = (gpa, w')" and p: "p' = p"
    using assms(4,6) base
    by (auto simp: nvkvm_sparse_gpa_alloc_def nvkvm_sparse_ensure_def split: prod.splits)
  show ?thesis
  proof (cases "gpa = 0")
    case True
    from l assms(2,3) show ?thesis
      by (cases rule: sparse_alloc_cases) (use al True base p l(2) in \<open>auto simp: win_lists_def\<close>)
  next
    case False
    then have wa: "win_alloc sz w = Some (gpa - sparse_gpa_base w, page_round sz, w')"
      by (simp add: win_alloc_def al)
    note r = win_alloc_inv [OF l assms(2,3) wa]
    then have "win_inv w' ((gpa - sparse_gpa_base w, page_round sz) # L)" by (auto simp: win_inv_def)
    from gw.inv_bounded [OF this, of "(gpa - sparse_gpa_base w, page_round sz)"] r
    have b: "gpa - sparse_gpa_base w + sz \<le> sparse_size w" by auto
    from l assms(2,3) have "sparse_gpa_base w \<le> gpa"
      by (cases rule: sparse_alloc_cases) (use al False in auto)
    then show ?thesis
      using False p b r assms(2,4,5) base
      by (auto simp: nvkvm_gpa_to_vmm_va_def Let_def wrap64_id)
  qed
qed

end
