(* ===== verification/RangeOwner.thy ===== *)
theory RangeOwner
  imports Prelude
begin

text \<open>
  The contract of a table that records which address ranges belong to which handle.
  A client asks it whether a range is covered before it lets a command through, and
  reports the ranges that came into being and went away; what the client needs is that
  the table never covers more than the ranges reported.
\<close>

text \<open>What is reported: a range created for a handle, a range freed, a handle gone.\<close>

datatype range_event = RCreate u32 extent | RFree u32 extent | RGone u32

fun range_abs :: "range_event \<Rightarrow> (u32 \<times> extent) set \<Rightarrow> (u32 \<times> extent) set" where
  "range_abs (RCreate h e) S = insert (h, e) S"
| "range_abs (RFree h e) S = {(h', e') \<in> S. \<not> (h' = h \<and> ext_set e' \<subseteq> ext_set e)}"
| "range_abs (RGone h) S = {(h', e') \<in> S. h' \<noteq> h}"

lemma range_abs_mono: "S \<subseteq> S' \<Longrightarrow> range_abs ev S \<subseteq> range_abs ev S'"
  by (cases ev) auto

text \<open>An event is well formed when its range is one the table accepts.\<close>

fun range_event_ok :: "(extent \<Rightarrow> bool) \<Rightarrow> range_event \<Rightarrow> bool" where
  "range_event_ok ok (RCreate h e) \<longleftrightarrow> h \<noteq> 0 \<and> ok e"
| "range_event_ok ok (RFree h e) \<longleftrightarrow> h \<noteq> 0 \<and> ok e"
| "range_event_ok ok (RGone h) \<longleftrightarrow> h \<noteq> 0"

locale range_owner =
  fixes inv :: "'s \<Rightarrow> bool"
    and owned :: "'s \<Rightarrow> (u32 \<times> extent) set"
    and ok :: "extent \<Rightarrow> bool"
    and covers :: "u32 \<Rightarrow> extent \<Rightarrow> 's \<Rightarrow> bool"
    and report :: "range_event \<Rightarrow> 's \<Rightarrow> 's"
  assumes covers_owned: "inv s \<Longrightarrow> h \<noteq> 0 \<Longrightarrow> ok e \<Longrightarrow>
      covers h e s \<longleftrightarrow> (\<exists>e'. (h, e') \<in> owned s \<and> ext_set e \<subseteq> ext_set e')"
    and report_inv: "inv s \<Longrightarrow> range_event_ok ok ev \<Longrightarrow> inv (report ev s)"
    and report_owned: "inv s \<Longrightarrow> range_event_ok ok ev \<Longrightarrow> owned (report ev s) \<subseteq> range_abs ev (owned s)"
begin

lemma report_narrows:
  assumes "inv s" and "owned s \<subseteq> S" and "range_event_ok ok ev"
  shows "inv (report ev s) \<and> owned (report ev s) \<subseteq> range_abs ev S"
  using report_inv [OF assms(1,3)] report_owned [OF assms(1,3)] range_abs_mono [OF assms(2), of ev]
  by blast

lemma run_narrows:
  assumes "inv s" and "owned s \<subseteq> S" and "list_all (range_event_ok ok) evs"
  shows "inv (fold report evs s) \<and> owned (fold report evs s) \<subseteq> fold range_abs evs S"
  using assms
proof (induction evs arbitrary: s S)
  case (Cons ev evs)
  then show ?case
    using Cons.IH [of "report ev s" "range_abs ev S"] report_narrows [of s S ev] by simp
qed simp

lemma covered_was_reported:
  assumes "inv s" and "owned s \<subseteq> S" and "h \<noteq> 0" and "ok e" and "covers h e s"
  shows "\<exists>e'. (h, e') \<in> S \<and> ext_set e \<subseteq> ext_set e'"
  using covers_owned [OF assms(1,3,4)] assms(2,5) by blast

end

end
