(* ===== verification/UvmRanges.thy ===== *)
theory UvmRanges
  imports RangeOwner
begin

text \<open>
  The table of UVM address ranges of \<open>qemu/nvkvm_isolate_handlers.c\<close>.  UVM ioctls run in
  the device process, so an address range that the guest names is only let through if it
  lies in a range recorded for the same UVM handle.  The table is an array of
  \<open>NVKVM_UVM_VA_MAX\<close> entries in which handle 0 marks a free entry, with a use count.
\<close>

definition NVKVM_UVM_VA_MAX :: nat where
  "NVKVM_UVM_VA_MAX = 16384"

record nvkvm_uvm_va_ent =
  ve_handle :: u32
  ve_base :: u64
  ve_length :: u64

record uvm_va_table =
  uvm_va_tbl :: "nvkvm_uvm_va_ent list"
  uvm_va_used :: nat

definition uvm_va_init :: uvm_va_table where
  "uvm_va_init = \<lparr>uvm_va_tbl = replicate NVKVM_UVM_VA_MAX \<lparr>ve_handle = 0, ve_base = 0, ve_length = 0\<rparr>,
     uvm_va_used = 0\<rparr>"

definition uvm_va_sane :: "u64 \<Rightarrow> u64 \<Rightarrow> bool" where
  "uvm_va_sane base len =
    (if len = 0 then False
     else if base + len < base then False
     else if (base OR len) AND 0xfff \<noteq> 0 then False
     else True)"

definition uvm_va_have_room :: "uvm_va_table \<Rightarrow> bool" where
  "uvm_va_have_room t \<longleftrightarrow> uvm_va_used t < NVKVM_UVM_VA_MAX"

definition uvm_va_add :: "u32 \<Rightarrow> u64 \<Rightarrow> u64 \<Rightarrow> uvm_va_table \<Rightarrow> bool \<times> uvm_va_table" where
  "uvm_va_add h base len t =
    (if list_ex (\<lambda>e. ve_handle e = h \<and> ve_base e = base \<and> ve_length e = len) (uvm_va_tbl t)
     then (True, t)
     else case first_index (\<lambda>e. ve_handle e = 0) (uvm_va_tbl t) of
       None \<Rightarrow> (False, t)
     | Some i \<Rightarrow> (True, t\<lparr>uvm_va_tbl := (uvm_va_tbl t)[i := \<lparr>ve_handle = h, ve_base = base, ve_length = len\<rparr>],
         uvm_va_used := uvm_va_used t + 1\<rparr>))"

definition uvm_va_covers :: "u32 \<Rightarrow> u64 \<Rightarrow> u64 \<Rightarrow> uvm_va_table \<Rightarrow> bool" where
  "uvm_va_covers h base len t =
     list_ex (\<lambda>e. ve_handle e = h \<and> base \<ge> ve_base e \<and> base + len \<le> ve_base e + ve_length e)
       (uvm_va_tbl t)"

text \<open>The loop shared by the two removals: free every entry that matches, and decrement
  the use count unless it is zero already.\<close>

fun clear_loop :: "(nvkvm_uvm_va_ent \<Rightarrow> bool) \<Rightarrow> nvkvm_uvm_va_ent list \<Rightarrow> nat \<Rightarrow> nvkvm_uvm_va_ent list \<times> nat" where
  "clear_loop P [] used = ([], used)"
| "clear_loop P (e # es) used =
    (if P e then let (es', used') = clear_loop P es (if used \<noteq> 0 then used - 1 else used)
                 in (e\<lparr>ve_handle := 0\<rparr> # es', used')
     else let (es', used') = clear_loop P es used in (e # es', used'))"

definition clear_ents :: "(nvkvm_uvm_va_ent \<Rightarrow> bool) \<Rightarrow> uvm_va_table \<Rightarrow> uvm_va_table" where
  "clear_ents P t = (let (es, used) = clear_loop P (uvm_va_tbl t) (uvm_va_used t)
     in t\<lparr>uvm_va_tbl := es, uvm_va_used := used\<rparr>)"

definition uvm_va_drop :: "u32 \<Rightarrow> u64 \<Rightarrow> u64 \<Rightarrow> uvm_va_table \<Rightarrow> uvm_va_table" where
  "uvm_va_drop h base len =
     clear_ents (\<lambda>e. ve_handle e = h \<and> ve_base e \<ge> base \<and> ve_base e + ve_length e \<le> base + len)"

definition nvkvm_uvm_va_purge_handle :: "u32 \<Rightarrow> uvm_va_table \<Rightarrow> uvm_va_table" where
  "nvkvm_uvm_va_purge_handle h t =
    (if h = 0 then t else clear_ents (\<lambda>e. ve_handle e = h) t)"

section \<open>The ranges a table owns\<close>

definition uvm_ext :: "u64 \<Rightarrow> u64 \<Rightarrow> extent" where
  "uvm_ext base len = (unat base, unat len)"

definition uvm_owned :: "uvm_va_table \<Rightarrow> (u32 \<times> extent) set" where
  "uvm_owned t = {(ve_handle e, uvm_ext (ve_base e) (ve_length e)) | e. e \<in> set (uvm_va_tbl t) \<and> ve_handle e \<noteq> 0}"

definition uvm_va_inv :: "uvm_va_table \<Rightarrow> bool" where
  "uvm_va_inv t \<longleftrightarrow> length (uvm_va_tbl t) = NVKVM_UVM_VA_MAX
     \<and> uvm_va_used t = length (filter (\<lambda>e. ve_handle e \<noteq> 0) (uvm_va_tbl t))
     \<and> (\<forall>e \<in> set (uvm_va_tbl t). ve_handle e \<noteq> 0 \<longrightarrow> uvm_va_sane (ve_base e) (ve_length e))"

lemma sane_no_wrap:
  assumes "uvm_va_sane base len"
  shows "unat (base + len) = unat base + unat len" and "0 < unat len"
proof -
  have "base \<le> base + len" "len \<noteq> 0"
    using assms by (auto simp: uvm_va_sane_def not_less split: if_splits)
  then show "unat (base + len) = unat base + unat len" "0 < unat len"
    by (simp_all add: unat_plus_simple [symmetric] unat_gt_0)
qed

lemma sane_subset:
  assumes "uvm_va_sane b l" and "uvm_va_sane b' l'"
  shows "b' \<le> b \<and> b + l \<le> b' + l' \<longleftrightarrow> ext_set (uvm_ext b l) \<subseteq> ext_set (uvm_ext b' l')"
  using sane_no_wrap [OF assms(1)] sane_no_wrap [OF assms(2)]
  by (simp add: word_le_nat_alt uvm_ext_def ext_set_def)

lemma uvm_va_init_inv: "uvm_va_inv uvm_va_init" "uvm_owned uvm_va_init = {}"
  by (auto simp: uvm_va_inv_def uvm_va_init_def uvm_owned_def)

lemma clear_loop_eq:
  "clear_loop P es u = (map (\<lambda>e. if P e then e\<lparr>ve_handle := 0\<rparr> else e) es, u - length (filter P es))"
  by (induction P es u rule: clear_loop.induct) auto

lemma clear_ents_inv:
  assumes "uvm_va_inv t" and "\<And>e. P e \<Longrightarrow> ve_handle e \<noteq> 0"
  shows "uvm_va_inv (clear_ents P t)"
proof -
  have "length (filter (\<lambda>e. ve_handle e \<noteq> 0) es) - length (filter P es)
      = length (filter (\<lambda>e. ve_handle e \<noteq> 0) (map (\<lambda>e. if P e then e\<lparr>ve_handle := 0\<rparr> else e) es))"
    (is "?a es - ?b es = ?c es") for es
  proof -
    have "?a es = ?b es + ?c es" using assms(2) by (induction es) auto
    then show ?thesis by simp
  qed
  then show ?thesis
    using assms(1) by (auto simp: uvm_va_inv_def clear_ents_def clear_loop_eq split: if_splits)
qed

lemma clear_ents_owned:
  "uvm_owned (clear_ents P t) =
    {(ve_handle e, uvm_ext (ve_base e) (ve_length e)) | e. e \<in> set (uvm_va_tbl t) \<and> ve_handle e \<noteq> 0 \<and> \<not> P e}"
proof -
  have "x \<in> uvm_owned (clear_ents P t) \<longleftrightarrow>
    (\<exists>e \<in> set (uvm_va_tbl t). ve_handle e \<noteq> 0 \<and> \<not> P e \<and> x = (ve_handle e, uvm_ext (ve_base e) (ve_length e)))"
    for x
    unfolding uvm_owned_def clear_ents_def clear_loop_eq
    by (simp add: image_iff) (metis nvkvm_uvm_va_ent.select_convs(1) nvkvm_uvm_va_ent.simps(1) nvkvm_uvm_va_ent.update_convs(1) nvkvm_uvm_va_ent.surjective)
  then show ?thesis by blast
qed

lemma uvm_owned_list_update:
  assumes "i < length es" and "ve_handle (es ! i) = 0" and "ve_handle e \<noteq> 0"
  shows "uvm_owned \<lparr>uvm_va_tbl = es[i := e], uvm_va_used = n\<rparr> =
    insert (ve_handle e, uvm_ext (ve_base e) (ve_length e)) (uvm_owned \<lparr>uvm_va_tbl = es, uvm_va_used = m\<rparr>)"
proof -
  have "e' \<in> set (es[i := e]) \<and> ve_handle e' \<noteq> 0 \<longleftrightarrow> e' = e \<or> e' \<in> set es \<and> ve_handle e' \<noteq> 0" for e'
    using assms by (auto simp: in_set_conv_nth nth_list_update)
  then show ?thesis unfolding uvm_owned_def by (simp only: uvm_va_table.simps) blast
qed

lemma live_count_update:
  assumes "i < length es" and "ve_handle (es ! i) = 0" and "ve_handle e \<noteq> 0"
  shows "length (filter (\<lambda>e. ve_handle e \<noteq> 0) (es[i := e])) = Suc (length (filter (\<lambda>e. ve_handle e \<noteq> 0) es))"
  using assms by (induction es arbitrary: i) (auto split: nat.split)

lemma uvm_va_add_owned:
  assumes "uvm_va_inv t" and "h \<noteq> 0" and "uvm_va_sane base len"
  shows "uvm_va_inv (snd (uvm_va_add h base len t))"
    and "uvm_owned (snd (uvm_va_add h base len t)) =
      (if fst (uvm_va_add h base len t) then insert (h, uvm_ext base len) (uvm_owned t) else uvm_owned t)"
    and "uvm_va_have_room t \<Longrightarrow> fst (uvm_va_add h base len t)"
proof -
  let ?e = "\<lparr>ve_handle = h, ve_base = base, ve_length = len\<rparr>"
  obtain es u where t: "t = \<lparr>uvm_va_tbl = es, uvm_va_used = u\<rparr>" by (cases t)
  have dup: "(h, uvm_ext base len) \<in> uvm_owned t"
    if "list_ex (\<lambda>e. ve_handle e = h \<and> ve_base e = base \<and> ve_length e = len) es"
    using that \<open>h \<noteq> 0\<close> by (auto simp: uvm_owned_def t list_ex_iff)
  have free: "i < length es" "ve_handle (es ! i) = 0" if "first_index (\<lambda>e. ve_handle e = 0) es = Some i" for i
    using first_index_Some [OF that] by auto
  have sane: "\<forall>e \<in> set (es[i := ?e]). ve_handle e \<noteq> 0 \<longrightarrow> uvm_va_sane (ve_base e) (ve_length e)" for i
    using assms(1,3) set_update_subset_insert [of es i ?e] by (fastforce simp: uvm_va_inv_def t)
  show "uvm_va_inv (snd (uvm_va_add h base len t))"
    using assms(1,2) sane live_count_update [OF free, where e = ?e]
    by (auto simp: uvm_va_add_def t uvm_va_inv_def split: option.split)
  show "uvm_owned (snd (uvm_va_add h base len t)) =
      (if fst (uvm_va_add h base len t) then insert (h, uvm_ext base len) (uvm_owned t) else uvm_owned t)"
    using dup assms(2) uvm_owned_list_update [OF free, where e = ?e and n = "u + 1" and m = u]
    by (auto simp: uvm_va_add_def t split: option.split)
  show "fst (uvm_va_add h base len t)" if "uvm_va_have_room t"
  proof -
    have "\<exists>e \<in> set es. ve_handle e = 0"
    proof (rule ccontr)
      assume "\<not> ?thesis"
      then have "filter (\<lambda>e. ve_handle e \<noteq> 0) es = es" by (simp add: filter_id_conv)
      then show False using that assms(1) by (simp add: uvm_va_have_room_def uvm_va_inv_def t)
    qed
    then show ?thesis
      using first_index_None [of "\<lambda>e. ve_handle e = 0" es] by (auto simp: uvm_va_add_def t split: option.split)
  qed
qed

lemma uvm_va_drop_owned:
  assumes "uvm_va_inv t" and "h \<noteq> 0" and "uvm_va_sane base len"
  shows "uvm_va_inv (uvm_va_drop h base len t)"
    and "uvm_owned (uvm_va_drop h base len t) = range_abs (RFree h (uvm_ext base len)) (uvm_owned t)"
proof -
  show "uvm_va_inv (uvm_va_drop h base len t)"
    unfolding uvm_va_drop_def by (rule clear_ents_inv) (use assms in auto)
  have sub: "ve_base e \<ge> base \<and> ve_base e + ve_length e \<le> base + len \<longleftrightarrow>
      ext_set (uvm_ext (ve_base e) (ve_length e)) \<subseteq> ext_set (uvm_ext base len)"
    if "e \<in> set (uvm_va_tbl t)" "ve_handle e \<noteq> 0" for e
    using sane_subset assms that by (simp add: uvm_va_inv_def)
  have "uvm_owned (uvm_va_drop h base len t) =
    {(ve_handle e, uvm_ext (ve_base e) (ve_length e)) | e. e \<in> set (uvm_va_tbl t) \<and> ve_handle e \<noteq> 0
       \<and> \<not> (ve_handle e = h \<and> ext_set (uvm_ext (ve_base e) (ve_length e)) \<subseteq> ext_set (uvm_ext base len))}"
    unfolding uvm_va_drop_def clear_ents_owned by (rule Collect_cong) (use sub in blast)
  also have "\<dots> = range_abs (RFree h (uvm_ext base len)) (uvm_owned t)"
    by (fastforce simp: uvm_owned_def)
  finally show "uvm_owned (uvm_va_drop h base len t) = range_abs (RFree h (uvm_ext base len)) (uvm_owned t)" .
qed

lemma uvm_va_purge_owned:
  assumes "uvm_va_inv t" and "h \<noteq> 0"
  shows "uvm_va_inv (nvkvm_uvm_va_purge_handle h t)"
    and "uvm_owned (nvkvm_uvm_va_purge_handle h t) = range_abs (RGone h) (uvm_owned t)"
  using assms clear_ents_inv [of t "\<lambda>e. ve_handle e = h"]
  by (auto simp: nvkvm_uvm_va_purge_handle_def clear_ents_owned) (auto simp: uvm_owned_def)

lemma uvm_va_covers_owned:
  assumes "uvm_va_inv t" and "h \<noteq> 0" and "uvm_va_sane base len"
  shows "uvm_va_covers h base len t \<longleftrightarrow>
    (\<exists>e. (h, e) \<in> uvm_owned t \<and> ext_set (uvm_ext base len) \<subseteq> ext_set e)"
proof -
  have "ve_base e \<le> base \<and> base + len \<le> ve_base e + ve_length e \<longleftrightarrow>
      ext_set (uvm_ext base len) \<subseteq> ext_set (uvm_ext (ve_base e) (ve_length e))"
    if "e \<in> set (uvm_va_tbl t)" "ve_handle e = h" for e
    using sane_subset assms that by (simp add: uvm_va_inv_def)
  then have "uvm_va_covers h base len t \<longleftrightarrow> (\<exists>e \<in> set (uvm_va_tbl t). ve_handle e = h
      \<and> ext_set (uvm_ext base len) \<subseteq> ext_set (uvm_ext (ve_base e) (ve_length e)))"
    unfolding uvm_va_covers_def list_ex_iff by blast
  also have "\<dots> \<longleftrightarrow> (\<exists>e. (h, e) \<in> uvm_owned t \<and> ext_set (uvm_ext base len) \<subseteq> ext_set e)"
    using assms(2) unfolding uvm_owned_def by blast
  finally show ?thesis .
qed

section \<open>The table as a range owner\<close>

definition uvm_ext_ok :: "extent \<Rightarrow> bool" where
  "uvm_ext_ok e \<longleftrightarrow> fst e < 2 ^ 64 \<and> snd e < 2 ^ 64 \<and> uvm_va_sane (of_nat (fst e)) (of_nat (snd e))"

fun uvm_report :: "range_event \<Rightarrow> uvm_va_table \<Rightarrow> uvm_va_table" where
  "uvm_report (RCreate h e) t = snd (uvm_va_add h (of_nat (fst e)) (of_nat (snd e)) t)"
| "uvm_report (RFree h e) t = uvm_va_drop h (of_nat (fst e)) (of_nat (snd e)) t"
| "uvm_report (RGone h) t = nvkvm_uvm_va_purge_handle h t"

lemma uvm_ext_ok_uvm_ext: "uvm_va_sane base len \<Longrightarrow> uvm_ext_ok (uvm_ext base len)"
  using unat_u64_less [of base] unat_u64_less [of len] by (simp add: uvm_ext_ok_def uvm_ext_def)

lemma uvm_ext_of_nat: "uvm_ext_ok e \<Longrightarrow> uvm_ext (of_nat (fst e)) (of_nat (snd e)) = e"
  by (cases e) (simp add: uvm_ext_ok_def uvm_ext_def)

interpretation uv: range_owner uvm_va_inv uvm_owned uvm_ext_ok
  "\<lambda>h e. uvm_va_covers h (of_nat (fst e)) (of_nat (snd e))" uvm_report
proof unfold_locales
  fix t :: uvm_va_table and h :: u32 and e :: extent
  assume "uvm_va_inv t" "h \<noteq> 0" "uvm_ext_ok e"
  then show "uvm_va_covers h (of_nat (fst e)) (of_nat (snd e)) t \<longleftrightarrow>
      (\<exists>e'. (h, e') \<in> uvm_owned t \<and> ext_set e \<subseteq> ext_set e')"
    using uvm_va_covers_owned [of t h "of_nat (fst e)" "of_nat (snd e)"] uvm_ext_of_nat [of e]
    by (simp add: uvm_ext_ok_def)
next
  fix t :: uvm_va_table and ev :: range_event
  assume inv: "uvm_va_inv t" and ok: "range_event_ok uvm_ext_ok ev"
  have sane: "uvm_ext_ok e \<Longrightarrow> uvm_va_sane (of_nat (fst e)) (of_nat (snd e))" for e
    by (simp add: uvm_ext_ok_def)
  show "uvm_va_inv (uvm_report ev t)"
    using inv ok sane uvm_va_add_owned(1) uvm_va_drop_owned(1) uvm_va_purge_owned(1) by (cases ev) auto
  show "uvm_owned (uvm_report ev t) \<subseteq> range_abs ev (uvm_owned t)"
    using inv ok sane uvm_ext_of_nat uvm_va_add_owned(2) [of t] uvm_va_drop_owned(2) [of t]
      uvm_va_purge_owned(2) [of t]
    by (cases ev) (simp_all split: if_splits, blast+)
qed

text \<open>C9: The UVM range table implements a set of owned ranges.  For a well-formed table, a
  non-zero handle and a page-aligned non-empty range that does not wrap: the 64-bit
  comparison of \<open>uvm_va_covers\<close> holds exactly when one range recorded for the same handle
  contains the range; recording succeeds whenever the use count leaves room and then adds
  exactly that range; freeing removes exactly the handle's ranges inside the freed one; purging
  removes exactly the handle's ranges; and all three keep the table well formed.\<close>

theorem uvm_table_refines:
  assumes "uvm_va_inv t" and "h \<noteq> 0" and "uvm_va_sane base len"
  shows "(uvm_va_covers h base len t \<longleftrightarrow>
      (\<exists>e. (h, e) \<in> uvm_owned t \<and> ext_set (uvm_ext base len) \<subseteq> ext_set e))
    \<and> (case uvm_va_add h base len t of (added, t') \<Rightarrow> uvm_va_inv t'
         \<and> uvm_owned t' = (if added then insert (h, uvm_ext base len) (uvm_owned t) else uvm_owned t)
         \<and> (added \<or> \<not> uvm_va_have_room t))
    \<and> uvm_va_inv (uvm_va_drop h base len t)
    \<and> uvm_owned (uvm_va_drop h base len t) =
        {(h', e) \<in> uvm_owned t. \<not> (h' = h \<and> ext_set e \<subseteq> ext_set (uvm_ext base len))}
    \<and> uvm_va_inv (nvkvm_uvm_va_purge_handle h t)
    \<and> uvm_owned (nvkvm_uvm_va_purge_handle h t) = {(h', e) \<in> uvm_owned t. h' \<noteq> h}"
  using uvm_va_covers_owned [OF assms] uvm_va_add_owned [OF assms] uvm_va_drop_owned [OF assms]
    uvm_va_purge_owned [OF assms(1,2)]
  by (simp add: split_beta) blast

theorem uvm_table_refines_witness:
  "\<not> uvm_va_covers 7 0x200000000 0x1000 uvm_va_init
   \<and> uvm_owned (snd (uvm_va_add 7 0x200000000 0x1000 uvm_va_init)) = {(7, (0x200000000, 0x1000))}"
  using uvm_table_refines [of uvm_va_init 7 "0x200000000" "0x1000"] uvm_va_init_inv
  by (auto simp: uvm_va_sane_def split_beta uvm_va_have_room_def uvm_va_init_def NVKVM_UVM_VA_MAX_def uvm_ext_def)

end
