(* ===== verification/AbiProfile.thy ===== *)
theory AbiProfile
  imports Prelude
begin

text \<open>
  The host-driver ABI profiles of \<open>common/nvkvm_abi.h\<close>: the table of measured
  structure layouts, the parser of driver version strings and the selection of a
  row from a version.  A C string is the list of its characters before the
  terminating NUL, a null pointer is \<open>None\<close>, and \<open>unsigned\<close> is a 32-bit word.
\<close>

section \<open>The profile table\<close>

abbreviation NVKVM_ABI_515 :: u32 where "NVKVM_ABI_515 \<equiv> 515"
abbreviation NVKVM_ABI_525 :: u32 where "NVKVM_ABI_525 \<equiv> 525"
abbreviation NVKVM_ABI_535 :: u32 where "NVKVM_ABI_535 \<equiv> 535"
abbreviation NVKVM_ABI_545 :: u32 where "NVKVM_ABI_545 \<equiv> 545"
abbreviation NVKVM_ABI_550 :: u32 where "NVKVM_ABI_550 \<equiv> 550"
abbreviation NVKVM_ABI_570 :: u32 where "NVKVM_ABI_570 \<equiv> 570"
abbreviation NVKVM_ABI_580 :: u32 where "NVKVM_ABI_580 \<equiv> 580"
abbreviation NVKVM_ABI_610 :: u32 where "NVKVM_ABI_610 \<equiv> 610"

record nvkvm_abi_profile =
  abi_id :: u32
  uvm_map_ext_size :: nat
  uvm_map_ext_fd_off :: nat
  uvm_sem_pool_size :: nat
  chan_alloc_size :: nat
  vaspace_alloc_size :: nat
  mem_alloc_size :: nat
  nv00de_alloc_size :: nat
  nvos46_size :: nat
  nvos46_status_off :: nat

definition nvkvm_abi_profiles :: "nvkvm_abi_profile list" where
  "nvkvm_abi_profiles =
    [\<lparr> abi_id = NVKVM_ABI_515, uvm_map_ext_size = 1200, uvm_map_ext_fd_off = 1184,
       uvm_sem_pool_size = 1184, chan_alloc_size = 304, vaspace_alloc_size = 48,
       mem_alloc_size = 120, nv00de_alloc_size = 0, nvos46_size = 56, nvos46_status_off = 48 \<rparr>,
     \<lparr> abi_id = NVKVM_ABI_525, uvm_map_ext_size = 1200, uvm_map_ext_fd_off = 1184,
       uvm_sem_pool_size = 1184, chan_alloc_size = 304, vaspace_alloc_size = 48,
       mem_alloc_size = 120, nv00de_alloc_size = 4, nvos46_size = 56, nvos46_status_off = 48 \<rparr>,
     \<lparr> abi_id = NVKVM_ABI_535, uvm_map_ext_size = 1200, uvm_map_ext_fd_off = 1184,
       uvm_sem_pool_size = 1184, chan_alloc_size = 360, vaspace_alloc_size = 48,
       mem_alloc_size = 120, nv00de_alloc_size = 4, nvos46_size = 56, nvos46_status_off = 48 \<rparr>,
     \<lparr> abi_id = NVKVM_ABI_545, uvm_map_ext_size = 1200, uvm_map_ext_fd_off = 1184,
       uvm_sem_pool_size = 1184, chan_alloc_size = 360, vaspace_alloc_size = 48,
       mem_alloc_size = 128, nv00de_alloc_size = 8, nvos46_size = 56, nvos46_status_off = 48 \<rparr>,
     \<lparr> abi_id = NVKVM_ABI_550, uvm_map_ext_size = 9264, uvm_map_ext_fd_off = 9248,
       uvm_sem_pool_size = 9248, chan_alloc_size = 360, vaspace_alloc_size = 48,
       mem_alloc_size = 128, nv00de_alloc_size = 8, nvos46_size = 56, nvos46_status_off = 48 \<rparr>,
     \<lparr> abi_id = NVKVM_ABI_570, uvm_map_ext_size = 9264, uvm_map_ext_fd_off = 9248,
       uvm_sem_pool_size = 9248, chan_alloc_size = 368, vaspace_alloc_size = 48,
       mem_alloc_size = 128, nv00de_alloc_size = 8, nvos46_size = 56, nvos46_status_off = 48 \<rparr>,
     \<lparr> abi_id = NVKVM_ABI_580, uvm_map_ext_size = 9264, uvm_map_ext_fd_off = 9248,
       uvm_sem_pool_size = 9248, chan_alloc_size = 368, vaspace_alloc_size = 56,
       mem_alloc_size = 128, nv00de_alloc_size = 8, nvos46_size = 64, nvos46_status_off = 56 \<rparr>,
     \<lparr> abi_id = NVKVM_ABI_610, uvm_map_ext_size = 9264, uvm_map_ext_fd_off = 9248,
       uvm_sem_pool_size = 9248, chan_alloc_size = 376, vaspace_alloc_size = 56,
       mem_alloc_size = 128, nv00de_alloc_size = 8, nvos46_size = 64, nvos46_status_off = 56 \<rparr>]"

section \<open>Version strings\<close>

definition is_digit :: "char \<Rightarrow> bool" where
  "is_digit c \<longleftrightarrow> (of_char c :: nat) \<ge> 48 \<and> (of_char c :: nat) \<le> 57"

definition digit_val :: "char \<Rightarrow> nat" where
  "digit_val c = of_char c - 48"

fun parse_digits :: "u32 \<Rightarrow> string \<Rightarrow> u32 \<times> string" where
  "parse_digits m [] = (m, [])"
| "parse_digits m (c # vs) =
    (if is_digit c then parse_digits (m * 10 + of_nat (digit_val c)) vs else (m, c # vs))"

definition nvkvm_abi_parse_major :: "string option \<Rightarrow> u32" where
  "nvkvm_abi_parse_major vs = (case vs of None \<Rightarrow> 0 | Some s \<Rightarrow> fst (parse_digits 0 s))"

text \<open>The loop over the three components: \<open>n\<close> of them are still to be read.\<close>

fun parse_components :: "nat \<Rightarrow> string \<Rightarrow> u32 list" where
  "parse_components 0 vs = []"
| "parse_components (Suc n) vs =
    (let (v, rest) = parse_digits 0 vs in
     v # (case rest of
            [] \<Rightarrow> replicate n 0
          | c # rest' \<Rightarrow> if c \<noteq> CHR ''.'' then replicate n 0 else parse_components n rest'))"

definition nvkvm_abi_parse_version :: "string option \<Rightarrow> u32 \<times> u32 \<times> u32" where
  "nvkvm_abi_parse_version vs =
    (case vs of
       None \<Rightarrow> (0, 0, 0)
     | Some s \<Rightarrow> let v = parse_components 3 s in (v ! 0, v ! 1, v ! 2))"

section \<open>Selection\<close>

text \<open>The scan remembers the index of the 570 row as the default.\<close>

fun by_id_scan :: "u32 \<Rightarrow> nat \<Rightarrow> nat \<Rightarrow> nvkvm_abi_profile list \<Rightarrow> nvkvm_abi_profile" where
  "by_id_scan i k dflt [] = nvkvm_abi_profiles ! dflt"
| "by_id_scan i k dflt (p # ps) =
    (if abi_id p = i then p
     else by_id_scan i (k + 1) (if abi_id p = NVKVM_ABI_570 then k else dflt) ps)"

definition nvkvm_abi_by_id :: "u32 \<Rightarrow> nvkvm_abi_profile" where
  "nvkvm_abi_by_id i = by_id_scan i 0 0 nvkvm_abi_profiles"

definition nvkvm_abi_id_for_version :: "u32 \<Rightarrow> u32 \<Rightarrow> u32 \<Rightarrow> u32" where
  "nvkvm_abi_id_for_version major minor patch =
    (if major = 0 then NVKVM_ABI_570
     else if major \<le> 520 then NVKVM_ABI_515
     else if major \<le> 530 then NVKVM_ABI_525
     else if major = 535 then
       (if minor = 43 \<and> patch < 8 then NVKVM_ABI_525
        else if minor = 54 then NVKVM_ABI_525
        else NVKVM_ABI_535)
     else if major < 545 then NVKVM_ABI_535
     else if major = 545 then NVKVM_ABI_545
     else if major < 550 then NVKVM_ABI_545
     else if major = 550 then
       (if minor = 40 \<and> patch < 53 then NVKVM_ABI_545 else NVKVM_ABI_550)
     else if major \<le> 565 then NVKVM_ABI_550
     else if major \<le> 579 then NVKVM_ABI_570
     else if major \<le> 595 then NVKVM_ABI_580
     else if major < 610 then NVKVM_ABI_580
     else NVKVM_ABI_610)"

definition nvkvm_abi_id_for_major :: "u32 \<Rightarrow> u32" where
  "nvkvm_abi_id_for_major major = nvkvm_abi_id_for_version major (NOT 0) (NOT 0)"

definition nvkvm_abi_for_version :: "string option \<Rightarrow> nvkvm_abi_profile" where
  "nvkvm_abi_for_version vs =
    (let (major, minor, patch) = nvkvm_abi_parse_version vs
     in nvkvm_abi_by_id (nvkvm_abi_id_for_version major minor patch))"

section \<open>Parsing\<close>

text \<open>The printer that the parser inverts: decimal numerals, and zero-padded components.\<close>

fun decimal :: "nat \<Rightarrow> string" where
  "decimal n = (if n < 10 then [char_of (48 + n)] else decimal (n div 10) @ [char_of (48 + n mod 10)])"

declare decimal.simps [simp del]

definition padded :: "nat \<Rightarrow> nat \<Rightarrow> string" where
  "padded z n = replicate z CHR ''0'' @ decimal n"

lemma is_digit_char_of: "d < 10 \<Longrightarrow> is_digit (char_of (48 + d)) \<and> digit_val (char_of (48 + d)) = d"
  by (simp add: is_digit_def digit_val_def)

lemma parse_digits_append:
  "(\<forall>c \<in> set xs. is_digit c) \<Longrightarrow> parse_digits m (xs @ ys) = parse_digits (fst (parse_digits m xs)) ys"
  by (induction xs arbitrary: m) auto

lemma digits_decimal: "c \<in> set (decimal n) \<Longrightarrow> is_digit c"
proof (induction n rule: decimal.induct)
  case (1 n)
  then show ?case
    using is_digit_char_of [of n] is_digit_char_of [of "n mod 10"]
    by (subst (asm) (2) decimal.simps) (auto split: if_splits)
qed

lemma parse_digits_decimal: "fst (parse_digits 0 (decimal n)) = of_nat n"
proof (induction n rule: decimal.induct)
  case (1 n)
  show ?case
  proof (cases "n < 10")
    case True
    then show ?thesis by (subst decimal.simps) (simp add: is_digit_char_of)
  next
    case False
    have "(of_nat n :: u32) = of_nat (n div 10 * 10 + n mod 10)" by simp
    also have "\<dots> = of_nat (n div 10) * 10 + of_nat (n mod 10)"
      by (simp only: of_nat_add of_nat_mult of_nat_numeral)
    finally show ?thesis
      using False 1 is_digit_char_of [of "n mod 10"]
      by (subst decimal.simps) (simp add: parse_digits_append digits_decimal)
  qed
qed

lemma parse_digits_zeros: "parse_digits 0 (replicate z CHR ''0'' @ ys) = parse_digits 0 ys"
  by (induction z) (simp_all add: is_digit_def digit_val_def)

lemma digits_padded: "\<forall>c \<in> set (padded z n). is_digit c"
  by (auto simp: padded_def is_digit_def dest: digits_decimal [unfolded is_digit_def])

lemma parse_digits_padded: "fst (parse_digits 0 (padded z n)) = of_nat n"
  by (simp add: padded_def parse_digits_zeros parse_digits_decimal)

lemma parse_digits_padded_dot:
  "parse_digits 0 (padded z n @ CHR ''.'' # ys) = (of_nat n, CHR ''.'' # ys)"
  "parse_digits 0 (padded z n) = (of_nat n, [])"
  using parse_digits_append [OF digits_padded, of 0 z n "CHR ''.'' # ys"]
    parse_digits_append [OF digits_padded, of 0 z n "[]"]
  by (simp_all add: parse_digits_padded is_digit_def)

text \<open>C8: The version parser reads back every printed driver version.  For any three
  numbers, printed in decimal with any number of leading zeros and joined by dots,
  \<open>nvkvm_abi_parse_version\<close> returns the three numbers modulo \<open>2^32\<close>; a string with two
  components (such as 550.76) gives patch 0, and the major agrees with
  \<open>nvkvm_abi_parse_major\<close>.\<close>

theorem abi_parse_roundtrip:
  "nvkvm_abi_parse_version (Some (padded i a @ ''.'' @ padded j b @ ''.'' @ padded k c))
     = (of_nat a, of_nat b, of_nat c)
   \<and> nvkvm_abi_parse_version (Some (padded i a @ ''.'' @ padded j b)) = (of_nat a, of_nat b, 0)
   \<and> nvkvm_abi_parse_major (Some (padded i a @ ''.'' @ padded j b @ ''.'' @ padded k c)) = of_nat a"
  by (simp add: nvkvm_abi_parse_version_def nvkvm_abi_parse_major_def numeral_3_eq_3
      parse_digits_padded_dot)

section \<open>Soundness of the selection\<close>

definition abi_ids :: "u32 list" where
  "abi_ids = [515, 525, 535, 545, 550, 570, 580, 610]"

lemma id_for_version_range: "nvkvm_abi_id_for_version major minor patch \<in> set abi_ids"
  by (simp add: nvkvm_abi_id_for_version_def abi_ids_def)

lemma by_id_ids: "\<forall>i \<in> set abi_ids. abi_id (nvkvm_abi_by_id i) = i"
  by (simp add: abi_ids_def nvkvm_abi_by_id_def nvkvm_abi_profiles_def)

lemma by_id_default: "i \<notin> set abi_ids \<Longrightarrow> abi_id (nvkvm_abi_by_id i) = 570"
  by (simp add: abi_ids_def nvkvm_abi_by_id_def nvkvm_abi_profiles_def)

definition layout_ok :: "nvkvm_abi_profile \<Rightarrow> bool" where
  "layout_ok p \<longleftrightarrow> uvm_map_ext_fd_off p + 4 \<le> uvm_map_ext_size p
     \<and> uvm_map_ext_size p \<le> 16384 \<and> nvos46_status_off p + 4 \<le> nvos46_size p
     \<and> 4 dvd uvm_map_ext_fd_off p \<and> 4 dvd nvos46_status_off p"

lemma profiles_layout_ok: "\<forall>p \<in> set nvkvm_abi_profiles. layout_ok p"
  by (simp add: nvkvm_abi_profiles_def layout_ok_def)

lemma by_id_mem: "nvkvm_abi_by_id i \<in> set nvkvm_abi_profiles"
  by (simp add: nvkvm_abi_by_id_def nvkvm_abi_profiles_def)

text \<open>Selecting a profile never falls back by accident.  For every version string,
  parseable or not, the row returned is one of the table, carries exactly the id that
  the version rules chose, and its descriptor offset and status offset (the two fields
  that are patched inside a forwarded structure) lie inside the structure and are
  aligned; an id that is not in the table selects the 570 row.\<close>

lemma abi_selection_sound:
  "(let (major, minor, patch) = nvkvm_abi_parse_version vs; p = nvkvm_abi_for_version vs in
      p \<in> set nvkvm_abi_profiles
      \<and> abi_id p = nvkvm_abi_id_for_version major minor patch
      \<and> layout_ok p)
   \<and> abi_id (nvkvm_abi_by_id i) = (if i \<in> set abi_ids then i else NVKVM_ABI_570)"
  using id_for_version_range by_id_ids by_id_mem profiles_layout_ok by_id_default
  by (auto simp: nvkvm_abi_for_version_def Let_def split: prod.split)

text \<open>The driver releases that the comments of the table name, with the row they were
  measured to have.\<close>

definition measured_tags :: "(u32 \<times> string list) list" where
  "measured_tags =
    [(515, [''515.43.04'', ''515.57'', ''515.105.01'', ''520.56.06'', ''520.61.07'']),
     (525, [''525.47.04'', ''525.85.05'', ''525.147.05'', ''530.30.02'', ''530.41.03'',
            ''535.43.02'', ''535.54.03'']),
     (535, [''535.43.08'', ''535.43.28'', ''535.86.05'', ''535.86.10'', ''535.98'', ''535.104.05'',
            ''535.113.01'', ''535.129.03'', ''535.146.02'', ''535.154.05'', ''535.161.07'',
            ''535.171.04'', ''535.179'', ''535.183.01'', ''535.216.01'', ''535.247.01'', ''535.309.01'']),
     (545, [''545.23.06'', ''545.23.08'', ''545.29.02'', ''545.29.03'', ''545.29.06'', ''550.40.07'']),
     (550, [''550.40.53'', ''550.40.85'', ''550.54.14'', ''550.54.15'', ''550.76'', ''550.90.07'',
            ''550.127.05'', ''550.163.01'', ''555.42.02'', ''555.52.04'', ''555.58.02'', ''560.28.03'',
            ''560.31.02'', ''560.35.03'', ''565.57.01'', ''565.77'']),
     (570, [''570.86.15'', ''570.123.01'', ''570.144'', ''570.172.08'', ''570.211.01'',
            ''575.51.02'', ''575.57.08'', ''575.64.05'']),
     (580, [''580.65.06'', ''580.94.02'', ''580.95.05'', ''580.126.09'', ''580.178.04'',
            ''590.44.01'', ''590.48.01'', ''595.44.02'', ''595.58.03'', ''595.91.07'']),
     (610, [''610.43.02'', ''610.43.03'', ''610.57.04''])]"

lemma digit_chars:
  "is_digit CHR ''0''" "is_digit CHR ''1''" "is_digit CHR ''2''" "is_digit CHR ''3''" "is_digit CHR ''4''"
  "is_digit CHR ''5''" "is_digit CHR ''6''" "is_digit CHR ''7''" "is_digit CHR ''8''" "is_digit CHR ''9''"
  "\<not> is_digit CHR ''.''" "\<not> is_digit CHR ''u''"
  by (simp_all add: is_digit_def)

lemma digit_vals:
  "digit_val CHR ''0'' = 0" "digit_val CHR ''1'' = 1" "digit_val CHR ''2'' = 2" "digit_val CHR ''3'' = 3"
  "digit_val CHR ''4'' = 4" "digit_val CHR ''5'' = 5" "digit_val CHR ''6'' = 6" "digit_val CHR ''7'' = 7"
  "digit_val CHR ''8'' = 8" "digit_val CHR ''9'' = 9"
  by (simp_all add: digit_val_def)

lemma abi_id_for_version:
  "abi_id (nvkvm_abi_for_version vs) =
    (case nvkvm_abi_parse_version vs of (major, minor, patch) \<Rightarrow> nvkvm_abi_id_for_version major minor patch)"
  using id_for_version_range by_id_ids
  by (simp add: nvkvm_abi_for_version_def Let_def split: prod.split)

lemmas abi_eval = abi_id_for_version nvkvm_abi_parse_version_def numeral_3_eq_3 digit_chars digit_vals
  nvkvm_abi_id_for_version_def

text \<open>Every driver release that the table's comments record as measured is mapped to
  the row whose comment lists it, including the releases on both sides of the two
  boundaries inside the 535 and 550 branches; an absent or unparseable version selects
  the 570 row.\<close>

lemma abi_measured_releases:
  "list_all (\<lambda>(i, tags). list_all (\<lambda>t. abi_id (nvkvm_abi_for_version (Some t)) = i) tags) measured_tags
   \<and> abi_id (nvkvm_abi_for_version None) = NVKVM_ABI_570
   \<and> abi_id (nvkvm_abi_for_version (Some ''unknown'')) = NVKVM_ABI_570"
  unfolding measured_tags_def by (simp add: abi_eval)

text \<open>Selecting by the major alone differs from selecting by the full version on
  exactly the releases before the two boundaries inside a branch (535.43.x below 8,
  535.54.x, and 550.40.x below 53) and on no other version.\<close>

lemma abi_major_only_lossy:
  "nvkvm_abi_id_for_major major = nvkvm_abi_id_for_version major minor patch \<longleftrightarrow>
     \<not> (major = 535 \<and> (minor = 43 \<and> patch < 8 \<or> minor = 54)
        \<or> major = 550 \<and> minor = 40 \<and> patch < 53)"
  by (simp add: nvkvm_abi_id_for_major_def nvkvm_abi_id_for_version_def)

end
