(* ===== verification/UvmIoctl.thy ===== *)
theory UvmIoctl
  imports UvmRanges HandleTable AbiProfile
begin

text \<open>
  The UVM branch of \<open>nvkvm_req_ioctl_on_isolate\<close> (\<open>qemu/nvkvm_isolate_handlers.c\<close>): the
  schema of UVM commands, the checks on size and address range, the translation of embedded
  descriptors, the call of the driver on a bounce buffer, and the upkeep of the range table.
  A parameter buffer is byte memory together with its size (a null pointer is \<open>None\<close>); the
  UVM driver is a parameter that maps the descriptor, the command and the buffer to a return
  value and the buffer it leaves.
\<close>

section \<open>Requests and responses\<close>

record ioctl_req =
  rq_isolate :: u32
  rq_handle :: u32
  rq_cmd :: u32
  rq_param_size :: nat
  rq_aux_size :: nat
  rq_flags :: u32

record ioctl_resp =
  rs_retval :: "errno + u64"
  rs_status :: "errno option"
  rs_nvstatus :: u32
  rs_fault :: u64

definition deny :: "errno \<Rightarrow> u32 \<Rightarrow> ioctl_resp" where
  "deny e st = \<lparr>rs_retval = Inl e, rs_status = None, rs_nvstatus = st, rs_fault = 0\<rparr>"

abbreviation UVM_INITIALIZE :: u32 where "UVM_INITIALIZE \<equiv> 0x30000001"
abbreviation UVM_DEINITIALIZE :: u32 where "UVM_DEINITIALIZE \<equiv> 0x30000002"
abbreviation UVM_MAP_EXTERNAL_ALLOCATION :: u32 where "UVM_MAP_EXTERNAL_ALLOCATION \<equiv> 33"
abbreviation UVM_ALLOC_SEMAPHORE_POOL :: u32 where "UVM_ALLOC_SEMAPHORE_POOL \<equiv> 68"
abbreviation UVM_MIGRATE :: u32 where "UVM_MIGRATE \<equiv> 51"

section \<open>The schema\<close>

datatype uvm_va_mode = VA_NONE | VA_CREATE | VA_USE | VA_FREE

record nvkvm_uvm_desc =
  ud_cmd :: u32
  ud_min_size :: nat
  ud_fd_off :: "nat list"
  ud_va_off :: nat
  ud_va_mode :: uvm_va_mode

definition uvm_row :: "u32 \<Rightarrow> nat \<Rightarrow> nat list \<Rightarrow> nat \<Rightarrow> uvm_va_mode \<Rightarrow> nvkvm_uvm_desc" where
  "uvm_row cmd min_size fds va_off mode =
     \<lparr>ud_cmd = cmd, ud_min_size = min_size, ud_fd_off = fds, ud_va_off = va_off, ud_va_mode = mode\<rparr>"

definition nvkvm_uvm_schema :: "nvkvm_uvm_desc list" where
  "nvkvm_uvm_schema = [
     uvm_row 0x30000001 16 [0xffff, 0xffff] 0xffff VA_NONE,
     uvm_row 0x30000002 8 [0xffff, 0xffff] 0xffff VA_NONE,
     uvm_row 23 16 [0xffff, 0xffff] 0xffff VA_NONE,
     uvm_row 24 16 [0xffff, 0xffff] 0xffff VA_NONE,
     uvm_row 25 32 [16, 0xffff] 0xffff VA_NONE,
     uvm_row 26 20 [0xffff, 0xffff] 0xffff VA_NONE,
     uvm_row 27 48 [0xffff, 0xffff] 32 VA_CREATE,
     uvm_row 28 28 [0xffff, 0xffff] 0xffff VA_NONE,
     uvm_row 29 40 [0xffff, 0xffff] 0xffff VA_NONE,
     uvm_row 30 40 [0xffff, 0xffff] 0xffff VA_NONE,
     uvm_row 31 32 [0xffff, 0xffff] 8 VA_USE,
     uvm_row 33 9264 [0xffff, 0xffff] 0 VA_USE,
     uvm_row 34 24 [0xffff, 0xffff] 0 VA_FREE,
     uvm_row 37 32 [0xffff, 0xffff] 0xffff VA_NONE,
     uvm_row 38 24 [0xffff, 0xffff] 0xffff VA_NONE,
     uvm_row 39 8 [0xffff, 0xffff] 0xffff VA_NONE,
     uvm_row 42 40 [0xffff, 0xffff] 0 VA_USE,
     uvm_row 43 24 [0xffff, 0xffff] 0 VA_USE,
     uvm_row 44 0 [0xffff, 0xffff] 0 VA_USE,
     uvm_row 45 0 [0xffff, 0xffff] 0 VA_USE,
     uvm_row 46 40 [0xffff, 0xffff] 0 VA_USE,
     uvm_row 47 40 [0xffff, 0xffff] 0 VA_USE,
     uvm_row 51 48 [0xffff, 0xffff] 0 VA_USE,
     uvm_row 53 0 [0xffff, 0xffff] 0xffff VA_NONE,
     uvm_row 65 0 [0xffff, 0xffff] 0 VA_CREATE,
     uvm_row 66 0 [0xffff, 0xffff] 0 VA_USE,
     uvm_row 68 9248 [0xffff, 0xffff] 0 VA_CREATE,
     uvm_row 70 24 [0xffff, 0xffff] 0xffff VA_NONE,
     uvm_row 72 24 [0xffff, 0xffff] 0 VA_USE,
     uvm_row 73 24 [0xffff, 0xffff] 0 VA_CREATE,
     uvm_row 75 8 [0, 0xffff] 0xffff VA_NONE]"

definition nvkvm_uvm_lookup :: "u32 \<Rightarrow> nvkvm_uvm_desc option" where
  "nvkvm_uvm_lookup cmd = find (\<lambda>d. ud_cmd d = cmd) nvkvm_uvm_schema"

section \<open>Checks before the driver is called\<close>

definition uvm_min_size :: "nvkvm_abi_profile option \<Rightarrow> nvkvm_uvm_desc \<Rightarrow> u32 \<Rightarrow> nat" where
  "uvm_min_size abi d cmd =
    (let prof = (case abi of Some p \<Rightarrow> p | None \<Rightarrow> nvkvm_abi_by_id NVKVM_ABI_570) in
     if cmd = UVM_MAP_EXTERNAL_ALLOCATION then uvm_map_ext_size prof
     else if cmd = UVM_ALLOC_SEMAPHORE_POOL then uvm_sem_pool_size prof
     else ud_min_size d)"

text \<open>The range check.  A pair (0, 0) stands for no range and passes untracked.\<close>

definition uvm_check_range ::
  "nvkvm_uvm_desc \<Rightarrow> ioctl_req \<Rightarrow> mem option \<Rightarrow> uvm_va_table \<Rightarrow> ioctl_resp + (u64 \<times> u64) option" where
  "uvm_check_range d req pb t =
    (if ud_va_off d \<noteq> 0xffff \<and> ud_va_mode d \<noteq> VA_NONE then
       (case pb of
          None \<Rightarrow> Inl (deny EINVAL 0x1f)
        | Some p \<Rightarrow>
            if rq_param_size req < ud_va_off d + 16 then Inl (deny EINVAL 0x1f)
            else let va_base = ld64 p (ud_va_off d); va_len = ld64 p (ud_va_off d + 8) in
              if va_base \<noteq> 0 \<or> va_len \<noteq> 0 then
                if \<not> uvm_va_sane va_base va_len then Inl (deny EINVAL 0x1e)
                else if ud_va_mode d = VA_CREATE \<and> \<not> uvm_va_have_room t then Inl (deny ENOMEM 0x1a)
                else if (ud_va_mode d = VA_USE \<or> ud_va_mode d = VA_FREE)
                        \<and> \<not> uvm_va_covers (rq_handle req) va_base va_len t then Inl (deny EINVAL 0x1e)
                else Inr (Some (va_base, va_len))
              else Inr None)
     else Inr None)"

definition uvm_check ::
  "nvkvm_abi_profile option \<Rightarrow> ioctl_req \<Rightarrow> mem option \<Rightarrow> uvm_va_table
     \<Rightarrow> ioctl_resp + nvkvm_uvm_desc \<times> (u64 \<times> u64) option" where
  "uvm_check abi req pb t =
    (case nvkvm_uvm_lookup (rq_cmd req) of
       None \<Rightarrow> Inl (deny EPERM 0x57)
     | Some d \<Rightarrow>
         let min_size = uvm_min_size abi d (rq_cmd req) in
         if rq_param_size req < min_size \<or> (min_size > 0 \<and> pb = None) then Inl (deny EINVAL 0x1f)
         else (case uvm_check_range d req pb t of Inl e \<Rightarrow> Inl e | Inr r \<Rightarrow> Inr (d, r)))"

section \<open>Embedded descriptors\<close>

text \<open>Each listed field that holds the id of a live handle is replaced by the local descriptor;
  what was there is remembered.\<close>

fun translate_fds :: "handle_table \<Rightarrow> nat \<Rightarrow> nat list \<Rightarrow> mem \<Rightarrow> (nat \<times> u32) list \<times> mem" where
  "translate_fds ht n [] p = ([], p)"
| "translate_fds ht n (off # offs) p =
    (if off = 0xffff then ([], p)
     else if n < off + 4 then translate_fds ht n offs p
     else let hid = ld32 p off in
       if hid = 0 \<or> hid = -1 then translate_fds ht n offs p
       else (case nvkvm_handle_get hid ht of
               None \<Rightarrow> translate_fds ht n offs p
             | Some hh \<Rightarrow>
                 if h_fd hh < 0 then translate_fds ht n offs p
                 else let (saved, p') = translate_fds ht n offs (st32 p off (of_int (h_fd hh)))
                      in ((off, hid) # saved, p')))"

definition restore_fds :: "(nat \<times> u32) list \<Rightarrow> mem \<Rightarrow> mem" where
  "restore_fds saved p = fold (\<lambda>(off, v) m. st32 m off v) saved p"

section \<open>The driver call\<close>

definition NVKVM_UVM_BOUNCE_MIN :: nat where
  "NVKVM_UVM_BOUNCE_MIN = 16384"

type_synonym uvm_driver = "fd \<Rightarrow> u32 \<Rightarrow> nat \<Rightarrow> mem \<Rightarrow> (errno + nat) \<times> mem"

record uvm_call =
  uc_fd :: fd
  uc_cmd :: u32
  uc_size :: nat
  uc_in :: mem
  uc_ret :: "errno + nat"
  uc_out :: mem

definition bounce_size :: "nat \<Rightarrow> nat" where
  "bounce_size n = (if n < NVKVM_UVM_BOUNCE_MIN then NVKVM_UVM_BOUNCE_MIN else n)"

definition make_bounce :: "u32 \<Rightarrow> nat \<Rightarrow> mem option \<Rightarrow> mem" where
  "make_bounce cmd n pb =
    (let b = (\<lambda>i. case pb of None \<Rightarrow> 0 | Some p \<Rightarrow> if i < n then p i else 0) in
     if cmd = UVM_MIGRATE \<and> bounce_size n \<ge> 52 then st_bytes b 40 (replicate 12 0) else b)"

definition uvm_run :: "uvm_driver \<Rightarrow> fd \<Rightarrow> u32 \<Rightarrow> nat \<Rightarrow> mem option \<Rightarrow> uvm_call" where
  "uvm_run drv tfd cmd n pb =
    (let b = make_bounce cmd n pb; (r, b') = drv tfd cmd (bounce_size n) b in
     \<lparr>uc_fd = tfd, uc_cmd = cmd, uc_size = bounce_size n, uc_in = b, uc_ret = r, uc_out = b'\<rparr>)"

definition copy_back :: "nat \<Rightarrow> mem \<Rightarrow> mem \<Rightarrow> mem" where
  "copy_back n b p = (\<lambda>i. if i < n then b i else p i)"

text \<open>Where the driver's structure has its status, for the commands that change the table.\<close>

definition va_status_off :: "u32 \<Rightarrow> nat option" where
  "va_status_off cmd =
    (if cmd = 27 then Some 48 else if cmd = 34 then Some 16 else if cmd = 65 then Some 36
     else if cmd = 68 then Some 9240 else if cmd = 73 then Some 16 else None)"

definition va_rmstatus :: "u32 \<Rightarrow> nat \<Rightarrow> bool \<Rightarrow> mem \<Rightarrow> u32" where
  "va_rmstatus cmd bsz va_checked b =
    (if va_checked then
       (case va_status_off cmd of
          None \<Rightarrow> 0xffffffff
        | Some off \<Rightarrow> if off + 4 \<le> bsz then ld32 b off else 0xffffffff)
     else 0xffffffff)"

definition uvm_update_table ::
  "nvkvm_uvm_desc \<Rightarrow> u32 \<Rightarrow> (u64 \<times> u64) option \<Rightarrow> uvm_call \<Rightarrow> uvm_va_table \<Rightarrow> uvm_va_table" where
  "uvm_update_table d h rg c t =
    (let t1 = (case rg of
         None \<Rightarrow> t
       | Some (va_base, va_len) \<Rightarrow>
           if uc_ret c = Inr 0 \<and> va_rmstatus (uc_cmd c) (uc_size c) True (uc_out c) = 0 then
             if ud_va_mode d = VA_CREATE then snd (uvm_va_add h va_base va_len t)
             else if ud_va_mode d = VA_FREE then uvm_va_drop h va_base va_len t
             else t
           else t)
     in if uc_cmd c = UVM_DEINITIALIZE \<and> uc_ret c = Inr 0
        then nvkvm_uvm_va_purge_handle h t1 else t1)"

section \<open>The handler\<close>

record uvm_out =
  uo_resp :: ioctl_resp
  uo_param :: "mem option"
  uo_tbl :: uvm_va_table
  uo_call :: "uvm_call option"

definition is_uvm_handle :: "handle_table \<Rightarrow> u32 \<Rightarrow> bool" where
  "is_uvm_handle ht h =
    (case nvkvm_handle_get h ht of None \<Rightarrow> False | Some hh \<Rightarrow> h_dev hh = NVKVM_DEV_UVM \<and> h_fd hh \<ge> 0)"

definition uvm_finish ::
  "nvkvm_uvm_desc \<Rightarrow> (u64 \<times> u64) option \<Rightarrow> ioctl_req \<Rightarrow> (nat \<times> u32) list \<Rightarrow> mem option \<Rightarrow> uvm_call
     \<Rightarrow> uvm_va_table \<Rightarrow> uvm_out" where
  "uvm_finish d rg req saved pb c t =
    (let n = rq_param_size req;
         pb' = map_option (\<lambda>p. restore_fds saved (copy_back n (uc_out c) p)) pb;
         st = (case pb' of Some p \<Rightarrow> if n \<ge> 4 then ld32 p (n - 4) else 0 | None \<Rightarrow> 0)
     in \<lparr>uo_resp = \<lparr>rs_retval = (case uc_ret c of Inl e \<Rightarrow> Inl e | Inr _ \<Rightarrow> Inr 0),
           rs_status = None, rs_nvstatus = st, rs_fault = 0\<rparr>,
         uo_param = pb', uo_tbl = uvm_update_table d (rq_handle req) rg c t, uo_call = Some c\<rparr>)"

definition uvm_ioctl ::
  "nvkvm_abi_profile option \<Rightarrow> handle_table \<Rightarrow> (fd \<Rightarrow> fd) \<Rightarrow> uvm_driver \<Rightarrow> ioctl_req \<Rightarrow> mem option
     \<Rightarrow> uvm_va_table \<Rightarrow> uvm_out" where
  "uvm_ioctl abi ht os_dup drv req pb t =
    (case uvm_check abi req pb t of
       Inl e \<Rightarrow> \<lparr>uo_resp = e, uo_param = pb, uo_tbl = t, uo_call = None\<rparr>
     | Inr (d, rg) \<Rightarrow>
         let t1 = (if rq_cmd req = UVM_INITIALIZE then nvkvm_uvm_va_purge_handle (rq_handle req) t else t);
             (saved, pb1) = (case pb of
                 None \<Rightarrow> ([], None)
               | Some p \<Rightarrow> let (s, p') = translate_fds ht (rq_param_size req) (ud_fd_off d) p in (s, Some p'));
             tfd = fst (nvkvm_handle_acquire_fd (rq_handle req) os_dup ht) in
         if tfd < 0 then \<lparr>uo_resp = deny EBADF 0x1f, uo_param = pb1, uo_tbl = t1, uo_call = None\<rparr>
         else uvm_finish d rg req saved pb1 (uvm_run drv tfd (rq_cmd req) (rq_param_size req) pb1) t1)"

section \<open>What the driver has accepted\<close>

text \<open>The events that a driver call means for the ranges of its handle, read off the buffer the
  driver was given and the one it left.  The status is read where the driver's own structure has
  it: for the semaphore pool that depends on the profile.\<close>

definition rm_status_off :: "nvkvm_abi_profile \<Rightarrow> u32 \<Rightarrow> nat option" where
  "rm_status_off prof cmd =
    (if cmd = UVM_ALLOC_SEMAPHORE_POOL then Some (uvm_sem_pool_size prof - 8) else va_status_off cmd)"

definition driver_accepted :: "nvkvm_abi_profile \<Rightarrow> uvm_call \<Rightarrow> bool" where
  "driver_accepted prof c \<longleftrightarrow> uc_ret c = Inr 0
     \<and> (case rm_status_off prof (uc_cmd c) of None \<Rightarrow> False | Some off \<Rightarrow> ld32 (uc_out c) off = 0)"

definition call_range :: "uvm_call \<Rightarrow> nvkvm_uvm_desc \<Rightarrow> u64 \<times> u64" where
  "call_range c d = (ld64 (uc_in c) (ud_va_off d), ld64 (uc_in c) (ud_va_off d + 8))"

definition driver_events :: "nvkvm_abi_profile \<Rightarrow> u32 \<Rightarrow> uvm_call \<Rightarrow> range_event list" where
  "driver_events prof h c =
    (case nvkvm_uvm_lookup (uc_cmd c) of
       None \<Rightarrow> []
     | Some d \<Rightarrow>
         if (uc_cmd c = UVM_INITIALIZE \<or> uc_cmd c = UVM_DEINITIALIZE) \<and> uc_ret c = Inr 0 then [RGone h]
         else if driver_accepted prof c \<and> call_range c d \<noteq> (0, 0) then
           (case ud_va_mode d of
              VA_CREATE \<Rightarrow> [RCreate h (case_prod uvm_ext (call_range c d))]
            | VA_FREE \<Rightarrow> [RFree h (case_prod uvm_ext (call_range c d))]
            | _ \<Rightarrow> [])
         else [])"

text \<open>The states that UVM ioctls and handle closes lead to, with the ranges the driver holds
  for each handle.\<close>

inductive uvm_reach :: "nvkvm_abi_profile \<Rightarrow> uvm_va_table \<Rightarrow> (u32 \<times> extent) set \<Rightarrow> bool" for prof where
  reach_init: "uvm_reach prof uvm_va_init {}"
| reach_ioctl: "uvm_reach prof t S \<Longrightarrow> is_uvm_handle ht (rq_handle req)
    \<Longrightarrow> out = uvm_ioctl (Some prof) ht os_dup drv req pb t
    \<Longrightarrow> uvm_reach prof (uo_tbl out)
          (case uo_call out of None \<Rightarrow> S | Some c \<Rightarrow> fold range_abs (driver_events prof (rq_handle req) c) S)"
| reach_close: "uvm_reach prof t S \<Longrightarrow> h \<noteq> 0
    \<Longrightarrow> uvm_reach prof (nvkvm_uvm_va_purge_handle h t) (range_abs (RGone h) S)"

section \<open>Facts on the schema and the buffers\<close>

lemma lookup_in_schema: "nvkvm_uvm_lookup cmd = Some d \<Longrightarrow> d \<in> set nvkvm_uvm_schema \<and> ud_cmd d = cmd"
  by (auto simp: nvkvm_uvm_lookup_def find_Some_iff)

lemma schema_va:
  "\<forall>d \<in> set nvkvm_uvm_schema. ud_va_mode d \<noteq> VA_NONE \<longrightarrow>
     ud_fd_off d = [0xffff, 0xffff] \<and> ud_va_off d \<noteq> 0xffff \<and> (ud_cmd d = UVM_MIGRATE \<longrightarrow> ud_va_off d = 0)
     \<and> ud_cmd d \<noteq> UVM_INITIALIZE \<and> ud_cmd d \<noteq> UVM_DEINITIALIZE"
  by (simp add: nvkvm_uvm_schema_def uvm_row_def)

lemma schema_status:
  "\<forall>d \<in> set nvkvm_uvm_schema. ud_va_mode d = VA_CREATE \<or> ud_va_mode d = VA_FREE \<longrightarrow>
     (\<exists>off. va_status_off (ud_cmd d) = Some off \<and> off + 4 \<le> NVKVM_UVM_BOUNCE_MIN)"
  by (simp add: nvkvm_uvm_schema_def uvm_row_def va_status_off_def NVKVM_UVM_BOUNCE_MIN_def)

lemma uvm_handle_nonzero: "is_uvm_handle ht h \<Longrightarrow> h \<noteq> 0"
  by (auto simp: is_uvm_handle_def nvkvm_handle_get_def bad_id_def split: option.splits if_splits)

lemma make_bounce_range:
  assumes "off + 16 \<le> n" and "cmd = UVM_MIGRATE \<Longrightarrow> off = 0"
  shows "ld64 (make_bounce cmd n (Some p)) off = ld64 p off"
    and "ld64 (make_bounce cmd n (Some p)) (off + 8) = ld64 p (off + 8)"
proof -
  have "make_bounce cmd n (Some p) (off + i) = p (off + i)" if "i < 16" for i
    using assms that by (auto simp: make_bounce_def Let_def mem_simps)
  note eq = this
  show "ld64 (make_bounce cmd n (Some p)) off = ld64 p off"
    by (rule ld64_cong) (simp add: eq)
  show "ld64 (make_bounce cmd n (Some p)) (off + 8) = ld64 p (off + 8)"
    by (rule ld64_cong) (use eq [of "8 + _"] in \<open>simp add: add.assoc\<close>)
qed

lemma uvm_check_okD:
  assumes "uvm_check abi req pb t = Inr (d, rg)"
  shows "nvkvm_uvm_lookup (rq_cmd req) = Some d"
    and "ud_va_mode d = VA_NONE \<Longrightarrow> rg = None"
    and "ud_va_mode d \<noteq> VA_NONE \<Longrightarrow> (\<exists>p. pb = Some p \<and> ud_va_off d + 16 \<le> rq_param_size req
        \<and> rg = (if ld64 p (ud_va_off d) = 0 \<and> ld64 p (ud_va_off d + 8) = 0 then None
                else Some (ld64 p (ud_va_off d), ld64 p (ud_va_off d + 8))))"
    and "rg = Some (b, l) \<Longrightarrow> uvm_va_sane b l
        \<and> (ud_va_mode d = VA_CREATE \<longrightarrow> uvm_va_have_room t)
        \<and> (ud_va_mode d = VA_USE \<or> ud_va_mode d = VA_FREE \<longrightarrow> uvm_va_covers (rq_handle req) b l t)"
proof -
  from assms have l: "nvkvm_uvm_lookup (rq_cmd req) = Some d" and r: "uvm_check_range d req pb t = Inr rg"
    by (auto simp: uvm_check_def Let_def split: option.splits if_splits sum.splits)
  show "nvkvm_uvm_lookup (rq_cmd req) = Some d" by (rule l)
  show "ud_va_mode d = VA_NONE \<Longrightarrow> rg = None" using r by (simp add: uvm_check_range_def)
  show "\<exists>p. pb = Some p \<and> ud_va_off d + 16 \<le> rq_param_size req
        \<and> rg = (if ld64 p (ud_va_off d) = 0 \<and> ld64 p (ud_va_off d + 8) = 0 then None
                else Some (ld64 p (ud_va_off d), ld64 p (ud_va_off d + 8)))" if "ud_va_mode d \<noteq> VA_NONE"
    using r that lookup_in_schema [OF l] schema_va
    by (auto simp: uvm_check_range_def Let_def split: option.splits if_splits)
  show "uvm_va_sane b l \<and> (ud_va_mode d = VA_CREATE \<longrightarrow> uvm_va_have_room t)
        \<and> (ud_va_mode d = VA_USE \<or> ud_va_mode d = VA_FREE \<longrightarrow> uvm_va_covers (rq_handle req) b l t)"
    if "rg = Some (b, l)"
    using r that by (auto simp: uvm_check_range_def Let_def split: option.splits if_splits)
qed

definition uvm_pre_table :: "ioctl_req \<Rightarrow> uvm_va_table \<Rightarrow> uvm_va_table" where
  "uvm_pre_table req t =
    (if rq_cmd req = UVM_INITIALIZE then nvkvm_uvm_va_purge_handle (rq_handle req) t else t)"

lemma uvm_ioctl_no_call:
  assumes "uo_call (uvm_ioctl abi ht os_dup drv req pb t) = None"
  shows "uo_tbl (uvm_ioctl abi ht os_dup drv req pb t) \<in> {t, uvm_pre_table req t}"
  using assms
  by (auto simp: uvm_ioctl_def uvm_pre_table_def uvm_finish_def Let_def split: sum.splits prod.splits if_splits)

lemma uvm_ioctl_callD:
  assumes "uo_call (uvm_ioctl abi ht os_dup drv req pb t) = Some c"
  shows "\<exists>d rg. uvm_check abi req pb t = Inr (d, rg) \<and> uc_cmd c = rq_cmd req
      \<and> NVKVM_UVM_BOUNCE_MIN \<le> uc_size c
      \<and> (ud_va_mode d \<noteq> VA_NONE \<longrightarrow> call_range c d = (case rg of None \<Rightarrow> (0, 0) | Some r \<Rightarrow> r))
      \<and> uo_tbl (uvm_ioctl abi ht os_dup drv req pb t)
          = uvm_update_table d (rq_handle req) rg c (uvm_pre_table req t)"
proof -
  let ?n = "rq_param_size req" and ?cmd = "rq_cmd req"
  obtain d rg where chk: "uvm_check abi req pb t = Inr (d, rg)"
    using assms by (auto simp: uvm_ioctl_def split: sum.splits)
  note ok = uvm_check_okD [OF chk]
  obtain saved pb1 tfd where c: "c = uvm_run drv tfd ?cmd ?n pb1"
    and pb1: "pb1 = map_option (\<lambda>p. snd (translate_fds ht ?n (ud_fd_off d) p)) pb"
    and tbl: "uo_tbl (uvm_ioctl abi ht os_dup drv req pb t)
          = uvm_update_table d (rq_handle req) rg c (uvm_pre_table req t)"
    using assms chk
    by (auto simp: uvm_ioctl_def uvm_finish_def uvm_pre_table_def Let_def
        split: option.splits prod.splits if_splits)
  have flds: "uc_cmd c = ?cmd" "NVKVM_UVM_BOUNCE_MIN \<le> uc_size c" "uc_in c = make_bounce ?cmd ?n pb1"
    by (simp_all add: c uvm_run_def Let_def split_beta bounce_size_def)
  have "call_range c d = (case rg of None \<Rightarrow> (0, 0) | Some r \<Rightarrow> r)" if m: "ud_va_mode d \<noteq> VA_NONE"
  proof -
    obtain p where p: "pb = Some p" "ud_va_off d + 16 \<le> ?n"
      and rg: "rg = (if ld64 p (ud_va_off d) = 0 \<and> ld64 p (ud_va_off d + 8) = 0 then None
                else Some (ld64 p (ud_va_off d), ld64 p (ud_va_off d + 8)))"
      using ok(3) [OF m] by blast
    have sch: "ud_fd_off d = [0xffff, 0xffff]" "?cmd = UVM_MIGRATE \<Longrightarrow> ud_va_off d = 0"
      using lookup_in_schema [OF ok(1)] schema_va m by auto
    have "pb1 = Some p" by (simp add: pb1 p sch)
    then show ?thesis
      by (simp add: call_range_def flds rg make_bounce_range [OF p(2) sch(2)])
  qed
  then show ?thesis using chk flds tbl by blast
qed

lemma update_table_events:
  assumes chk: "uvm_check (Some prof) req pb t = Inr (d, rg)"
    and c: "uc_cmd c = rq_cmd req" "NVKVM_UVM_BOUNCE_MIN \<le> uc_size c"
      "ud_va_mode d \<noteq> VA_NONE \<Longrightarrow> call_range c d = (case rg of None \<Rightarrow> (0, 0) | Some r \<Rightarrow> r)"
    and pool: "uvm_sem_pool_size prof = 9248" and not_init: "rq_cmd req \<noteq> UVM_INITIALIZE"
  shows "uvm_update_table d h rg c t = fold uvm_report (driver_events prof h c) t"
proof -
  note ok = uvm_check_okD [OF chk]
  have d: "d \<in> set nvkvm_uvm_schema" "ud_cmd d = rq_cmd req" using lookup_in_schema [OF ok(1)] by auto
  have st: "rm_status_off prof cmd = va_status_off cmd" for cmd
    by (simp add: rm_status_off_def pool va_status_off_def)
  have acc: "driver_accepted prof c \<longleftrightarrow> uc_ret c = Inr 0 \<and> va_rmstatus (uc_cmd c) (uc_size c) True (uc_out c) = 0"
    if "ud_va_mode d = VA_CREATE \<or> ud_va_mode d = VA_FREE"
    using schema_status d that c
    by (fastforce simp: driver_accepted_def st va_rmstatus_def split: option.splits)
  show ?thesis
  proof (cases "ud_va_mode d = VA_NONE")
    case True
    then show ?thesis using ok(1,2) not_init c
      by (simp add: uvm_update_table_def driver_events_def)
  next
    case False
    have "rq_cmd req \<noteq> UVM_DEINITIALIZE" using schema_va d False by auto
    moreover have "b \<noteq> 0 \<or> l \<noteq> 0" if "rg = Some (b, l)" for b l
      using ok(3) [OF False] that by (auto split: if_splits)
    ultimately show ?thesis using ok(1) not_init c False acc
      by (cases "ud_va_mode d")
        (auto simp: uvm_update_table_def driver_events_def uvm_ext_def split: option.splits)
  qed
qed

lemma driver_events_ok:
  assumes chk: "uvm_check (Some prof) req pb t = Inr (d, rg)" and "uc_cmd c = rq_cmd req" and "h \<noteq> 0"
    and "ud_va_mode d \<noteq> VA_NONE \<Longrightarrow> call_range c d = (case rg of None \<Rightarrow> (0, 0) | Some r \<Rightarrow> r)"
  shows "list_all (range_event_ok uvm_ext_ok) (driver_events prof h c)"
  using assms uvm_check_okD(1,4) [OF chk] uvm_ext_ok_uvm_ext
  by (auto simp: driver_events_def split: uvm_va_mode.splits option.splits)

lemma uvm_pre_table_narrows:
  assumes "uvm_va_inv t" and "uvm_owned t \<subseteq> S" and "rq_handle req \<noteq> 0"
  shows "uvm_va_inv (uvm_pre_table req t) \<and> uvm_owned (uvm_pre_table req t) \<subseteq> S
     \<and> (rq_cmd req = UVM_INITIALIZE \<longrightarrow> uvm_owned (uvm_pre_table req t) \<subseteq> range_abs (RGone (rq_handle req)) S)"
  using assms uvm_va_purge_owned [OF assms(1,3)] by (auto simp: uvm_pre_table_def)

lemma uvm_reach_inv:
  assumes "uvm_reach prof t S" and pool: "uvm_sem_pool_size prof = 9248"
  shows "uvm_va_inv t \<and> uvm_owned t \<subseteq> S"
  using assms(1)
proof (induction rule: uvm_reach.induct)
  case reach_init
  then show ?case using uvm_va_init_inv by simp
next
  case (reach_ioctl t S ht req out os_dup drv pb)
  let ?h = "rq_handle req"
  have h: "?h \<noteq> 0" by (rule uvm_handle_nonzero) fact
  note pre = uvm_pre_table_narrows [of t S req, OF _ _ h]
  show ?case
  proof (cases "uo_call out")
    case None
    then show ?thesis using uvm_ioctl_no_call [of "Some prof" ht os_dup drv req pb t] reach_ioctl pre by auto
  next
    case (Some c)
    then obtain d rg where chk: "uvm_check (Some prof) req pb t = Inr (d, rg)" and cmd: "uc_cmd c = rq_cmd req"
      and bsz: "NVKVM_UVM_BOUNCE_MIN \<le> uc_size c"
      and cr: "ud_va_mode d \<noteq> VA_NONE \<Longrightarrow> call_range c d = (case rg of None \<Rightarrow> (0, 0) | Some r \<Rightarrow> r)"
      and tbl: "uo_tbl out = uvm_update_table d ?h rg c (uvm_pre_table req t)"
      using uvm_ioctl_callD [of "Some prof" ht os_dup drv req pb t c] reach_ioctl.hyps(3) by blast
    show ?thesis
    proof (cases "rq_cmd req = UVM_INITIALIZE")
      case True
      then have "ud_va_mode d = VA_NONE"
        using schema_va lookup_in_schema [OF uvm_check_okD(1) [OF chk]] by auto
      then have "uo_tbl out = uvm_pre_table req t"
        using uvm_check_okD(2) [OF chk] True cmd by (simp add: tbl uvm_update_table_def)
      moreover have "driver_events prof ?h c = (if uc_ret c = Inr 0 then [RGone ?h] else [])"
        using uvm_check_okD(1) [OF chk] True cmd \<open>ud_va_mode d = VA_NONE\<close> by (simp add: driver_events_def)
      ultimately show ?thesis using Some pre reach_ioctl.IH True by simp
    next
      case False
      then have "uo_tbl out = fold uvm_report (driver_events prof ?h c) t"
        using update_table_events [OF chk cmd bsz cr pool False] tbl by (simp add: uvm_pre_table_def)
      then show ?thesis
        using uv.run_narrows [of t S, OF _ _ driver_events_ok [OF chk cmd h cr]] reach_ioctl.IH Some by simp
    qed
  qed
next
  case (reach_close t S h)
  then show ?case using uv.report_narrows [of t S "RGone h"] by simp
qed

section \<open>Safety of the driver calls\<close>


text \<open>A concrete device: handle 1 is an open UVM descriptor, the driver answers every call with
  success, and a guest creates one range and then migrates its second page.\<close>

definition ex_ht :: handle_table where
  "ex_ht = set_slot 1 \<lparr>h_id = 1, h_type = NVKVM_HANDLE_TYPE_NVIDIA, h_fd = 9, h_session = 3,
     h_dev = NVKVM_DEV_UVM, h_refs = 0, h_poll = False, h_in_use = True\<rparr> nvkvm_handle_table_init"

definition ex_drv :: uvm_driver where
  "ex_drv fd cmd n m = (Inr 0, m)"

definition ex_prof :: nvkvm_abi_profile where
  "ex_prof = nvkvm_abi_by_id NVKVM_ABI_570"

definition ex_param :: "u64 \<Rightarrow> u64 \<Rightarrow> mem" where
  "ex_param b l = st64 (st64 (\<lambda>_. 0) 0 b) 8 l"

definition ex_req :: "u32 \<Rightarrow> nat \<Rightarrow> ioctl_req" where
  "ex_req cmd n = \<lparr>rq_isolate = 1, rq_handle = 1, rq_cmd = cmd, rq_param_size = n, rq_aux_size = 0, rq_flags = 0\<rparr>"

definition ex_created :: uvm_out where
  "ex_created = uvm_ioctl (Some ex_prof) ex_ht id ex_drv (ex_req 73 24) (Some (ex_param 0x200000000 0x4000)) uvm_va_init"

definition ex_migrate :: uvm_out where
  "ex_migrate = uvm_ioctl (Some ex_prof) ex_ht id ex_drv (ex_req 51 48) (Some (ex_param 0x200001000 0x1000)) (uo_tbl ex_created)"

lemma ex_param_loads: "ld64 (ex_param b l) 0 = b" "ld64 (ex_param b l) 8 = l" "ld32 (ex_param b l) 16 = 0"
proof -
  have "ld64 (ex_param b l) 0 = ld64 (st64 (\<lambda>_. 0) 0 b) 0"
    by (rule ld64_cong) (auto simp: ex_param_def mem_simps)
  then show "ld64 (ex_param b l) 0 = b" by (simp add: mem_simps)
  show "ld64 (ex_param b l) 8 = l" by (simp add: ex_param_def mem_simps)
  show "ld32 (ex_param b l) 16 = 0"
    by (simp add: ex_param_def mem_simps) (simp add: ld32_def le32_def)
qed

lemma make_bounce_ld32:
  "off + 4 \<le> n \<Longrightarrow> cmd \<noteq> UVM_MIGRATE \<Longrightarrow> ld32 (make_bounce cmd n (Some p)) off = ld32 p off"
  by (rule ld32_cong) (simp add: make_bounce_def)

lemma ex_handle: "is_uvm_handle ex_ht 1" "nvkvm_handle_acquire_fd 1 id ex_ht = (9, Some NVKVM_DEV_UVM)"
  by (simp_all add: is_uvm_handle_def ex_ht_def nvkvm_handle_get_def nvkvm_handle_acquire_fd_def bad_id_def
      stale_def slot_of_def fill_slot_def set_slot_def NVKVM_HANDLE_MAX_def Let_def)

lemma ex_lookup:
  "nvkvm_uvm_lookup 73 = Some (uvm_row 73 24 [0xffff, 0xffff] 0 VA_CREATE)"
  "nvkvm_uvm_lookup 51 = Some (uvm_row 51 48 [0xffff, 0xffff] 0 VA_USE)"
  by (simp_all add: nvkvm_uvm_lookup_def nvkvm_uvm_schema_def uvm_row_def)

lemma ex_sane: "uvm_va_sane 0x200000000 0x4000" "uvm_va_sane 0x200001000 0x1000"
  by (simp_all add: uvm_va_sane_def)

lemma ex_room: "uvm_va_have_room uvm_va_init"
  by (simp add: uvm_va_have_room_def uvm_va_init_def NVKVM_UVM_VA_MAX_def)

lemmas ex_eval = uvm_ioctl_def uvm_check_def uvm_check_range_def uvm_min_size_def ex_req_def
  ex_handle ex_lookup ex_param_loads ex_sane ex_room uvm_row_def Let_def ex_drv_def

lemma ex_created_eq:
  "uo_tbl ex_created = snd (uvm_va_add 1 0x200000000 0x4000 uvm_va_init)"
  "uo_call ex_created = Some (uvm_run ex_drv 9 73 24 (Some (ex_param 0x200000000 0x4000)))"
  by (simp_all add: ex_created_def ex_eval uvm_finish_def uvm_run_def uvm_update_table_def
      va_rmstatus_def va_status_off_def make_bounce_ld32 bounce_size_def NVKVM_UVM_BOUNCE_MIN_def)

lemma ex_owned: "uvm_va_inv (uo_tbl ex_created)" "uvm_owned (uo_tbl ex_created) = {(1, (0x200000000, 0x4000))}"
  using uvm_va_add_owned [of uvm_va_init 1 "0x200000000" "0x4000"] uvm_va_init_inv ex_sane ex_room
  by (simp_all add: ex_created_eq uvm_ext_def)

lemma ex_covers: "uvm_va_covers 1 0x200001000 0x1000 (uo_tbl ex_created)"
  using uvm_va_covers_owned [OF ex_owned(1), of 1 "0x200001000" "0x1000"] ex_sane
  by (simp add: ex_owned uvm_ext_def ext_set_def)

lemma ex_migrate_call:
  "uo_call ex_migrate = Some (uvm_run ex_drv 9 51 48 (Some (ex_param 0x200001000 0x1000)))"
  using ex_covers by (simp add: ex_migrate_def ex_eval uvm_finish_def)

lemma ex_reach:
  "\<exists>S. uvm_reach ex_prof (uo_tbl ex_created) S \<and> S \<subseteq> {(1, (0x200000000, 0x4000))}"
proof -
  let ?c = "uvm_run ex_drv 9 73 24 (Some (ex_param 0x200000000 0x4000))"
  have "uvm_reach ex_prof (uo_tbl ex_created) (fold range_abs (driver_events ex_prof 1 ?c) {})"
    using reach_ioctl [of ex_prof uvm_va_init "{}" ex_ht "ex_req 73 24" ex_created id ex_drv
        "Some (ex_param 0x200000000 0x4000)"] reach_init ex_handle(1)
    by (simp add: ex_created_def [symmetric] ex_created_eq) (simp add: ex_req_def)
  moreover have "call_range ?c (uvm_row 73 24 [0xffff, 0xffff] 0 VA_CREATE) = (0x200000000, 0x4000)"
    using make_bounce_range [of 0 24 73 "ex_param 0x200000000 0x4000"]
    by (simp add: call_range_def uvm_run_def Let_def ex_drv_def uvm_row_def ex_param_loads)
  then have "fold range_abs (driver_events ex_prof 1 ?c) {} \<subseteq> {(1, (0x200000000, 0x4000))}"
    by (simp add: driver_events_def uvm_run_def Let_def ex_drv_def ex_lookup) (simp add: uvm_row_def uvm_ext_def)
  ultimately show ?thesis by blast
qed


section \<open>Embedded descriptors and the status offset\<close>

lemma schema_fds:
  "\<forall>d \<in> set nvkvm_uvm_schema. \<forall>off \<in> set (ud_fd_off d). off \<noteq> 0xffff \<longrightarrow>
     ud_fd_off d = [off, 0xffff] \<and> off + 4 \<le> ud_min_size d \<and> ud_cmd d \<notin> {UVM_MIGRATE, 33, 68}"
  by (simp add: nvkvm_uvm_schema_def uvm_row_def)

lemma uvm_fd_saved:
  assumes "uvm_check abi req (Some p) t = Inr (d, rg)" and "off \<in> set (ud_fd_off d)" and "off \<noteq> 0xffff"
    and "nvkvm_handle_get (ld32 p off) ht = Some hh" and "h_fd hh \<ge> 0" and "ld32 p off \<noteq> -1"
  shows "translate_fds ht (rq_param_size req) (ud_fd_off d) p
      = ([(off, ld32 p off)], st32 p off (of_int (h_fd hh)))
    \<and> off + 4 \<le> rq_param_size req \<and> rq_cmd req \<noteq> UVM_MIGRATE"
proof -
  have d: "d \<in> set nvkvm_uvm_schema" "ud_cmd d = rq_cmd req"
    using lookup_in_schema [OF uvm_check_okD(1) [OF assms(1)]] by auto
  then have f: "ud_fd_off d = [off, 0xffff]" "off + 4 \<le> ud_min_size d" "rq_cmd req \<notin> {UVM_MIGRATE, 33, 68}"
    using schema_fds assms(2,3) by auto
  have "ud_min_size d \<le> rq_param_size req"
    using assms(1) uvm_check_okD(1) [OF assms(1)] f(3)
    by (auto simp: uvm_check_def uvm_min_size_def Let_def split: if_splits)
  moreover have "ld32 p off \<noteq> 0" using assms(4) by (auto simp: nvkvm_handle_get_def bad_id_def)
  ultimately show ?thesis using assms f by auto
qed

text \<open>Descriptor fields of UVM commands.  When a command that passes the checks has a
  descriptor field holding the id of a live handle, the driver sees the device's own descriptor
  there and the response carries the guest's handle id again, with no byte beyond the declared
  size touched.  If duplicating the target descriptor fails, however, the handler returns before
  it restores the field: the buffer that goes back to the guest still holds the device's
  descriptor number.\<close>

lemma uvm_fd_fields:
  assumes chk: "uvm_check abi req (Some p) t = Inr (d, rg)"
    and off: "off \<in> set (ud_fd_off d)" "off \<noteq> 0xffff"
    and hh: "nvkvm_handle_get (ld32 p off) ht = Some hh" "h_fd hh \<ge> 0" "ld32 p off \<noteq> -1"
    and out: "out = uvm_ioctl abi ht os_dup drv req (Some p) t"
  shows "case uo_call out of
      Some c \<Rightarrow> ld32 (uc_in c) off = of_int (h_fd hh)
        \<and> (\<exists>p'. uo_param out = Some p' \<and> ld32 p' off = ld32 p off
             \<and> (\<forall>i \<ge> rq_param_size req. p' i = p i))
    | None \<Rightarrow> (\<exists>p'. uo_param out = Some p' \<and> ld32 p' off = of_int (h_fd hh))"
proof -
  let ?n = "rq_param_size req" and ?v = "of_int (h_fd hh) :: u32"
  note sv = uvm_fd_saved [OF chk off hh]
  have b: "ld32 (make_bounce (rq_cmd req) ?n (Some (st32 p off ?v))) off = ?v"
    using sv make_bounce_ld32 by (simp add: mem_simps)
  show ?thesis
  proof (cases "fst (nvkvm_handle_acquire_fd (rq_handle req) os_dup ht) < 0")
    case True
    then show ?thesis using chk sv by (simp add: out uvm_ioctl_def mem_simps)
  next
    case False
    have "restore_fds [(off, ld32 p off)] (copy_back ?n q (st32 p off ?v)) i = p i" if "?n \<le> i" for q i
      using sv that by (simp add: restore_fds_def copy_back_def mem_simps)
    then show ?thesis using False chk sv b
      by (simp add: out uvm_ioctl_def uvm_finish_def uvm_run_def Let_def split_beta restore_fds_def mem_simps)
  qed
qed

definition ex_dup :: "fd \<Rightarrow> fd" where
  "ex_dup fd = -1"

lemma ex_mm_check:
  "uvm_check None (ex_req 75 8) (Some (st32 (\<lambda>_. 0) 0 1)) uvm_va_init
     = Inr (uvm_row 75 8 [0, 0xffff] 0xffff VA_NONE, None)"
  by (simp add: uvm_check_def nvkvm_uvm_lookup_def nvkvm_uvm_schema_def uvm_row_def ex_req_def
      uvm_min_size_def uvm_check_range_def)

lemma ex_handle_get: "\<exists>hh. nvkvm_handle_get 1 ex_ht = Some hh \<and> h_fd hh = 9"
  by (simp add: ex_ht_def nvkvm_handle_get_def bad_id_def
      stale_def slot_of_def set_slot_def NVKVM_HANDLE_MAX_def)

text \<open>A driver of a profile with the small structures that refuses to create a semaphore pool: it
  returns 0 from the ioctl and a non-zero status in the status field, 8 bytes before the end of its
  1184-byte structure.\<close>

definition ex_refusing_drv :: uvm_driver where
  "ex_refusing_drv fd cmd n m = (Inr 0, st32 m 1176 0x1f)"

definition ex_refused :: uvm_out where
  "ex_refused = uvm_ioctl (Some (nvkvm_abi_by_id NVKVM_ABI_535)) ex_ht id ex_refusing_drv (ex_req 68 1184)
     (Some (ex_param 0x200000000 0x4000)) uvm_va_init"

lemma ex_refused_call:
  "uo_call ex_refused = Some (uvm_run ex_refusing_drv 9 68 1184 (Some (ex_param 0x200000000 0x4000)))
   \<and> uo_tbl ex_refused = snd (uvm_va_add 1 0x200000000 0x4000 uvm_va_init)"
proof -
  have l: "nvkvm_uvm_lookup 68 = Some (uvm_row 68 9248 [0xffff, 0xffff] 0 VA_CREATE)"
    by (simp add: nvkvm_uvm_lookup_def nvkvm_uvm_schema_def uvm_row_def)
  have s: "uvm_sem_pool_size (nvkvm_abi_by_id NVKVM_ABI_535) = 1184"
    by (simp add: nvkvm_abi_by_id_def nvkvm_abi_profiles_def)
  have "ld32 (make_bounce 68 1184 pb) 9240 = 0" for pb
    by (simp add: make_bounce_def Let_def ld32_def le32_def split: option.split)
  then show ?thesis
    by (simp add: ex_refused_def ex_eval l s uvm_finish_def uvm_run_def uvm_update_table_def
        va_rmstatus_def va_status_off_def bounce_size_def NVKVM_UVM_BOUNCE_MIN_def ex_refusing_drv_def mem_simps)
qed

text \<open>With a profile that has the small UVM structures the status of
  UVM_ALLOC_SEMAPHORE_POOL is misread: the handler looks at offset 9240, beyond the 1184 bytes of
  the structure, where the bounce buffer is always zero.  A pool that the driver refused is
  recorded as owned, so the table is not a narrowing of the driver's state there.\<close>

lemma uvm_sem_pool_status_misread:
  "\<exists>c. uo_call ex_refused = Some c
     \<and> \<not> driver_accepted (nvkvm_abi_by_id NVKVM_ABI_535) c
     \<and> driver_events (nvkvm_abi_by_id NVKVM_ABI_535) 1 c = []
     \<and> uvm_owned (uo_tbl ex_refused) = {(1, (0x200000000, 0x4000))}"
proof -
  let ?c = "uvm_run ex_refusing_drv 9 68 1184 (Some (ex_param 0x200000000 0x4000))"
  have na: "\<not> driver_accepted (nvkvm_abi_by_id NVKVM_ABI_535) ?c"
    by (simp add: driver_accepted_def uvm_run_def Let_def ex_refusing_drv_def rm_status_off_def
        nvkvm_abi_by_id_def nvkvm_abi_profiles_def mem_simps)
  moreover have "driver_events (nvkvm_abi_by_id NVKVM_ABI_535) 1 ?c = []"
    using na by (simp add: driver_events_def uvm_run_def Let_def split_beta split: option.split)
  moreover have "uvm_owned (uo_tbl ex_refused) = {(1, (0x200000000, 0x4000))}"
    using uvm_va_add_owned [of uvm_va_init 1 "0x200000000" "0x4000"] uvm_va_init_inv ex_sane ex_room
    by (simp add: ex_refused_call uvm_ext_def)
  ultimately show ?thesis using ex_refused_call by blast
qed

end
