(* ===== verification/Allowlists.thy ===== *)
theory Allowlists
  imports Prelude
begin

text \<open>
  The default-deny lists of the device: RM control commands
  (\<open>nvkvm_ctrl_allowlist.h\<close>), frontend ioctl numbers and RM_ALLOC classes
  (\<open>nvkvm_fe_alloc_allowlist.h\<close>), DRM ioctl numbers (\<open>nvkvm_drm_allowlist.h\<close>) and
  NVKMS commands (\<open>nvkvm_nvkms_allowlist.h\<close>), with the lookups of
  \<open>nvkvm_isolate_handlers.c\<close> and the decoding of an ioctl number.
\<close>

section \<open>Ioctl numbers\<close>

definition IOC_NR :: "u32 \<Rightarrow> u32" where
  "IOC_NR cmd = cmd AND 0xff"

definition IOC_TYPE :: "u32 \<Rightarrow> u32" where
  "IOC_TYPE cmd = drop_bit 8 cmd AND 0xff"

section \<open>The tables\<close>

definition nvkvm_ctrl_allowlist :: "u32 list" where
  "nvkvm_ctrl_allowlist = [
     0x00000101, 0x00000102, 0x00000127, 0x0000012b, 0x00000136, 0x0000013a, 0x000001f0, 0x00000201,
     0x00000202, 0x00000204, 0x00000205, 0x00000214, 0x00000215, 0x00000216, 0x0000021b, 0x00000275,
     0x00000279, 0x0000027b, 0x00000288, 0x00000289, 0x00000290, 0x00000a04, 0x00000d01, 0x00000d04,
     0x00410110, 0x00800201, 0x00800280, 0x00800288, 0x00800289, 0x0080028b, 0x0080028e, 0x00800292,
     0x00800294, 0x00801109, 0x00801307, 0x00801402, 0x0080170d, 0x00801713, 0x00801806, 0x0080180d,
     0x00801909, 0x00de0001, 0x00f80103, 0x00fd0101, 0x00fd0102, 0x00fd0104, 0x00fd0105, 0x20800102,
     0x20800110, 0x20800111, 0x20800119, 0x2080012f, 0x20800131, 0x20800133, 0x2080013f, 0x20800142,
     0x20800145, 0x20800146, 0x2080014a, 0x2080014b, 0x20800156, 0x20800157, 0x2080016c, 0x20800170,
     0x2080018b, 0x2080018d, 0x2080018e, 0x20800195, 0x208001a3, 0x20800301, 0x20800403, 0x20800406,
     0x20800407, 0x20800513, 0x20800802, 0x2080110b, 0x20801201, 0x20801210, 0x20801218, 0x2080121b,
     0x20801227, 0x2080122a, 0x2080122b, 0x20801230, 0x20801303, 0x20801357, 0x20801358, 0x20801701,
     0x20801702, 0x20801801, 0x20801802, 0x20801803, 0x20801823, 0x2080182a, 0x2080182b, 0x2080200a,
     0x20802068, 0x20802209, 0x2080220c, 0x20802210, 0x20802a03, 0x20802a0a, 0x20803001, 0x20803002,
     0x20803125, 0x20803601, 0x20803801, 0x20808159, 0x20808162, 0x2080852e, 0x2080852f, 0x2080a612,
     0x2080a618, 0x20810108, 0x208f1105, 0x503c0102, 0x503c0104, 0x503c0105, 0x83de0309, 0x83de030c,
     0x83de0310, 0x906f0101, 0x906f0102, 0x90e60102, 0xa06c0101, 0xa06c0103, 0xa06c0105, 0xa06f0103,
     0xc36f0108, 0xc56f010b, 0xcb330101, 0xcb330104, 0xcb33010b, 0xcb33010c, 0x00000301, 0x00003d05,
     0x00003d06, 0x00730101, 0x00801102, 0x00801104, 0x00801301, 0x00801401, 0x00801701, 0x00801707,
     0x00801b01, 0x00801c02, 0x00da0002, 0x00da0006, 0x20800123, 0x20800147, 0x20801206, 0x20801208,
     0x20801301, 0x20801315, 0x20801320, 0x20801352, 0x20802a02, 0x20803d07, 0x2080a0d1, 0x20810107,
     0x90960101, 0x90960106, 0x90960107, 0xa06f0104, 0xc36f010a, 0xc36f0101]"

definition nvkvm_fe_nr_allowlist :: "u32 list" where
  "nvkvm_fe_nr_allowlist = [
     0x27, 0x29, 0x2a, 0x2b, 0x34, 0x35, 0x41, 0x4a, 0x4e, 0x4f, 0x54, 0x57,
     0x58, 0x5e, 0xc8, 0xc9, 0xce, 0xcf, 0xd2, 0xd4, 0xd6, 0xd7, 0xda]"

definition nvkvm_alloc_class_allowlist :: "u32 list" where
  "nvkvm_alloc_class_allowlist = [
     0x00000000, 0x00000001, 0x00000002, 0x00000005, 0x0000003e, 0x00000040, 0x00000041, 0x00000070,
     0x00000073, 0x00000079, 0x00000080, 0x000000da, 0x000000de, 0x000000e0, 0x000000f1, 0x000000f8,
     0x000000fb, 0x000000fd, 0x000000fe, 0x00002080, 0x00002081, 0x0000208f, 0x0000503b, 0x0000503c,
     0x000050a0, 0x000083de, 0x0000902d, 0x00009067, 0x00009072, 0x00009096, 0x000090cc, 0x000090e6,
     0x000090e7, 0x000090f1, 0x0000a06c, 0x0000a0bc, 0x0000a140, 0x0000b2cc, 0x0000b8b0, 0x0000b8d1,
     0x0000b8fa, 0x0000c361, 0x0000c461, 0x0000c46f, 0x0000c4b0, 0x0000c4b7, 0x0000c4d1, 0x0000c56f,
     0x0000c597, 0x0000c5b5, 0x0000c5c0, 0x0000c661, 0x0000c697, 0x0000c6b0, 0x0000c6b5, 0x0000c6c0,
     0x0000c6fa, 0x0000c761, 0x0000c797, 0x0000c7b0, 0x0000c7b5, 0x0000c7b7, 0x0000c7c0, 0x0000c7fa,
     0x0000c86f, 0x0000c8b5, 0x0000c96f, 0x0000c997, 0x0000c9b0, 0x0000c9b5, 0x0000c9b7, 0x0000c9c0,
     0x0000c9d1, 0x0000c9fa, 0x0000ca6f, 0x0000cab5, 0x0000cb33, 0x0000cb97, 0x0000cba2, 0x0000cbc0,
     0x0000cd40, 0x0000cd97, 0x0000cdb0, 0x0000cdc0, 0x0000cdd1, 0x0000cdfa, 0x0000ce97, 0x0000cec0,
     0x0000cfb7]"

section \<open>The lookups\<close>

definition nvkvm_ctrl_cmd_allowed :: "u32 \<Rightarrow> bool" where
  "nvkvm_ctrl_cmd_allowed cmd \<longleftrightarrow>
     cmd AND 0x8000 \<noteq> 0 \<or> drop_bit 16 cmd AND 0xffff = 0x2081
     \<or> list_ex (\<lambda>c. c = cmd) nvkvm_ctrl_allowlist"

definition nvkvm_fe_nr_allowed :: "u32 \<Rightarrow> bool" where
  "nvkvm_fe_nr_allowed nr \<longleftrightarrow> list_ex (\<lambda>n. n = nr) nvkvm_fe_nr_allowlist"

definition nvkvm_alloc_class_allowed :: "u32 \<Rightarrow> bool" where
  "nvkvm_alloc_class_allowed cls \<longleftrightarrow> list_ex (\<lambda>c. c = cls) nvkvm_alloc_class_allowlist"

definition NVKVM_DRM_COMMAND_BASE :: u32 where
  "NVKVM_DRM_COMMAND_BASE = 0x40"

definition nvkvm_drm_nr_allowed :: "u32 \<Rightarrow> bool" where
  "nvkvm_drm_nr_allowed nr \<longleftrightarrow>
     nr \<in> {0x00, 0x09,
       NVKVM_DRM_COMMAND_BASE + 0x03, NVKVM_DRM_COMMAND_BASE + 0x04, NVKVM_DRM_COMMAND_BASE + 0x05,
       NVKVM_DRM_COMMAND_BASE + 0x06, NVKVM_DRM_COMMAND_BASE + 0x08, NVKVM_DRM_COMMAND_BASE + 0x0b,
       NVKVM_DRM_COMMAND_BASE + 0x09, NVKVM_DRM_COMMAND_BASE + 0x0f, NVKVM_DRM_COMMAND_BASE + 0x14,
       NVKVM_DRM_COMMAND_BASE + 0x15, NVKVM_DRM_COMMAND_BASE + 0x16, NVKVM_DRM_COMMAND_BASE + 0x17}"

definition nvkvm_nvkms_cmd_allowed :: "u32 \<Rightarrow> bool" where
  "nvkvm_nvkms_cmd_allowed cmd_type \<longleftrightarrow> cmd_type \<in> {0, 1, 17, 18, 60, 61, 62}"

lemmas allow_defs = nvkvm_ctrl_cmd_allowed_def nvkvm_fe_nr_allowed_def nvkvm_alloc_class_allowed_def
  nvkvm_drm_nr_allowed_def nvkvm_nvkms_cmd_allowed_def NVKVM_DRM_COMMAND_BASE_def
  nvkvm_fe_nr_allowlist_def nvkvm_alloc_class_allowlist_def nvkvm_ctrl_allowlist_def

lemma legacy_mask: "(cmd :: u32) AND 0x8000 \<noteq> 0 \<longleftrightarrow> bit cmd 15"
proof -
  have "(cmd AND 2 ^ 15 = 0) = (\<not> bit cmd 15)" by (rule and_exp_eq_0_iff_not_bit)
  moreover have "(2 :: u32) ^ 15 = 0x8000" by simp
  ultimately show ?thesis by metis
qed

lemma unat_drop_bit_u32: "unat (drop_bit n (x :: u32)) = unat x div 2 ^ n"
  unfolding unsigned_drop_bit_eq by (simp only: drop_bit_eq_div take_bit_eq_mod) (use unat_u32_less [of x] in simp)

lemma binapi_class: "drop_bit 16 (cmd :: u32) AND 0xffff = 0x2081 \<longleftrightarrow> unat cmd div 2 ^ 16 = 0x2081"
proof -
  have m: "(0xffff :: u32) = mask 16" by (simp add: mask_eq_exp_minus_1)
  have "unat (drop_bit 16 cmd) < 2 ^ 16"
    using unat_u32_less [of cmd] by (simp add: unat_drop_bit_u32)
  then have "unat (take_bit 16 (drop_bit 16 cmd)) = unat (drop_bit 16 cmd)"
    by (simp add: unsigned_take_bit_eq take_bit_nat_eq_self_iff)
  then have "drop_bit 16 cmd AND 0xffff = drop_bit 16 cmd"
    unfolding m take_bit_eq_mask [symmetric] by (simp only: word_unat_eq_iff)
  moreover have "drop_bit 16 cmd = 0x2081 \<longleftrightarrow> unat (drop_bit 16 cmd) = 0x2081"
    by (simp add: word_unat_eq_iff)
  ultimately show ?thesis by (simp add: unat_drop_bit_u32)
qed

lemma fe_denied: "\<not> nvkvm_fe_nr_allowed 0x70"
  by (simp add: nvkvm_fe_nr_allowed_def nvkvm_fe_nr_allowlist_def)

lemma class_denied: "\<not> nvkvm_alloc_class_allowed 0x3f" "\<not> nvkvm_alloc_class_allowed 0x71"
  by (simp_all add: nvkvm_alloc_class_allowed_def nvkvm_alloc_class_allowlist_def)

lemma drm_denied:
  "list_all (\<lambda>n. \<not> nvkvm_drm_nr_allowed (NVKVM_DRM_COMMAND_BASE + n)) [0x02, 0x0a, 0x0d, 0x0e]"
  by (simp add: nvkvm_drm_nr_allowed_def NVKVM_DRM_COMMAND_BASE_def)

lemma nvkms_denied: "{c. nvkvm_nvkms_cmd_allowed c} = {0, 1, 17, 18, 60, 61, 62}"
  by (auto simp: nvkvm_nvkms_cmd_allowed_def)

text \<open>The surfaces that the notes on the lists single out as deliberately refused are
  refused: the dma-buf export escape 0x70; the classes of privileged memory (0x3f) and OS
  descriptors (0x71); the DRM calls that carry a raw guest address or mint a mapping
  (import of user memory, map offset, dma-buf export, object identification); every NVKMS
  command but the seven listed, so no permission or surface-sharing verb.  The commands of the
  two rule-based families of control commands pass whatever the list says.\<close>

lemma documented_denials:
  "\<not> nvkvm_fe_nr_allowed 0x70
   \<and> \<not> nvkvm_alloc_class_allowed 0x3f \<and> \<not> nvkvm_alloc_class_allowed 0x71
   \<and> list_all (\<lambda>n. \<not> nvkvm_drm_nr_allowed (NVKVM_DRM_COMMAND_BASE + n)) [0x02, 0x0a, 0x0d, 0x0e]
   \<and> {c. nvkvm_nvkms_cmd_allowed c} = {0, 1, 17, 18, 60, 61, 62}
   \<and> (nvkvm_ctrl_cmd_allowed cmd \<longleftrightarrow>
        bit cmd 15 \<or> unat cmd div 2 ^ 16 = 0x2081 \<or> cmd \<in> set nvkvm_ctrl_allowlist)"
  using legacy_mask [of cmd] binapi_class [of cmd]
  by (simp_all add: nvkvm_ctrl_cmd_allowed_def list_ex_iff fe_denied class_denied drm_denied [simplified] nvkms_denied)

end
