(* ===== verification/IoctlGate.thy ===== *)
theory IoctlGate
  imports UvmIoctl Allowlists
begin

text \<open>
  The whole of \<open>nvkvm_req_ioctl_on_isolate\<close> (\<open>qemu/nvkvm_isolate_handlers.c\<close>): the UVM branch
  of \<open>UvmIoctl\<close>, and for every other handle the default-deny gates, the rewriting of process ids
  in GET_PID_INFO, the forwarding to the isolate, the upkeep of the list of RM clients of this VM,
  and the share grant that follows a successful allocation.

  The isolate (its stub process and the driver behind it) is a parameter that answers a forwarded
  call with a return value, a driver status and the buffers it leaves; so are the host pid of an
  isolate, before and after the call, and the memory accounting of the host driver.
\<close>

section \<open>State and forwarded calls\<close>

record nv_dev =
  nv_handles :: handle_table
  nv_abi :: "nvkvm_abi_profile option"
  nv_graphics :: bool
  client_allow :: "u32 list"
  nv_uvm :: uvm_va_table

record iso_call =
  ic_isolate :: u32
  ic_handle :: u32
  ic_cmd :: u32
  ic_param :: "mem option"
  ic_param_size :: nat
  ic_aux :: "mem option"
  ic_aux_size :: nat
  ic_flags :: u32

record iso_result =
  ir_ret :: "errno + nat"
  ir_nvstatus :: u32
  ir_fault :: u64
  ir_param :: mem
  ir_aux :: mem

abbreviation NV_ESC_RM_ALLOC_MEMORY :: u32 where "NV_ESC_RM_ALLOC_MEMORY \<equiv> 0x27"
abbreviation NV_ESC_RM_FREE :: u32 where "NV_ESC_RM_FREE \<equiv> 0x29"
abbreviation NV_ESC_RM_CONTROL :: u32 where "NV_ESC_RM_CONTROL \<equiv> 0x2a"
abbreviation NV_ESC_RM_ALLOC :: u32 where "NV_ESC_RM_ALLOC \<equiv> 0x2b"
abbreviation NV_ESC_RM_DUP_OBJECT :: u32 where "NV_ESC_RM_DUP_OBJECT \<equiv> 0x34"
abbreviation TYPE_F :: u32 where "TYPE_F \<equiv> 0x46"
abbreviation TYPE_d :: u32 where "TYPE_d \<equiv> 0x64"
abbreviation NVKVM_NVKMS_IOCTL_CMD :: u32 where "NVKVM_NVKMS_IOCTL_CMD \<equiv> 0xC0106D00"

definition NVKVM_CLIENT_ALLOWLIST_MAX :: nat where
  "NVKVM_CLIENT_ALLOWLIST_MAX = 8192"

text \<open>A buffer of at least \<open>k\<close> bytes, and a word of it.\<close>

definition has_bytes :: "mem option \<Rightarrow> nat \<Rightarrow> nat \<Rightarrow> bool" where
  "has_bytes pb n k \<longleftrightarrow> pb \<noteq> None \<and> n \<ge> k"

definition word_at :: "mem option \<Rightarrow> nat \<Rightarrow> u32" where
  "word_at pb off = (case pb of None \<Rightarrow> 0 | Some p \<Rightarrow> ld32 p off)"

section \<open>The list of RM clients\<close>

definition nvkvm_client_allow_add :: "u32 \<Rightarrow> u32 list \<Rightarrow> u32 list" where
  "nvkvm_client_allow_add hc cs =
    (if hc = 0 \<or> hc = -1 then cs
     else if list_ex (\<lambda>c. c = hc) cs then cs
     else if length cs < NVKVM_CLIENT_ALLOWLIST_MAX then cs @ [hc]
     else cs)"

definition nvkvm_client_allow_has :: "u32 \<Rightarrow> u32 list \<Rightarrow> bool" where
  "nvkvm_client_allow_has hc cs = list_ex (\<lambda>c. c = hc) cs"

section \<open>The gates\<close>

definition gate_graphics :: "nv_dev \<Rightarrow> ioctl_req \<Rightarrow> ioctl_resp option" where
  "gate_graphics nv req =
    (if \<not> nv_graphics nv \<and> (IOC_TYPE (rq_cmd req) = TYPE_d \<or> rq_cmd req = NVKVM_NVKMS_IOCTL_CMD)
     then Some (deny EPERM 0x56) else None)"

definition gate_type :: "ioctl_req \<Rightarrow> mem option \<Rightarrow> ioctl_resp option" where
  "gate_type req pb =
    (if IOC_TYPE (rq_cmd req) = TYPE_d then
       (if \<not> nvkvm_drm_nr_allowed (IOC_NR (rq_cmd req)) then Some (deny EACCES 0x56) else None)
     else if rq_cmd req = NVKVM_NVKMS_IOCTL_CMD then
       (let nvkms_cmd = (if has_bytes pb (rq_param_size req) 4 then word_at pb 0 else 0xffffffff) in
        if \<not> nvkvm_nvkms_cmd_allowed nvkms_cmd then Some (deny EACCES 0x56) else None)
     else if IOC_TYPE (rq_cmd req) \<noteq> TYPE_F then Some (deny EPERM 0x56)
     else None)"

definition gate_frontend :: "ioctl_req \<Rightarrow> mem option \<Rightarrow> ioctl_resp option" where
  "gate_frontend req pb =
    (if IOC_TYPE (rq_cmd req) = TYPE_F then
       (let nr = IOC_NR (rq_cmd req) in
        if \<not> nvkvm_fe_nr_allowed nr then Some (deny EACCES 0x56)
        else if nr = 0x4a
             \<and> (if has_bytes pb (rq_param_size req) 12 then word_at pb 8 else 0xffffffff) \<noteq> 2
        then Some (deny EACCES 0x56)
        else if nr = 0x2b \<and> has_bytes pb (rq_param_size req) 16 \<and> \<not> nvkvm_alloc_class_allowed (word_at pb 12)
        then Some (deny EACCES 0x56)
        else None)
     else None)"

definition gate_control :: "ioctl_req \<Rightarrow> mem option \<Rightarrow> ioctl_resp option" where
  "gate_control req pb =
    (if IOC_TYPE (rq_cmd req) = TYPE_F \<and> IOC_NR (rq_cmd req) = NV_ESC_RM_CONTROL
        \<and> has_bytes pb (rq_param_size req) 12
        \<and> (\<not> nvkvm_ctrl_cmd_allowed (word_at pb 8) \<or> rq_aux_size req > 2 ^ 20)
     then Some (deny EACCES 0x56) else None)"

definition gate_dup :: "nv_dev \<Rightarrow> ioctl_req \<Rightarrow> mem option \<Rightarrow> ioctl_resp option" where
  "gate_dup nv req pb =
    (if IOC_TYPE (rq_cmd req) = TYPE_F \<and> IOC_NR (rq_cmd req) = NV_ESC_RM_DUP_OBJECT
        \<and> has_bytes pb (rq_param_size req) 16
        \<and> word_at pb 12 \<noteq> 0 \<and> word_at pb 12 \<noteq> -1
        \<and> \<not> nvkvm_client_allow_has (word_at pb 12) (client_allow nv)
     then Some (deny EACCES 0x1f) else None)"

definition hclient_at_0 :: "u32 \<Rightarrow> bool" where
  "hclient_at_0 nr \<longleftrightarrow> nr \<in> {NV_ESC_RM_ALLOC, NV_ESC_RM_ALLOC_MEMORY, NV_ESC_RM_CONTROL, NV_ESC_RM_FREE,
     NV_ESC_RM_DUP_OBJECT, 0x35, 0x4e, 0x4f, 0x57, 0x58, 0x4a}"

definition is_root_alloc :: "ioctl_req \<Rightarrow> mem option \<Rightarrow> bool" where
  "is_root_alloc req pb \<longleftrightarrow>
     IOC_NR (rq_cmd req) = NV_ESC_RM_ALLOC \<and> rq_param_size req \<ge> 16
     \<and> (word_at pb 12 = 0 \<or> word_at pb 12 = 0x41)
     \<and> (word_at pb 8 = word_at pb 0 \<or> word_at pb 0 = 0)"

definition gate_client :: "nv_dev \<Rightarrow> ioctl_req \<Rightarrow> mem option \<Rightarrow> ioctl_resp option" where
  "gate_client nv req pb =
    (if IOC_TYPE (rq_cmd req) = TYPE_F \<and> has_bytes pb (rq_param_size req) 4 \<and> length (client_allow nv) > 0
        \<and> hclient_at_0 (IOC_NR (rq_cmd req)) \<and> \<not> is_root_alloc req pb
        \<and> word_at pb 0 \<noteq> 0 \<and> word_at pb 0 \<noteq> -1
        \<and> \<not> nvkvm_client_allow_has (word_at pb 0) (client_allow nv)
     then Some (deny EACCES 0x1f) else None)"

fun first_denial :: "'a option list \<Rightarrow> 'a option" where
  "first_denial [] = None"
| "first_denial (None # gs) = first_denial gs"
| "first_denial (Some r # gs) = Some r"

definition ioctl_gates :: "nv_dev \<Rightarrow> ioctl_req \<Rightarrow> mem option \<Rightarrow> ioctl_resp option" where
  "ioctl_gates nv req pb = first_denial
     [gate_graphics nv req, gate_type req pb, gate_frontend req pb, gate_control req pb,
      gate_dup nv req pb, gate_client nv req pb]"

section \<open>GET_PID_INFO\<close>

definition NVKVM_PIDINFO_STRIDE :: nat where
  "NVKVM_PIDINFO_STRIDE = 72"

definition pid_off :: "nat \<Rightarrow> nat" where
  "pid_off i = 8 + i * NVKVM_PIDINFO_STRIDE"

text \<open>\<open>host_pid\<close> is the pid of a live isolate of this VM, or 0.  A tagged entry becomes the pid
  of the isolate it names; every other entry becomes 0.\<close>

definition pid_of_entry :: "(u32 \<Rightarrow> int) \<Rightarrow> u32 \<Rightarrow> u32 \<times> u32" where
  "pid_of_entry host_pid v =
    (if v AND 0x80000000 \<noteq> 0 then
       (let isol = v AND 0x7fffffff; hp = host_pid isol in if hp > 0 then (of_int hp, isol) else (0, 0))
     else (0, 0))"

fun gpi_loop :: "(u32 \<Rightarrow> int) \<Rightarrow> nat \<Rightarrow> nat \<Rightarrow> nat \<Rightarrow> mem \<Rightarrow> u32 list \<times> mem" where
  "gpi_loop host_pid aux_size i 0 aux = ([], aux)"
| "gpi_loop host_pid aux_size i (Suc k) aux =
    (if pid_off i + NVKVM_PIDINFO_STRIDE > aux_size then ([], aux)
     else let (repl, isol) = pid_of_entry host_pid (ld32 aux (pid_off i));
              (isos, aux') = gpi_loop host_pid aux_size (i + 1) k (st32 aux (pid_off i) repl)
          in (isol # isos, aux'))"

text \<open>The result is \<open>None\<close> when the call is not GET_PID_INFO, and otherwise the isolate of each
  entry looked at (0 for none), together with the auxiliary buffer to forward.\<close>

definition gpi_prepare ::
  "(u32 \<Rightarrow> int) \<Rightarrow> ioctl_req \<Rightarrow> mem option \<Rightarrow> mem option \<Rightarrow> u32 list option \<times> mem option" where
  "gpi_prepare host_pid req pb ab =
    (if IOC_TYPE (rq_cmd req) = TYPE_F \<and> IOC_NR (rq_cmd req) = NV_ESC_RM_CONTROL
        \<and> has_bytes pb (rq_param_size req) 12
        \<and> has_bytes ab (rq_aux_size req) (8 + NVKVM_PIDINFO_STRIDE)
        \<and> word_at pb 8 = 0x2080018e
     then (case ab of
             None \<Rightarrow> (None, ab)
           | Some aux \<Rightarrow>
               let count = (if unat (ld32 aux 0) > 200 then 200 else unat (ld32 aux 0));
                   (isos, aux') = gpi_loop host_pid (rq_aux_size req) 0 count aux
               in (Some isos, Some aux'))
     else (None, ab))"

text \<open>\<open>admin_mem\<close> is the accounting of the host driver for a process and a metric: whether any
  task was found, and the bytes.\<close>

fun gpi_fixup :: "(u32 \<Rightarrow> int) \<Rightarrow> (int \<Rightarrow> u32 \<Rightarrow> bool \<times> u64) \<Rightarrow> nat \<Rightarrow> u32 list \<Rightarrow> mem \<Rightarrow> mem" where
  "gpi_fixup host_pid admin_mem i [] aux = aux"
| "gpi_fixup host_pid admin_mem i (isol # isos) aux =
    (if isol = 0 \<or> host_pid isol \<le> 0 then gpi_fixup host_pid admin_mem (i + 1) isos aux
     else let (any, total) = admin_mem (host_pid isol) (ld32 aux (pid_off i + 4));
              result = (if any then 0 else 0xffff)
          in gpi_fixup host_pid admin_mem (i + 1) isos
               (st64 (st32 aux (pid_off i + 8) result) (pid_off i + 16) total))"

section \<open>After the forward\<close>

definition record_clients :: "ioctl_req \<Rightarrow> mem option \<Rightarrow> u32 list \<Rightarrow> u32 list" where
  "record_clients req pb cs =
    (let nr = IOC_NR (rq_cmd req) in
     if IOC_TYPE (rq_cmd req) = TYPE_F \<and> has_bytes pb (rq_param_size req) 4
        \<and> nr \<in> {NV_ESC_RM_ALLOC, NV_ESC_RM_ALLOC_MEMORY, NV_ESC_RM_CONTROL, NV_ESC_RM_FREE,
                 NV_ESC_RM_DUP_OBJECT, 0x35}
     then (let cs1 = nvkvm_client_allow_add (word_at pb 0) cs in
           if nr = NV_ESC_RM_ALLOC \<and> rq_param_size req \<ge> 16 \<and> (word_at pb 12 = 0 \<or> word_at pb 12 = 0x41)
           then nvkvm_client_allow_add (word_at pb 8) cs1 else cs1)
     else cs)"

definition share_params :: "u32 \<Rightarrow> u32 \<Rightarrow> mem" where
  "share_params hClient hObject =
     st32 (st32 (st32 (st32 (st32 (st32 (\<lambda>_. 0) 0 hClient) 4 hObject) 8 0) 12 1) 16 1) 20 0"

definition share_call :: "ioctl_req \<Rightarrow> mem option \<Rightarrow> iso_call option" where
  "share_call req pb =
    (let nr = IOC_NR (rq_cmd req) in
     if IOC_TYPE (rq_cmd req) = TYPE_F \<and> (nr = NV_ESC_RM_ALLOC \<or> nr = NV_ESC_RM_ALLOC_MEMORY)
        \<and> has_bytes pb (rq_param_size req) 16
     then (let hClient = word_at pb 0; hObjNew = word_at pb 8;
               hClass = (if nr = NV_ESC_RM_ALLOC then word_at pb 12 else 0x40);
               is_client_obj = (hObjNew = hClient \<and> hClass = 0);
               needs_share = (\<not> is_client_obj \<and> hClass \<noteq> 0) in
           if needs_share \<and> hClient \<noteq> 0 \<and> hObjNew \<noteq> 0
           then Some \<lparr>ic_isolate = rq_isolate req, ic_handle = rq_handle req, ic_cmd = 0xc0184635,
                  ic_param = Some (share_params hClient hObjNew), ic_param_size = 24,
                  ic_aux = None, ic_aux_size = 0, ic_flags = 0\<rparr>
           else None)
     else None)"

section \<open>The handler\<close>

record ioctl_out =
  io_resp :: ioctl_resp
  io_param :: "mem option"
  io_aux :: "mem option"
  io_nv :: nv_dev
  io_fwd :: "iso_call list"
  io_uvm :: "uvm_call option"

record ioctl_env =
  env_dup :: "fd \<Rightarrow> fd"
  env_uvm :: uvm_driver
  env_stub :: "iso_call \<Rightarrow> iso_result"
  env_pid :: "u32 \<Rightarrow> int"
  env_pid_after :: "u32 \<Rightarrow> int"
  env_mem :: "int \<Rightarrow> u32 \<Rightarrow> bool \<times> u64"

definition fwd_resp :: "iso_result \<Rightarrow> ioctl_resp" where
  "fwd_resp r =
     \<lparr>rs_retval = (case ir_ret r of Inl e \<Rightarrow> Inl e | Inr n \<Rightarrow> Inr (of_nat n)),
      rs_status = (if ir_ret r = Inl EFAULT \<and> ir_fault r \<noteq> 0 then Some EFAULT else None),
      rs_nvstatus = ir_nvstatus r, rs_fault = ir_fault r\<rparr>"

definition forward_ioctl ::
  "ioctl_env \<Rightarrow> nv_dev \<Rightarrow> ioctl_req \<Rightarrow> mem option \<Rightarrow> mem option \<Rightarrow> ioctl_out" where
  "forward_ioctl env nv req pb ab =
    (let (gpi, ab1) = gpi_prepare (env_pid env) req pb ab;
         call = \<lparr>ic_isolate = rq_isolate req, ic_handle = rq_handle req, ic_cmd = rq_cmd req,
           ic_param = pb, ic_param_size = rq_param_size req,
           ic_aux = ab1, ic_aux_size = rq_aux_size req, ic_flags = rq_flags req\<rparr>;
         r = env_stub env call;
         pb2 = map_option (\<lambda>p. copy_back (rq_param_size req) (ir_param r) p) pb;
         ab2 = map_option (\<lambda>a. copy_back (rq_aux_size req) (ir_aux r) a) ab1;
         ab3 = (case gpi of
             Some isos \<Rightarrow> if ir_ret r = Inr 0 then map_option (gpi_fixup (env_pid_after env) (env_mem env) 0 isos) ab2 else ab2
           | None \<Rightarrow> ab2);
         success = (ir_ret r = Inr 0 \<and> ir_nvstatus r = 0);
         nv1 = (if success then nv\<lparr>client_allow := record_clients req pb2 (client_allow nv)\<rparr> else nv);
         sh = (if success then share_call req pb2 else None)
     in \<lparr>io_resp = fwd_resp r, io_param = pb2, io_aux = ab3, io_nv = nv1,
         io_fwd = call # (case sh of None \<Rightarrow> [] | Some c \<Rightarrow> [c]), io_uvm = None\<rparr>)"

definition nvkvm_req_ioctl_on_isolate ::
  "ioctl_env \<Rightarrow> nv_dev \<Rightarrow> ioctl_req \<Rightarrow> mem option \<Rightarrow> mem option \<Rightarrow> ioctl_out" where
  "nvkvm_req_ioctl_on_isolate env nv req pb ab =
    (if is_uvm_handle (nv_handles nv) (rq_handle req) then
       (let out = uvm_ioctl (nv_abi nv) (nv_handles nv) (env_dup env) (env_uvm env) req pb (nv_uvm nv)
        in \<lparr>io_resp = uo_resp out, io_param = uo_param out, io_aux = ab, io_nv = nv\<lparr>nv_uvm := uo_tbl out\<rparr>,
            io_fwd = [], io_uvm = uo_call out\<rparr>)
     else case ioctl_gates nv req pb of
       Some r \<Rightarrow> \<lparr>io_resp = r, io_param = pb, io_aux = ab, io_nv = nv, io_fwd = [], io_uvm = None\<rparr>
     | None \<Rightarrow> forward_ioctl env nv req pb ab)"

section \<open>What is forwarded\<close>

definition req_call :: "ioctl_req \<Rightarrow> mem option \<Rightarrow> mem option \<Rightarrow> iso_call" where
  "req_call req pb ab = \<lparr>ic_isolate = rq_isolate req, ic_handle = rq_handle req, ic_cmd = rq_cmd req,
     ic_param = pb, ic_param_size = rq_param_size req, ic_aux = ab, ic_aux_size = rq_aux_size req,
     ic_flags = rq_flags req\<rparr>"

text \<open>The policy on the command and its parameters.\<close>

definition static_policy :: "bool \<Rightarrow> iso_call \<Rightarrow> bool" where
  "static_policy graphics c \<longleftrightarrow>
    (let ty = IOC_TYPE (ic_cmd c); nr = IOC_NR (ic_cmd c); has = has_bytes (ic_param c) (ic_param_size c);
         w = word_at (ic_param c) in
     if ty = TYPE_d then graphics \<and> nvkvm_drm_nr_allowed nr
     else if ic_cmd c = NVKVM_NVKMS_IOCTL_CMD then graphics \<and> has 4 \<and> nvkvm_nvkms_cmd_allowed (w 0)
     else ty = TYPE_F \<and> nvkvm_fe_nr_allowed nr
       \<and> (nr = 0x4a \<longrightarrow> has 12 \<and> w 8 = 2)
       \<and> (nr = NV_ESC_RM_ALLOC \<longrightarrow> has 16 \<longrightarrow> nvkvm_alloc_class_allowed (w 12))
       \<and> (nr = NV_ESC_RM_CONTROL \<longrightarrow> has 12 \<longrightarrow> nvkvm_ctrl_cmd_allowed (w 8) \<and> ic_aux_size c \<le> 2 ^ 20))"

text \<open>The policy on the RM clients that a frontend call names.\<close>

definition client_policy :: "u32 list \<Rightarrow> ioctl_req \<Rightarrow> mem option \<Rightarrow> bool" where
  "client_policy cs req pb \<longleftrightarrow>
    (let nr = IOC_NR (rq_cmd req); has = has_bytes pb (rq_param_size req) in
     IOC_TYPE (rq_cmd req) = TYPE_F \<longrightarrow>
       (nr = NV_ESC_RM_DUP_OBJECT \<and> has 16 \<longrightarrow> word_at pb 12 \<in> {0, -1} \<union> set cs)
       \<and> (hclient_at_0 nr \<and> has 4 \<and> \<not> is_root_alloc req pb \<and> cs \<noteq> [] \<longrightarrow> word_at pb 0 \<in> {0, -1} \<union> set cs))"

lemma first_denial_None: "first_denial gs = None \<longleftrightarrow> (\<forall>g \<in> set gs. g = None)"
  by (induction gs rule: first_denial.induct) auto

lemma nvkms_type: "IOC_TYPE NVKVM_NVKMS_IOCTL_CMD = 0x6d"
  by (simp add: IOC_TYPE_def)

lemma nvkms_short_denied: "\<not> nvkvm_nvkms_cmd_allowed 0xffffffff"
  by (simp add: nvkvm_nvkms_cmd_allowed_def)

lemma static_gates_iff:
  "gate_graphics nv req = None \<and> gate_type req pb = None \<and> gate_frontend req pb = None
      \<and> gate_control req pb = None \<longleftrightarrow> static_policy (nv_graphics nv) (req_call req pb ab)"
proof -
  define has where "has = has_bytes pb (rq_param_size req)"
  consider (d) "IOC_TYPE (rq_cmd req) = TYPE_d" | (m) "rq_cmd req = NVKVM_NVKMS_IOCTL_CMD"
    | (f) "IOC_TYPE (rq_cmd req) \<noteq> TYPE_d" "rq_cmd req \<noteq> NVKVM_NVKMS_IOCTL_CMD" by blast
  then show ?thesis
  proof cases
    case d
    then show ?thesis
      by (simp add: gate_graphics_def gate_type_def gate_frontend_def gate_control_def static_policy_def
          req_call_def Let_def)
  next
    case m
    then show ?thesis using nvkms_short_denied
      by (cases "has 4") (simp_all add: gate_graphics_def gate_type_def gate_frontend_def gate_control_def
          static_policy_def req_call_def Let_def nvkms_type has_def)
  next
    case f
    then show ?thesis
      by (cases "has 12"; cases "has 16")
        (auto simp: gate_graphics_def gate_type_def gate_frontend_def gate_control_def
          static_policy_def req_call_def Let_def has_def not_le)
  qed
qed

lemma client_gates_iff:
  "gate_dup nv req pb = None \<and> gate_client nv req pb = None \<longleftrightarrow> client_policy (client_allow nv) req pb"
  unfolding gate_dup_def gate_client_def client_policy_def Let_def nvkvm_client_allow_has_def list_ex_iff
  by simp blast

lemma gates_pass_iff:
  "ioctl_gates nv req pb = None \<longleftrightarrow>
     static_policy (nv_graphics nv) (req_call req pb ab) \<and> client_policy (client_allow nv) req pb"
  using static_gates_iff client_gates_iff by (simp add: ioctl_gates_def first_denial_None)

lemma share_call_policy: "share_call req pb = Some c \<Longrightarrow> static_policy g c"
  by (auto simp: share_call_def Let_def static_policy_def IOC_TYPE_def IOC_NR_def nvkvm_fe_nr_allowed_def
      nvkvm_fe_nr_allowlist_def split: if_splits)

lemma forward_calls:
  "\<exists>ab1 sh. io_fwd (forward_ioctl env nv req pb ab) = req_call req pb ab1 # sh
     \<and> ab1 = snd (gpi_prepare (env_pid env) req pb ab)
     \<and> (\<forall>c \<in> set sh. \<forall>g. static_policy g c)"
  by (auto simp: forward_ioctl_def req_call_def Let_def split_beta share_call_policy split: option.split)

text \<open>C11: Default deny.  A request on a handle that is not a UVM handle is forwarded to the
  isolate exactly when its command and parameters satisfy the static policy (DRM and NVKMS only with
  graphics enabled and from their lists; frontend calls from the list, heap control only for plain
  allocation, allocation classes and control commands from their lists with at most 1 MiB of
  auxiliary data) and the clients it names satisfy the client policy; a request on a UVM handle is
  never forwarded.  Every call the isolate receives, the share grant that the handler adds after
  an allocation included, satisfies the static policy.\<close>

theorem ioctl_default_deny:
  assumes "out = nvkvm_req_ioctl_on_isolate env nv req pb ab"
  shows "(io_fwd out \<noteq> [] \<longleftrightarrow> \<not> is_uvm_handle (nv_handles nv) (rq_handle req)
       \<and> static_policy (nv_graphics nv) (req_call req pb ab) \<and> client_policy (client_allow nv) req pb)
     \<and> (\<forall>c \<in> set (io_fwd out). static_policy (nv_graphics nv) c)"
proof -
  have same: "static_policy g (req_call req pb ab1) = static_policy g (req_call req pb ab)" for g ab1
    by (simp add: static_policy_def req_call_def)
  show ?thesis
    using gates_pass_iff [of nv req pb ab] forward_calls [of env nv req pb ab] same
    by (auto simp: assms nvkvm_req_ioctl_on_isolate_def Let_def split: option.split) metis+
qed

text \<open>A concrete device without graphics whose stub answers every call with success and leaves
  the buffers as they are, and frontend requests on an isolate-side handle.\<close>

definition ex_stub :: "iso_call \<Rightarrow> iso_result" where
  "ex_stub c = \<lparr>ir_ret = Inr 0, ir_nvstatus = 0, ir_fault = 0,
     ir_param = (case ic_param c of Some p \<Rightarrow> p | None \<Rightarrow> (\<lambda>_. 0)),
     ir_aux = (case ic_aux c of Some a \<Rightarrow> a | None \<Rightarrow> (\<lambda>_. 0))\<rparr>"

definition ex_env :: ioctl_env where
  "ex_env = \<lparr>env_dup = id, env_uvm = ex_drv, env_stub = ex_stub,
     env_pid = (\<lambda>i. if i = 5 then 4711 else 0), env_pid_after = (\<lambda>i. if i = 5 then 4711 else 0),
     env_mem = (\<lambda>_ _. (True, 4096))\<rparr>"

definition ex_nv :: "u32 list \<Rightarrow> nv_dev" where
  "ex_nv cs = \<lparr>nv_handles = nvkvm_handle_table_init, nv_abi = None, nv_graphics = False,
     client_allow = cs, nv_uvm = uvm_va_init\<rparr>"

definition ex_fe :: "u32 \<Rightarrow> nat \<Rightarrow> nat \<Rightarrow> ioctl_req" where
  "ex_fe nr n na = \<lparr>rq_isolate = 5, rq_handle = 2, rq_cmd = 0xc0004600 + nr, rq_param_size = n,
     rq_aux_size = na, rq_flags = 0\<rparr>"

definition ex_words :: "u32 \<Rightarrow> u32 \<Rightarrow> u32 \<Rightarrow> u32 \<Rightarrow> mem" where
  "ex_words a b c d = st32 (st32 (st32 (st32 (\<lambda>_. 0) 0 a) 4 b) 8 c) 12 d"

lemma ex_words_ld [simp]:
  "ld32 (ex_words a b c d) 0 = a" "ld32 (ex_words a b c d) 4 = b" "ld32 (ex_words a b c d) 8 = c"
  "ld32 (ex_words a b c d) 12 = d"
  by (simp_all add: ex_words_def mem_simps)

lemma ex_not_uvm: "\<not> is_uvm_handle (nv_handles (ex_nv cs)) 2"
  by (simp add: is_uvm_handle_def ex_nv_def nvkvm_handle_table_init_def nvkvm_handle_get_def stale_def slot_of_def
      zero_handle_def bad_id_def)

lemmas ex_gate_eval = req_call_def static_policy_def client_policy_def ex_fe_def ex_nv_def has_bytes_def
  word_at_def IOC_TYPE_def IOC_NR_def Let_def hclient_at_0_def is_root_alloc_def

theorem ioctl_default_deny_witness:
  "io_fwd (nvkvm_req_ioctl_on_isolate ex_env (ex_nv []) (ex_fe 0x4a 16 0) (Some (ex_words 1 2 2 0)) None) \<noteq> []
   \<and> io_fwd (nvkvm_req_ioctl_on_isolate ex_env (ex_nv []) (ex_fe 0x4a 16 0) (Some (ex_words 1 2 27 0)) None) = []"
proof -
  have "nvkvm_fe_nr_allowed 0x4a" by (simp add: nvkvm_fe_nr_allowed_def nvkvm_fe_nr_allowlist_def)
  then show ?thesis
    using ioctl_default_deny [OF refl, of ex_env "ex_nv []" "ex_fe 0x4a 16 0" "Some (ex_words 1 2 2 0)" None]
      ioctl_default_deny [OF refl, of ex_env "ex_nv []" "ex_fe 0x4a 16 0" "Some (ex_words 1 2 27 0)" None]
      ex_not_uvm [of "[]"]
    by (simp add: ex_gate_eval)
qed

section \<open>The RM clients of this VM\<close>

lemma client_allow_add_set:
  "set (nvkvm_client_allow_add hc cs) \<subseteq> insert hc (set cs)"
  "set cs \<subseteq> set (nvkvm_client_allow_add hc cs)"
  by (auto simp: nvkvm_client_allow_add_def)

definition client_inv :: "u32 list \<Rightarrow> bool" where
  "client_inv cs \<longleftrightarrow> distinct cs \<and> length cs \<le> NVKVM_CLIENT_ALLOWLIST_MAX \<and> 0 \<notin> set cs \<and> -1 \<notin> set cs"

lemma client_allow_add_inv: "client_inv cs \<Longrightarrow> client_inv (nvkvm_client_allow_add hc cs)"
  by (auto simp: client_inv_def nvkvm_client_allow_add_def list_ex_iff)

lemma record_clients_inv: "client_inv cs \<Longrightarrow> client_inv (record_clients req pb cs)"
  by (simp add: record_clients_def Let_def client_allow_add_inv)

text \<open>The clients that a request proves to belong to this VM: those that the buffer names after
  the isolate has answered with success, as the owner or as a new root client.\<close>

definition vouched :: "ioctl_req \<Rightarrow> ioctl_out \<Rightarrow> u32 set" where
  "vouched req out =
    (if io_fwd out \<noteq> [] \<and> rs_retval (io_resp out) = Inr 0 \<and> rs_nvstatus (io_resp out) = 0
     then {word_at (io_param out) 0}
        \<union> (if IOC_NR (rq_cmd req) = NV_ESC_RM_ALLOC \<and> word_at (io_param out) 12 \<in> {0, 0x41}
           then {word_at (io_param out) 8} else {})
     else {})"

inductive client_reach :: "u32 set \<Rightarrow> nv_dev \<Rightarrow> bool" where
  client_start: "client_allow nv = [] \<Longrightarrow> client_reach {} nv"
| client_step: "client_reach V nv \<Longrightarrow> out = nvkvm_req_ioctl_on_isolate env nv req pb ab
    \<Longrightarrow> client_reach (V \<union> vouched req out) (io_nv out)"

lemma record_clients_vouched:
  "set (record_clients req pb cs) \<subseteq> set cs \<union> {word_at pb 0}
     \<union> (if IOC_NR (rq_cmd req) = NV_ESC_RM_ALLOC \<and> word_at pb 12 \<in> {0, 0x41} then {word_at pb 8} else {})"
  using client_allow_add_set(1)
  by (simp add: record_clients_def Let_def) (blast dest: subsetD [OF client_allow_add_set(1)])

definition stub_answer :: "ioctl_env \<Rightarrow> ioctl_req \<Rightarrow> mem option \<Rightarrow> mem option \<Rightarrow> iso_result" where
  "stub_answer env req pb ab = env_stub env (req_call req pb (snd (gpi_prepare (env_pid env) req pb ab)))"

lemma forward_fields:
  "io_resp (forward_ioctl env nv req pb ab) = fwd_resp (stub_answer env req pb ab)"
  "io_param (forward_ioctl env nv req pb ab)
     = map_option (copy_back (rq_param_size req) (ir_param (stub_answer env req pb ab))) pb"
  "client_allow (io_nv (forward_ioctl env nv req pb ab)) =
     (if ir_ret (stub_answer env req pb ab) = Inr 0 \<and> ir_nvstatus (stub_answer env req pb ab) = 0
      then record_clients req (io_param (forward_ioctl env nv req pb ab)) (client_allow nv)
      else client_allow nv)"
  by (simp_all add: forward_ioctl_def Let_def split_beta stub_answer_def req_call_def)

lemma ioctl_clients:
  assumes "out = nvkvm_req_ioctl_on_isolate env nv req pb ab"
  shows "set (client_allow (io_nv out)) \<subseteq> set (client_allow nv) \<union> vouched req out"
    and "client_inv (client_allow nv) \<Longrightarrow> client_inv (client_allow (io_nv out))"
proof -
  let ?f = "forward_ioctl env nv req pb ab" and ?r = "stub_answer env req pb ab"
  have "set (client_allow (io_nv ?f)) \<subseteq> set (client_allow nv) \<union> vouched req ?f"
  proof (cases "ir_ret ?r = Inr 0 \<and> ir_nvstatus ?r = 0")
    case True
    have "io_fwd ?f \<noteq> []" using forward_calls [of env nv req pb ab] by auto
    with True show ?thesis
      using record_clients_vouched [of req "io_param ?f" "client_allow nv"]
      by (simp add: forward_fields(1,3) vouched_def fwd_resp_def)
  qed (auto simp: forward_fields(3))
  then show "set (client_allow (io_nv out)) \<subseteq> set (client_allow nv) \<union> vouched req out"
    by (simp add: assms nvkvm_req_ioctl_on_isolate_def Let_def split: option.split)
  show "client_inv (client_allow (io_nv out))" if "client_inv (client_allow nv)"
    using that record_clients_inv
    by (simp add: assms nvkvm_req_ioctl_on_isolate_def Let_def forward_fields(3) split: option.split)
qed

lemma client_reach_inv:
  "client_reach V nv \<Longrightarrow> set (client_allow nv) \<subseteq> V \<and> client_inv (client_allow nv)"
proof (induction rule: client_reach.induct)
  case (client_start nv)
  then show ?case by (simp add: client_inv_def)
next
  case (client_step V nv out env req pb ab)
  then show ?case using ioctl_clients [OF client_step.hyps(2)] by blast
qed


lemma copy_back_self [simp]: "copy_back n p p = p"
  by (auto simp: copy_back_def)

lemma ex_stub_answer:
  "stub_answer ex_env req (Some p) ab = \<lparr>ir_ret = Inr 0, ir_nvstatus = 0, ir_fault = 0, ir_param = p,
     ir_aux = (case snd (gpi_prepare (env_pid ex_env) req (Some p) ab) of Some a \<Rightarrow> a | None \<Rightarrow> (\<lambda>_. 0))\<rparr>"
  by (simp add: stub_answer_def ex_env_def ex_stub_def req_call_def)

lemma ex_forward:
  assumes "rq_handle req = 2" and "static_policy False (req_call req (Some p) ab)" and "client_policy cs req (Some p)"
  shows "nvkvm_req_ioctl_on_isolate ex_env (ex_nv cs) req (Some p) ab = forward_ioctl ex_env (ex_nv cs) req (Some p) ab"
  using assms gates_pass_iff [of "ex_nv cs" req "Some p" ab] ex_not_uvm [of cs]
  by (simp add: nvkvm_req_ioctl_on_isolate_def) (simp add: ex_nv_def)

lemma ex_fe_allowed: "nvkvm_fe_nr_allowed 0x2b" "nvkvm_fe_nr_allowed 0x2a" "nvkvm_fe_nr_allowed 0x29"
  "nvkvm_alloc_class_allowed 0x41" "nvkvm_ctrl_cmd_allowed 0x101" "nvkvm_ctrl_cmd_allowed 0x2080018e"
  by (simp_all add: nvkvm_fe_nr_allowed_def nvkvm_fe_nr_allowlist_def nvkvm_alloc_class_allowed_def
      nvkvm_alloc_class_allowlist_def nvkvm_ctrl_cmd_allowed_def nvkvm_ctrl_allowlist_def)

text \<open>The first call of a VM creates the root client 7; the second is a control call of client 7.\<close>

definition ex_root :: ioctl_out where
  "ex_root = nvkvm_req_ioctl_on_isolate ex_env (ex_nv []) (ex_fe 0x2b 32 0) (Some (ex_words 0 0 7 0x41)) None"

lemma ex_root_eq: "ex_root = forward_ioctl ex_env (ex_nv []) (ex_fe 0x2b 32 0) (Some (ex_words 0 0 7 0x41)) None"
  unfolding ex_root_def by (rule ex_forward) (simp_all add: ex_gate_eval ex_fe_allowed)

lemma ex_root_clients: "client_allow (io_nv ex_root) = [7]" "io_param ex_root = Some (ex_words 0 0 7 0x41)"
  by (simp_all add: ex_root_eq forward_fields ex_stub_answer)
    (simp add: record_clients_def ex_gate_eval nvkvm_client_allow_add_def NVKVM_CLIENT_ALLOWLIST_MAX_def)

lemma ex_root_vouched: "vouched (ex_fe 0x2b 32 0) ex_root \<subseteq> {0, 7}"
  by (simp add: vouched_def ex_root_clients word_at_def)


text \<open>The client gate is open until the first client is recorded.  On a device whose list is
  empty, a free of an object of any RM client whatsoever is forwarded to the isolate; if the driver
  accepts it, that client is recorded as one of this VM's.\<close>

lemma client_gate_open_when_empty:
  assumes empty: "client_allow nv = []" and nu: "\<not> is_uvm_handle (nv_handles nv) (rq_handle req)"
    and cmd: "IOC_TYPE (rq_cmd req) = TYPE_F" "IOC_NR (rq_cmd req) = NV_ESC_RM_FREE"
    and hc: "hc \<noteq> 0" "hc \<noteq> -1" "rq_param_size req \<ge> 4" "ld32 p 0 = hc"
    and accepted: "ir_ret (stub_answer env req (Some p) ab) = Inr 0"
      "ir_nvstatus (stub_answer env req (Some p) ab) = 0" "ld32 (ir_param (stub_answer env req (Some p) ab)) 0 = hc"
  shows "(\<exists>c. io_fwd (nvkvm_req_ioctl_on_isolate env nv req (Some p) ab) = [c] \<and> word_at (ic_param c) 0 = hc)
     \<and> client_allow (io_nv (nvkvm_req_ioctl_on_isolate env nv req (Some p) ab)) = [hc]"
proof -
  let ?f = "forward_ioctl env nv req (Some p) ab"
  have "rq_cmd req \<noteq> NVKVM_NVKMS_IOCTL_CMD" using cmd(1) nvkms_type by auto
  then have "ioctl_gates nv req (Some p) = None"
    using gates_pass_iff [of nv req "Some p" ab] cmd empty
    by (simp add: static_policy_def client_policy_def req_call_def Let_def ex_fe_allowed)
  then have eq: "nvkvm_req_ioctl_on_isolate env nv req (Some p) ab = ?f"
    using nu by (simp add: nvkvm_req_ioctl_on_isolate_def)
  have w: "word_at (io_param ?f) 0 = hc"
  proof -
    have "ld32 (copy_back (rq_param_size req) q p) 0 = ld32 q 0" for q
      by (rule ld32_cong) (use hc(3) in \<open>simp add: copy_back_def\<close>)
    then show ?thesis by (simp add: forward_fields word_at_def accepted)
  qed
  have "\<exists>c. io_fwd ?f = [c] \<and> word_at (ic_param c) 0 = hc"
    using cmd hc(4) by (simp add: forward_ioctl_def Let_def split_beta share_call_def word_at_def)
  moreover have "client_allow (io_nv ?f) = [hc]"
    using accepted empty cmd hc w
    by (simp add: forward_fields(3)) (simp add: forward_fields(2) record_clients_def has_bytes_def
        nvkvm_client_allow_add_def NVKVM_CLIENT_ALLOWLIST_MAX_def)
  ultimately show ?thesis by (simp add: eq)
qed

section \<open>Process ids\<close>

definition managed_pid :: "(u32 \<Rightarrow> int) \<Rightarrow> u32 \<Rightarrow> bool" where
  "managed_pid host_pid v \<longleftrightarrow> v = 0 \<or> (\<exists>isol. host_pid isol > 0 \<and> v = of_int (host_pid isol))"

lemma pid_of_entry_managed: "managed_pid host_pid (fst (pid_of_entry host_pid v))"
  by (auto simp: pid_of_entry_def managed_pid_def Let_def)

lemma pid_off_mono: "i < j \<Longrightarrow> pid_off i + NVKVM_PIDINFO_STRIDE \<le> pid_off j"
  using mult_le_mono1 [of "Suc i" j NVKVM_PIDINFO_STRIDE] by (simp add: pid_off_def)

lemma gpi_loop_frame:
  "gpi_loop host_pid n i k aux = (isos, aux') \<Longrightarrow> a < pid_off i \<or> n \<le> a \<Longrightarrow> aux' a = aux a"
proof (induction k arbitrary: i aux isos)
  case (Suc k)
  show ?case
  proof (cases "pid_off i + NVKVM_PIDINFO_STRIDE > n")
    case False
    let ?aux = "st32 aux (pid_off i) (fst (pid_of_entry host_pid (ld32 aux (pid_off i))))"
    obtain js where r: "gpi_loop host_pid n (i + 1) k ?aux = (js, aux')"
      using Suc.prems(1) False by (auto simp: split_beta Let_def prod_eq_iff)
    have "aux' a = ?aux a"
      by (rule Suc.IH [OF r]) (use Suc.prems(2) pid_off_mono [of i "i + 1"] in auto)
    also have "?aux a = aux a"
      by (rule st32_frame) (use Suc.prems(2) False in \<open>auto simp: NVKVM_PIDINFO_STRIDE_def\<close>)
    finally show ?thesis .
  qed (use Suc.prems in simp)
qed simp

lemma gpi_loop_managed:
  "gpi_loop host_pid n i k aux = (isos, aux') \<Longrightarrow> j < k \<Longrightarrow> pid_off (i + j) + NVKVM_PIDINFO_STRIDE \<le> n
     \<Longrightarrow> managed_pid host_pid (ld32 aux' (pid_off (i + j)))"
proof (induction k arbitrary: i j aux isos)
  case (Suc k)
  have fit: "pid_off i + NVKVM_PIDINFO_STRIDE \<le> n"
    using Suc.prems(3) pid_off_mono [of i "i + j"] by (cases j) auto
  let ?v = "fst (pid_of_entry host_pid (ld32 aux (pid_off i)))"
  obtain js where r: "gpi_loop host_pid n (i + 1) k (st32 aux (pid_off i) ?v) = (js, aux')"
    using Suc.prems(1) fit by (auto simp: split_beta Let_def prod_eq_iff)
  show ?case
  proof (cases j)
    case 0
    have "ld32 aux' (pid_off i) = ld32 (st32 aux (pid_off i) ?v) (pid_off i)"
      by (rule ld32_cong) (rule gpi_loop_frame [OF r],
        use pid_off_mono [of i "i + 1"] in \<open>simp add: NVKVM_PIDINFO_STRIDE_def\<close>)
    then show ?thesis using pid_of_entry_managed 0 by (simp add: mem_simps)
  next
    case (Suc j')
    then show ?thesis using Suc.IH [OF r, of j'] Suc.prems by simp
  qed
qed simp

lemma gpi_loop_fit:
  "gpi_loop host_pid n i k aux = (isos, aux') \<Longrightarrow> j < length isos \<Longrightarrow> pid_off (i + j) + NVKVM_PIDINFO_STRIDE \<le> n"
proof (induction k arbitrary: i j aux isos)
  case (Suc k)
  obtain isol js v where r: "gpi_loop host_pid n (i + 1) k v = (js, aux')" "isos = isol # js"
      "pid_off i + NVKVM_PIDINFO_STRIDE \<le> n"
    using Suc.prems by (auto simp: split_beta Let_def prod_eq_iff split: if_splits)
  show ?case using Suc.IH [OF r(1), of "j - 1"] Suc.prems(2) r(2,3) by (cases j) auto
qed simp

lemma gpi_fixup_frame:
  assumes "\<And>j. j < length isos \<Longrightarrow> pid_off (i + j) + NVKVM_PIDINFO_STRIDE \<le> n" and "n \<le> a"
  shows "gpi_fixup host_pid admin_mem i isos aux a = aux a"
  using assms
proof (induction isos arbitrary: i aux)
  case (Cons isol isos)
  have IH: "gpi_fixup host_pid admin_mem (i + 1) isos m a = m a" for m
    by (rule Cons.IH) (use Cons.prems(1) [of "Suc _"] Cons.prems(2) in auto)
  have "pid_off i + NVKVM_PIDINFO_STRIDE \<le> n" using Cons.prems(1) [of 0] by simp
  then show ?case using Cons.prems(2) IH
    by (simp add: split_beta Let_def mem_simps NVKVM_PIDINFO_STRIDE_def)
qed simp

definition is_get_pid_info :: "ioctl_req \<Rightarrow> mem option \<Rightarrow> bool" where
  "is_get_pid_info req pb \<longleftrightarrow> IOC_TYPE (rq_cmd req) = TYPE_F \<and> IOC_NR (rq_cmd req) = NV_ESC_RM_CONTROL
     \<and> has_bytes pb (rq_param_size req) 12 \<and> word_at pb 8 = 0x2080018e"

lemma gpi_prepare_active:
  assumes "is_get_pid_info req pb" and "rq_aux_size req \<ge> 8 + NVKVM_PIDINFO_STRIDE"
  shows "gpi_prepare host_pid req pb (Some aux) =
    (let (isos, aux') = gpi_loop host_pid (rq_aux_size req) 0 (min 200 (unat (ld32 aux 0))) aux
     in (Some isos, Some aux'))"
  using assms by (simp add: gpi_prepare_def is_get_pid_info_def has_bytes_def Let_def min_def)

text \<open>C13: A GET_PID_INFO request never carries a process id of the guest's choosing in an entry
  the handler screens: in every entry below the count (and below 200) that lies inside the auxiliary
  buffer, the pid forwarded to the isolate is 0 or the host pid of a live isolate of this VM.  The
  rewriting before the call and the accounting written after it stay inside the buffer.\<close>

theorem get_pid_info_managed:
  assumes gpi: "is_get_pid_info req pb" "rq_aux_size req \<ge> 8 + NVKVM_PIDINFO_STRIDE"
    and fwd: "io_fwd (nvkvm_req_ioctl_on_isolate env nv req pb (Some aux)) = c # cs"
    and i: "i < unat (ld32 aux 0)" "i < 200" "pid_off i + NVKVM_PIDINFO_STRIDE \<le> rq_aux_size req"
  shows "(\<exists>aux'. ic_aux c = Some aux' \<and> managed_pid (env_pid env) (ld32 aux' (pid_off i))
            \<and> (\<forall>a \<ge> rq_aux_size req. aux' a = aux a))
     \<and> (\<exists>aux''. io_aux (nvkvm_req_ioctl_on_isolate env nv req pb (Some aux)) = Some aux''
            \<and> (\<forall>a \<ge> rq_aux_size req. aux'' a = aux a))"
proof -
  let ?f = "forward_ioctl env nv req pb (Some aux)" and ?n = "rq_aux_size req"
  have eq: "nvkvm_req_ioctl_on_isolate env nv req pb (Some aux) = ?f"
    using fwd by (auto simp: nvkvm_req_ioctl_on_isolate_def Let_def split: if_splits option.splits)
  obtain isos aux' where l: "gpi_loop (env_pid env) ?n 0 (min 200 (unat (ld32 aux 0))) aux = (isos, aux')"
    by fastforce
  have p: "gpi_prepare (env_pid env) req pb (Some aux) = (Some isos, Some aux')"
    by (simp add: gpi_prepare_active [OF gpi] l)
  have c: "ic_aux c = Some aux'"
    using fwd forward_calls [of env nv req pb "Some aux"] by (auto simp: eq p req_call_def)
  have m: "managed_pid (env_pid env) (ld32 aux' (pid_off i))"
    using gpi_loop_managed [OF l, of i] i by simp
  have fr: "\<forall>a \<ge> ?n. aux' a = aux a" using gpi_loop_frame [OF l] by blast
  have "gpi_fixup hp am 0 isos (copy_back ?n q aux') a = aux a" if "?n \<le> a" for hp am q a
    using gpi_fixup_frame [of isos 0 ?n a hp am "copy_back ?n q aux'"] gpi_loop_fit [OF l] that fr
    by (simp add: copy_back_def)
  then have "\<exists>aux''. io_aux ?f = Some aux'' \<and> (\<forall>a \<ge> ?n. aux'' a = aux a)"
    using fr by (simp add: forward_ioctl_def Let_def split_beta p copy_back_def)
  then show ?thesis using c m fr by (simp add: eq)
qed

definition ex_pids :: mem where
  "ex_pids = st32 (st32 (st32 (\<lambda>_. 0) 0 2) 8 0x80000005) 80 1234"

lemma ex_pids_ld: "ld32 ex_pids 0 = 2" "ld32 ex_pids 8 = 0x80000005" "ld32 ex_pids 80 = 1234"
  by (simp_all add: ex_pids_def mem_simps)

lemma ex_gpi: "is_get_pid_info (ex_fe 0x2a 32 n) (Some (ex_words 7 7 0x2080018e 0))"
  by (simp add: is_get_pid_info_def ex_gate_eval)

lemma ex_gpi_fwd:
  assumes "n \<le> 2 ^ 20"
  shows "nvkvm_req_ioctl_on_isolate ex_env (ex_nv []) (ex_fe 0x2a 32 n) (Some (ex_words 7 7 0x2080018e 0)) (Some ex_pids)
    = forward_ioctl ex_env (ex_nv []) (ex_fe 0x2a 32 n) (Some (ex_words 7 7 0x2080018e 0)) (Some ex_pids)"
  by (rule ex_forward) (use assms in \<open>simp_all add: ex_gate_eval ex_fe_allowed\<close>)

theorem get_pid_info_managed_witness:
  "\<exists>c cs. io_fwd (nvkvm_req_ioctl_on_isolate ex_env (ex_nv []) (ex_fe 0x2a 32 152)
        (Some (ex_words 7 7 0x2080018e 0)) (Some ex_pids)) = c # cs
     \<and> (\<exists>aux'. ic_aux c = Some aux' \<and> managed_pid (env_pid ex_env) (ld32 aux' (pid_off 1)))"
proof -
  obtain c cs where c: "io_fwd (nvkvm_req_ioctl_on_isolate ex_env (ex_nv []) (ex_fe 0x2a 32 152)
        (Some (ex_words 7 7 0x2080018e 0)) (Some ex_pids)) = c # cs"
    using forward_calls ex_gpi_fwd [of 152] by fastforce
  have "\<exists>aux'. ic_aux c = Some aux' \<and> managed_pid (env_pid ex_env) (ld32 aux' (pid_off 1))"
    using get_pid_info_managed [OF ex_gpi _ c, of 1]
    by (simp add: ex_fe_def ex_pids_ld pid_off_def NVKVM_PIDINFO_STRIDE_def) blast
  then show ?thesis using c by blast
qed

text \<open>An entry that the auxiliary buffer cuts short is not screened.  With 84 bytes of
  auxiliary data and a count of 2 the second entry's pid lies inside the buffer but the entry does
  not, the screening stops there, and the isolate receives the pid that the guest wrote (the count
  is forwarded unchanged).\<close>

lemma get_pid_info_partial_entry:
  "\<exists>c cs aux'. io_fwd (nvkvm_req_ioctl_on_isolate ex_env (ex_nv []) (ex_fe 0x2a 32 84)
        (Some (ex_words 7 7 0x2080018e 0)) (Some ex_pids)) = c # cs
     \<and> ic_aux c = Some aux' \<and> ic_aux_size c = 84 \<and> ld32 aux' 0 = 2
     \<and> ld32 aux' 8 = 4711 \<and> ld32 aux' 80 = 1234 \<and> \<not> managed_pid (env_pid ex_env) 1234"
proof -
  have e: "pid_of_entry (env_pid ex_env) 0x80000005 = (4711, 5)"
    by (simp add: pid_of_entry_def ex_env_def)
  have "gpi_loop (env_pid ex_env) 84 0 (Suc (Suc 0)) ex_pids = ([5], st32 ex_pids 8 4711)"
    by (simp add: pid_off_def NVKVM_PIDINFO_STRIDE_def ex_pids_ld e)
  then have l: "gpi_loop (env_pid ex_env) 84 0 2 ex_pids = ([5], st32 ex_pids 8 4711)"
    by (simp only: numeral_2_eq_2)
  have "gpi_prepare (env_pid ex_env) (ex_fe 0x2a 32 84) (Some (ex_words 7 7 0x2080018e 0)) (Some ex_pids)
      = (Some [5], Some (st32 ex_pids 8 4711))"
    using gpi_prepare_active [OF ex_gpi, of 84 "env_pid ex_env" ex_pids] l
    by (simp add: ex_fe_def ex_pids_ld NVKVM_PIDINFO_STRIDE_def min_def)
  moreover have "\<not> managed_pid (env_pid ex_env) 1234" by (auto simp: managed_pid_def ex_env_def)
  ultimately show ?thesis
    using forward_calls [of ex_env "ex_nv []" "ex_fe 0x2a 32 84" "Some (ex_words 7 7 0x2080018e 0)" "Some ex_pids"]
    by (auto simp: ex_gpi_fwd req_call_def mem_simps ex_pids_ld) (simp add: ex_fe_def)
qed

end
