(* ===== verification/IsoMmap.thy ===== *)
theory IsoMmap
  imports SlotTable HandleTable GpaWindow
begin

text \<open>
  Mappings of device memory for an isolate (\<open>qemu/nvkvm_isolate_handlers.c\<close>): the table of
  mapping tokens, the requests that map, unmap and realise a mapping, and the reaping of what a
  killed isolate still held.  The extents of the sparse window (\<open>GpaWindow\<close>) are handed out here;
  what the host's \<open>mmap\<close> and the isolate answer are arguments, and the calls made on the host and on
  the isolate are returned in order.  Addresses and lengths are natural numbers below \<open>2^64\<close>.
\<close>

section \<open>The token table\<close>

definition NVKVM_ISO_MMAP_MAX :: nat where
  "NVKVM_ISO_MMAP_MAX = 8192"

definition NVKVM_IN_WINDOW_SLOT :: int where
  "NVKVM_IN_WINDOW_SLOT = -2"

record nvkvm_iso_mmap_entry =
  im_mirrored :: bool
  im_isolate :: u32
  im_gva :: nat
  im_qva :: "nat option"
  im_len :: nat
  im_kvm_slot :: int
  im_gpa :: nat

text \<open>An unused entry is \<open>None\<close>.\<close>

record iso_mmap_table =
  iso_mmap_tbl :: "nat \<Rightarrow> nvkvm_iso_mmap_entry option"
  iso_mmap_seq :: nat

definition iso_mmap_init :: iso_mmap_table where
  "iso_mmap_init = \<lparr>iso_mmap_tbl = (\<lambda>_. None), iso_mmap_seq = 1\<rparr>"

fun iso_mmap_alloc_loop :: "nat \<Rightarrow> nvkvm_iso_mmap_entry \<Rightarrow> iso_mmap_table \<Rightarrow> nat \<times> iso_mmap_table" where
  "iso_mmap_alloc_loop 0 e t = (0, t)"
| "iso_mmap_alloc_loop (Suc n) e t =
    (let tok = iso_mmap_seq t;
         t1 = t\<lparr>iso_mmap_seq := iso_mmap_seq t mod (NVKVM_ISO_MMAP_MAX - 1) + 1\<rparr> in
     if iso_mmap_tbl t tok = None then (tok, t1\<lparr>iso_mmap_tbl := (iso_mmap_tbl t)(tok := Some e)\<rparr>)
     else iso_mmap_alloc_loop n e t1)"

definition iso_mmap_alloc :: "nvkvm_iso_mmap_entry \<Rightarrow> iso_mmap_table \<Rightarrow> nat \<times> iso_mmap_table" where
  "iso_mmap_alloc e t = iso_mmap_alloc_loop (NVKVM_ISO_MMAP_MAX - 1) e t"

definition iso_mmap_free :: "nat \<Rightarrow> iso_mmap_table \<Rightarrow> (nvkvm_iso_mmap_entry \<times> iso_mmap_table) option" where
  "iso_mmap_free token t =
    (if token = 0 \<or> token \<ge> NVKVM_ISO_MMAP_MAX then None
     else case iso_mmap_tbl t token of
       None \<Rightarrow> None
     | Some e \<Rightarrow> Some (e, t\<lparr>iso_mmap_tbl := (iso_mmap_tbl t)(token := None)\<rparr>))"

section \<open>State and host calls\<close>

record mmap_state =
  ms_handles :: handle_table
  ms_win :: sparse_win
  ms_pool :: kvm_pool
  ms_tbl :: iso_mmap_table

datatype host_op =
    HostMapDev nat nat u32 fd nat
  | HostMapAnon nat nat
  | HostMunmap nat nat
  | KvmRemove int
  | StubMmap u32 u32 nat nat nat u32 u32
  | StubMunmap u32 nat nat

record mmap_req =
  mm_isolate :: u32
  mm_handle :: u32
  mm_gva :: nat
  mm_offset :: nat
  mm_length :: nat
  mm_prot :: u32
  mm_flags :: u32

text \<open>Giving back the host side of an entry: in-window mappings get anonymous pages again, others
  lose their memory slot and their host mapping.\<close>

definition drop_backing :: "win_env \<Rightarrow> nvkvm_iso_mmap_entry \<Rightarrow> kvm_pool \<Rightarrow> kvm_pool \<times> host_op list" where
  "drop_backing env e p =
    (if im_kvm_slot e = NVKVM_IN_WINDOW_SLOT
     then (p, case im_qva e of None \<Rightarrow> [] | Some q \<Rightarrow> [HostMapAnon q (im_len e)])
     else (let rm = im_kvm_slot e \<ge> 0 \<and> kvm_vm_fd env \<ge> 0 in
           (if rm then nvkvm_kvm_slot_release (im_kvm_slot e) p else p,
            (if rm then [KvmRemove (im_kvm_slot e)] else [])
            @ (case im_qva e of None \<Rightarrow> [] | Some q \<Rightarrow> [HostMunmap q (im_len e)]))))"

text \<open>Giving back everything but the isolate's own mapping.\<close>

definition drop_entry :: "win_env \<Rightarrow> nvkvm_iso_mmap_entry \<Rightarrow> mmap_state \<Rightarrow> mmap_state \<times> host_op list" where
  "drop_entry env e s =
    (let (p, ops) = drop_backing env e (ms_pool s);
         w = (if im_gpa e \<noteq> 0 then nvkvm_sparse_gpa_free (im_gpa e) (im_len e) (ms_win s) else ms_win s)
     in (s\<lparr>ms_pool := p, ms_win := w\<rparr>, ops))"

section \<open>MMAP_ON_ISOLATE\<close>

text \<open>The last part: record the mapping, or undo it when the table is full.\<close>

definition mmap_record ::
  "win_env \<Rightarrow> nvkvm_iso_mmap_entry \<Rightarrow> mmap_state \<Rightarrow> (nat \<times> nat \<times> nat) result \<times> mmap_state \<times> host_op list" where
  "mmap_record env e s =
    (case iso_mmap_alloc e (ms_tbl s) of (token, t) \<Rightarrow>
       let s1 = s\<lparr>ms_tbl := t\<rparr> in
       if token = 0 then
         (let (s2, ops) = drop_entry env e s1 in
          (Inl ENOMEM, s2, (if im_mirrored e then [StubMunmap (im_isolate e) (im_gva e) (im_len e)] else []) @ ops))
       else (Inr (token, im_gpa e, im_len e), s1, []))"

definition nvkvm_req_mmap_on_isolate ::
  "win_env \<Rightarrow> nat result \<Rightarrow> unit result \<Rightarrow> mmap_req \<Rightarrow> mmap_state
     \<Rightarrow> (nat \<times> nat \<times> nat) result \<times> mmap_state \<times> host_op list" where
  "nvkvm_req_mmap_on_isolate env os_mmap stub_mmap req s =
    (case nvkvm_handle_get (mm_handle req) (ms_handles s) of
       None \<Rightarrow> (Inl EBADF, s, [])
     | Some h \<Rightarrow>
         if h_fd h < 0 then (Inl EBADF, s, [])
         else if mm_length req = 0 \<or> mm_length req > sparse_size (ms_win s) then (Inl EINVAL, s, [])
         else let len = page_round (mm_length req); prot = mm_prot req AND 3 in
           if len = 0 \<or> len > sparse_size (ms_win s) then (Inl EINVAL, s, [])
           else case nvkvm_sparse_gpa_alloc env len (ms_win s, ms_pool s) of (gpa, w1, p1) \<Rightarrow>
             let s1 = s\<lparr>ms_win := w1, ms_pool := p1\<rparr> in
             case (if gpa \<noteq> 0 then nvkvm_gpa_to_vmm_va gpa len w1 else None) of
               None \<Rightarrow> (Inl ENOMEM, s1, [])
             | Some va \<Rightarrow>
                 let uvm = (h_dev h = NVKVM_DEV_UVM);
                     map_ops = (if uvm then [] else [HostMapDev va len prot (h_fd h) (mm_offset req)]) in
                 case (if uvm then Inr va else os_mmap) of
                   Inl e \<Rightarrow> (Inl e, s1, map_ops @ [HostMapAnon va len])
                 | Inr qva \<Rightarrow>
                     let mirror = \<not> uvm;
                         stub_ops = (if mirror then [StubMmap (mm_isolate req) (mm_handle req) (mm_gva req) len
                           (mm_offset req) prot (mm_flags req)] else []) in
                     case (if mirror then stub_mmap else Inr ()) of
                       Inl e \<Rightarrow> (Inl e, s1, map_ops @ stub_ops @ [HostMapAnon qva len])
                     | Inr _ \<Rightarrow>
                         let ent = \<lparr>im_mirrored = mirror, im_isolate = mm_isolate req, im_gva = mm_gva req,
                               im_qva = Some qva, im_len = len, im_kvm_slot = NVKVM_IN_WINDOW_SLOT, im_gpa = gpa\<rparr>;
                             (r, s2, ops) = mmap_record env ent s1
                         in (r, s2, map_ops @ stub_ops @ ops))"

section \<open>MUNMAP_ON_ISOLATE and the reaper\<close>

definition nvkvm_req_munmap_on_isolate ::
  "win_env \<Rightarrow> nat \<Rightarrow> mmap_state \<Rightarrow> unit result \<times> mmap_state \<times> host_op list" where
  "nvkvm_req_munmap_on_isolate env token s =
    (case iso_mmap_free token (ms_tbl s) of
       None \<Rightarrow> (Inl ENOENT, s, [])
     | Some (e, t) \<Rightarrow>
         let (s1, ops) = drop_entry env e (s\<lparr>ms_tbl := t\<rparr>) in
         (Inr (), s1, (if im_mirrored e then [StubMunmap (im_isolate e) (im_gva e) (im_len e)] else []) @ ops))"

definition reap_step ::
  "win_env \<Rightarrow> u32 \<Rightarrow> nat \<Rightarrow> nat \<times> mmap_state \<times> host_op list \<Rightarrow> nat \<times> mmap_state \<times> host_op list" where
  "reap_step env isolate i = (\<lambda>(reaped, s, done_ops).
    case iso_mmap_tbl (ms_tbl s) i of
      None \<Rightarrow> (reaped, s, done_ops)
    | Some e \<Rightarrow>
        if im_isolate e \<noteq> isolate then (reaped, s, done_ops)
        else let (s1, ops) = drop_entry env e
               (s\<lparr>ms_tbl := (ms_tbl s)\<lparr>iso_mmap_tbl := (iso_mmap_tbl (ms_tbl s))(i := None)\<rparr>\<rparr>)
             in (reaped + 1, s1, done_ops @ ops))"

definition nvkvm_iso_mmap_reap_isolate ::
  "win_env \<Rightarrow> u32 \<Rightarrow> mmap_state \<Rightarrow> nat \<times> mmap_state \<times> host_op list" where
  "nvkvm_iso_mmap_reap_isolate env isolate s = fold (reap_step env isolate) [1..<NVKVM_ISO_MMAP_MAX] (0, s, [])"

section \<open>REALIZE_UVM_MAPPING\<close>

record realize_req =
  rl_isolate :: u32
  rl_mode :: u32
  rl_gva :: nat
  rl_length :: nat
  rl_prot :: u32
  rl_flags :: u32
  rl_intent_size :: nat

text \<open>What the handler reads of the two buffers: the counts of the state snapshot and the range of
  the semaphore-pool intent.\<close>

record realize_bufs =
  rb_n_gpus :: nat
  rb_n_va_spaces :: nat
  rb_n_range_groups :: nat
  rb_base :: nat
  rb_length :: nat

record realize_answer =
  ra_ret :: "errno option"
  ra_host_va :: nat
  ra_token :: nat
  ra_rm_status :: u32

datatype rl_status = RlOk | RlErr errno | RlNegErr errno

record realize_resp =
  rr_gpa :: nat
  rr_length :: nat
  rr_token :: nat
  rr_rm_status :: u32
  rr_status :: rl_status

definition rl_fail :: "rl_status \<Rightarrow> u32 \<Rightarrow> realize_resp" where
  "rl_fail st rm = \<lparr>rr_gpa = 0, rr_length = 0, rr_token = 0, rr_rm_status = rm, rr_status = st\<rparr>"

definition realize_check :: "realize_req \<Rightarrow> realize_bufs option \<Rightarrow> rl_status" where
  "realize_check req bufs =
    (case bufs of
       None \<Rightarrow> RlNegErr EINVAL
     | Some b \<Rightarrow>
         if rl_intent_size req = 0 \<or> rl_intent_size req > 65536 then RlNegErr EINVAL
         else if rb_n_gpus b > 16 \<or> rb_n_va_spaces b > 16 \<or> rb_n_range_groups b > 16 then RlNegErr EINVAL
         else if rl_mode req \<noteq> 1 then RlNegErr EOPNOTSUPP
         else if rl_intent_size req \<noteq> 9248 then RlNegErr EINVAL
         else if rb_length b \<noteq> rl_length req \<or> rb_base b \<noteq> rl_gva req then RlNegErr EINVAL
         else if rl_length req = 0 \<or> rl_length req > 2 ^ 40 \<or> rl_length req mod 4096 \<noteq> 0 then RlNegErr EINVAL
         else RlOk)"

definition nvkvm_req_realize_uvm_mapping ::
  "win_env \<Rightarrow> realize_answer \<Rightarrow> realize_req \<Rightarrow> realize_bufs option \<Rightarrow> mmap_state \<Rightarrow> realize_resp \<times> mmap_state" where
  "nvkvm_req_realize_uvm_mapping env ans req bufs s =
    (if realize_check req bufs \<noteq> RlOk then (rl_fail (realize_check req bufs) 0, s)
     else let len = rl_length req in
       case nvkvm_sparse_gpa_alloc env len (ms_win s, ms_pool s) of (gpa, w1, p1) \<Rightarrow>
         let s1 = s\<lparr>ms_win := w1, ms_pool := p1\<rparr> in
         if gpa = 0 then (rl_fail (RlNegErr ENOMEM) 0, s1)
         else if ra_ret ans \<noteq> None \<or> ra_host_va ans = 0 then
           (rl_fail (case ra_ret ans of Some e \<Rightarrow> RlErr e | None \<Rightarrow> RlOk) (ra_rm_status ans),
            s1\<lparr>ms_win := nvkvm_sparse_gpa_free gpa len w1\<rparr>)
         else if ra_rm_status ans \<noteq> 0 then
           (rl_fail (RlNegErr EIO) (ra_rm_status ans), s1\<lparr>ms_win := nvkvm_sparse_gpa_free gpa len w1\<rparr>)
         else let (_, t) = iso_mmap_alloc
                \<lparr>im_mirrored = False, im_isolate = rl_isolate req, im_gva = gpa, im_qva = None, im_len = len,
                 im_kvm_slot = NVKVM_IN_WINDOW_SLOT, im_gpa = gpa\<rparr> (ms_tbl s1)
              in (\<lparr>rr_gpa = gpa, rr_length = len, rr_token = ra_token ans, rr_rm_status = 0, rr_status = RlOk\<rparr>,
                  s1\<lparr>ms_tbl := t\<rparr>))"

section \<open>The window as a multiset of extents\<close>

definition win_owns :: "sparse_win \<Rightarrow> extent multiset \<Rightarrow> bool" where
  "win_owns w M \<longleftrightarrow> (\<exists>L. mset L = M \<and> win_inv w L)"

lemma win_inv_mset: "mset L = mset L' \<Longrightarrow> win_inv w L \<Longrightarrow> win_inv w L'"
  using tiles_mset unfolding win_inv_def win_lists_def
  by (metis mset_append)

text \<open>The parts of the window that no allocation or release changes.\<close>

definition win_frame :: "sparse_win \<Rightarrow> sparse_win \<Rightarrow> bool" where
  "win_frame w w' \<longleftrightarrow> sparse_gpa_base w' = sparse_gpa_base w \<and> sparse_size w' = sparse_size w
     \<and> sparse_vmm_va w' = sparse_vmm_va w"

lemma win_frame_refl [simp]: "win_frame w w"
  by (simp add: win_frame_def)

lemma win_owns_ready: "win_owns w M \<Longrightarrow> win_ready w"
  by (auto simp: win_owns_def win_inv_def)

lemma win_owns_alloc:
  assumes own: "win_owns w M" and n: "0 < n" "n \<le> sparse_size w"
    and al: "nvkvm_sparse_gpa_alloc env n (w, p) = (gpa, w', p')"
  shows "p' = p"
    and "gpa = 0 \<Longrightarrow> w' = w"
    and "gpa \<noteq> 0 \<Longrightarrow> sparse_gpa_base w \<le> gpa \<and> win_frame w w'
           \<and> win_owns w' (add_mset (gpa - sparse_gpa_base w, page_round n) M)"
proof -
  obtain L where L: "mset L = M" "win_inv w L" using own by (auto simp: win_owns_def)
  then obtain fl K where l: "win_ready w" "win_lists w fl L K" by (auto simp: win_inv_def)
  have loc: "sparse_alloc_locked (page_round n) w = (gpa, w')" and p: "p' = p"
    using al l(1) by (auto simp: nvkvm_sparse_gpa_alloc_def nvkvm_sparse_ensure_def win_ready_def split: prod.splits)
  show "p' = p" by (rule p)
  from l n show "gpa = 0 \<Longrightarrow> w' = w"
    by (cases rule: sparse_alloc_cases) (use loc l in \<open>auto simp: win_ready_def\<close>)
  assume g: "gpa \<noteq> 0"
  from l n have b: "sparse_gpa_base w \<le> gpa"
    by (cases rule: sparse_alloc_cases) (use loc g in auto)
  have "win_alloc n w = Some (gpa - sparse_gpa_base w, page_round n, w')" using g by (simp add: win_alloc_def loc)
  then have "\<exists>fl'. win_ready w' \<and> win_lists w' fl' ((gpa - sparse_gpa_base w, page_round n) # L) K \<and> win_frame w w'"
    using win_alloc_inv [OF l n] unfolding win_frame_def by blast
  then show "sparse_gpa_base w \<le> gpa \<and> win_frame w w'
      \<and> win_owns w' (add_mset (gpa - sparse_gpa_base w, page_round n) M)"
    using b L(1) unfolding win_owns_def win_inv_def by (metis mset.simps(2))
qed

lemma win_owns_free:
  assumes own: "win_owns w (add_mset (gpa - sparse_gpa_base w, len) M)" and b: "sparse_gpa_base w \<le> gpa"
  shows "win_owns (nvkvm_sparse_gpa_free gpa len w) M \<and> win_frame w (nvkvm_sparse_gpa_free gpa len w)"
proof -
  let ?e = "(gpa - sparse_gpa_base w, len)"
  obtain L where "mset L = add_mset ?e M" "win_inv w L" using own by (auto simp: win_owns_def)
  moreover have "?e \<in> set L" using calculation(1) by (metis set_mset_mset union_single_eq_member)
  ultimately obtain fl K where l: "win_ready w" "win_lists w fl L K" "?e \<in> set L" "mset (remove1 ?e L) = M"
    by (auto simp: win_inv_def)
  have eq: "win_release ?e w = nvkvm_sparse_gpa_free gpa len w" using b by (simp add: win_release_def)
  show ?thesis
    using win_release_lists [OF l(1-3)] l(4) unfolding eq win_owns_def win_inv_def win_frame_def by blast
qed

lemma win_owns_disj:
  assumes "win_owns w M" and "{#d, e#} \<subseteq># M"
  shows "ext_disj d e"
proof -
  obtain L where L: "mset L = M" "win_inv w L" using assms(1) by (auto simp: win_owns_def)
  have "d \<in> set L" using assms(2) L(1) by (metis insert_subset_eq_iff set_mset_mset)
  then obtain i where i: "i < length L" "L ! i = d" by (meson in_set_conv_nth)
  have "e \<in># mset L - {#d#}" using assms(2) L(1) by (metis insert_subset_eq_iff mset_subset_eq_single single_subset_iff)
  then have "e \<in># mset (take i L @ drop (Suc i) L)"
    using i by (metis add_mset_remove_trivial id_take_nth_drop mset.simps(2) mset_append union_mset_add_mset_right)
  then have "(\<exists>k. k < i \<and> L ! k = e) \<or> (\<exists>k. k < length L - Suc i \<and> L ! Suc (i + k) = e)"
    using i by (auto simp: in_set_conv_nth)
  then obtain j where "j < length L" "j \<noteq> i" "L ! j = e"
  proof
    assume "\<exists>k. k < i \<and> L ! k = e"
    then obtain k where "k < i" "L ! k = e" by blast
    then show thesis using that [of k] i by simp
  next
    assume "\<exists>k. k < length L - Suc i \<and> L ! Suc (i + k) = e"
    then obtain k where "k < length L - Suc i" "L ! Suc (i + k) = e" by blast
    then show thesis using that [of "Suc (i + k)"] by simp
  qed
  then show ?thesis using gw.inv_disjoint [OF L(2)] i by (auto simp: exts_disjoint_def)
qed

lemma win_owns_bounded:
  assumes "win_owns w M" and "e \<in># M"
  shows "0 < snd e \<and> fst e + snd e \<le> sparse_size w"
  using assms gw.inv_bounded unfolding win_owns_def by (metis set_mset_mset)

section \<open>The token table\<close>

definition tok_inv :: "iso_mmap_table \<Rightarrow> bool" where
  "tok_inv t \<longleftrightarrow> 1 \<le> iso_mmap_seq t \<and> iso_mmap_seq t < NVKVM_ISO_MMAP_MAX"

definition tok_live :: "iso_mmap_table \<Rightarrow> nat \<rightharpoonup> nvkvm_iso_mmap_entry" where
  "tok_live t k = (if 1 \<le> k \<and> k < NVKVM_ISO_MMAP_MAX then iso_mmap_tbl t k else None)"

definition tok_alloc :: "nvkvm_iso_mmap_entry \<Rightarrow> iso_mmap_table \<Rightarrow> (nat \<times> iso_mmap_table) option" where
  "tok_alloc e t = (let (k, t') = iso_mmap_alloc e t in if k = 0 then None else Some (k, t'))"

definition tok_release :: "nat \<Rightarrow> iso_mmap_table \<Rightarrow> iso_mmap_table option" where
  "tok_release k t = map_option snd (iso_mmap_free k t)"

lemma alloc_loop_spec:
  assumes "tok_inv t" and "iso_mmap_alloc_loop n e t = (k, t')"
  shows "tok_inv t' \<and> (if k = 0 then tok_live t' = tok_live t
    else tok_live t k = None \<and> tok_live t' = (tok_live t)(k \<mapsto> e))"
  using assms
proof (induction n e t rule: iso_mmap_alloc_loop.induct)
  case (2 n e t)
  let ?t1 = "t\<lparr>iso_mmap_seq := iso_mmap_seq t mod (NVKVM_ISO_MMAP_MAX - 1) + 1\<rparr>"
  have "iso_mmap_seq t mod (NVKVM_ISO_MMAP_MAX - 1) < NVKVM_ISO_MMAP_MAX - 1"
    by (rule mod_less_divisor) (simp add: NVKVM_ISO_MMAP_MAX_def)
  then have i: "tok_inv ?t1" by (simp add: tok_inv_def)
  show ?case
  proof (cases "iso_mmap_tbl t (iso_mmap_seq t) = None")
    case True
    then show ?thesis using 2(2,3) i by (auto simp: Let_def tok_live_def tok_inv_def fun_eq_iff)
  next
    case False
    have live: "tok_live ?t1 = tok_live t" by (simp add: tok_live_def fun_eq_iff)
    have "iso_mmap_alloc_loop n e ?t1 = (k, t')" using 2(3) False by (simp add: Let_def)
    from 2(1) [OF refl refl False i this] show ?thesis unfolding live .
  qed
qed simp

lemma iso_mmap_alloc_spec:
  assumes "tok_inv t" and "iso_mmap_alloc e t = (k, t')"
  shows "tok_inv t' \<and> (if k = 0 then tok_live t' = tok_live t
    else tok_live t k = None \<and> tok_live t' = (tok_live t)(k \<mapsto> e))"
  using alloc_loop_spec [OF assms(1)] assms(2) by (simp add: iso_mmap_alloc_def)

lemma iso_mmap_free_spec:
  "iso_mmap_free k t = (case tok_live t k of None \<Rightarrow> None
     | Some e \<Rightarrow> Some (e, t\<lparr>iso_mmap_tbl := (iso_mmap_tbl t)(k := None)\<rparr>))"
  by (auto simp: iso_mmap_free_def tok_live_def split: option.split)

lemma tok_live_clear:
  "tok_live (t\<lparr>iso_mmap_tbl := (iso_mmap_tbl t)(k := None)\<rparr>) = (tok_live t)(k := None)"
  by (auto simp: tok_live_def fun_eq_iff)

interpretation mt: slot_table tok_inv tok_live tok_alloc tok_release
proof unfold_locales
  fix t e k t'
  assume "tok_inv t" "tok_alloc e t = Some (k, t')"
  then show "tok_inv t' \<and> tok_live t k = None \<and> tok_live t' = (tok_live t)(k \<mapsto> e)"
    using iso_mmap_alloc_spec [of t e] by (auto simp: tok_alloc_def split: prod.splits if_splits)
next
  fix t k t'
  assume "tok_inv t" "tok_release k t = Some t'"
  then show "tok_inv t' \<and> tok_live t k \<noteq> None \<and> tok_live t' = (tok_live t)(k := None)"
    by (auto simp: tok_release_def iso_mmap_free_spec tok_live_clear tok_inv_def split: option.splits)
qed

section \<open>What the tokens hold\<close>

definition entry_ext :: "nat \<Rightarrow> nvkvm_iso_mmap_entry \<Rightarrow> extent" where
  "entry_ext base e = (im_gpa e - base, im_len e)"

definition held :: "nat \<Rightarrow> (nat \<rightharpoonup> nvkvm_iso_mmap_entry) \<Rightarrow> extent multiset" where
  "held base f = (\<Sum>k \<in> {1..<NVKVM_ISO_MMAP_MAX}. case f k of None \<Rightarrow> {#} | Some e \<Rightarrow> {#entry_ext base e#})"

lemma held_split:
  assumes "k \<in> {1..<NVKVM_ISO_MMAP_MAX}"
  shows "held base f = (case f k of None \<Rightarrow> {#} | Some e \<Rightarrow> {#entry_ext base e#}) + held base (f(k := None))"
proof -
  have "held base (f(k := None)) = (\<Sum>j \<in> {1..<NVKVM_ISO_MMAP_MAX} - {k}.
      case f j of None \<Rightarrow> {#} | Some e \<Rightarrow> {#entry_ext base e#})"
    using assms unfolding held_def
    by (subst sum.remove [of _ k]) (auto intro!: sum.cong)
  then show ?thesis using assms unfolding held_def by (subst sum.remove [of _ k]) auto
qed

lemma tok_live_range: "tok_live t k = Some e \<Longrightarrow> k \<in> {1..<NVKVM_ISO_MMAP_MAX}"
  by (auto simp: tok_live_def split: if_splits)

text \<open>\<open>K\<close> are the extents that no token accounts for.\<close>

definition entry_ok :: "nat \<Rightarrow> nvkvm_iso_mmap_entry \<Rightarrow> bool" where
  "entry_ok base e \<longleftrightarrow> base \<le> im_gpa e \<and> im_gpa e \<noteq> 0 \<and> im_kvm_slot e = NVKVM_IN_WINDOW_SLOT"

definition mmap_inv :: "mmap_state \<Rightarrow> extent multiset \<Rightarrow> bool" where
  "mmap_inv s K \<longleftrightarrow> tok_inv (ms_tbl s)
     \<and> win_owns (ms_win s) (held (sparse_gpa_base (ms_win s)) (tok_live (ms_tbl s)) + K)
     \<and> (\<forall>k e. tok_live (ms_tbl s) k = Some e \<longrightarrow> entry_ok (sparse_gpa_base (ms_win s)) e)"

lemma drop_entry_eq:
  assumes "entry_ok base e"
  shows "fst (drop_entry env e s) = s\<lparr>ms_win := nvkvm_sparse_gpa_free (im_gpa e) (im_len e) (ms_win s)\<rparr>"
  using assms by (simp add: drop_entry_def drop_backing_def entry_ok_def)

lemma drop_token:
  assumes inv: "mmap_inv s K" and k: "tok_live (ms_tbl s) k = Some e"
    and s': "s' = fst (drop_entry env e (s\<lparr>ms_tbl := (ms_tbl s)\<lparr>iso_mmap_tbl := (iso_mmap_tbl (ms_tbl s))(k := None)\<rparr>\<rparr>))"
  shows "mmap_inv s' K \<and> tok_live (ms_tbl s') = (tok_live (ms_tbl s))(k := None)
    \<and> win_frame (ms_win s) (ms_win s')"
proof -
  let ?b = "sparse_gpa_base (ms_win s)" and ?l = "tok_live (ms_tbl s)"
  have ok: "entry_ok ?b e" using inv k by (simp add: mmap_inv_def)
  have "held ?b ?l + K = add_mset (entry_ext ?b e) (held ?b (?l(k := None)) + K)"
    using held_split [of k ?b ?l] tok_live_range [OF k] k by simp
  then have "win_owns (ms_win s) (add_mset (im_gpa e - ?b, im_len e) (held ?b (?l(k := None)) + K))"
    using inv by (simp add: mmap_inv_def entry_ext_def)
  from win_owns_free [OF this] ok
  have f: "win_owns (nvkvm_sparse_gpa_free (im_gpa e) (im_len e) (ms_win s)) (held ?b (?l(k := None)) + K)"
    "win_frame (ms_win s) (nvkvm_sparse_gpa_free (im_gpa e) (im_len e) (ms_win s))"
    by (auto simp: entry_ok_def)
  show ?thesis
    using inv f by (auto simp: s' drop_entry_eq [OF ok] mmap_inv_def tok_live_clear tok_inv_def win_frame_def)
qed

section \<open>The requests keep the accounting\<close>

text \<open>A state whose window has just handed out the extent of an entry that is not in the table.\<close>

definition mmap_pending :: "mmap_state \<Rightarrow> nvkvm_iso_mmap_entry \<Rightarrow> extent multiset \<Rightarrow> bool" where
  "mmap_pending s e K \<longleftrightarrow> mmap_inv s (add_mset (entry_ext (sparse_gpa_base (ms_win s)) e) K)
     \<and> entry_ok (sparse_gpa_base (ms_win s)) e"

lemma pending_record:
  assumes pend: "mmap_pending s e K" and al: "iso_mmap_alloc e (ms_tbl s) = (tok, t)" and tok: "tok \<noteq> 0"
  shows "mmap_inv (s\<lparr>ms_tbl := t\<rparr>) K \<and> tok_live t = (tok_live (ms_tbl s))(tok \<mapsto> e)"
proof -
  let ?b = "sparse_gpa_base (ms_win s)" and ?l = "tok_live (ms_tbl s)"
  have inv: "mmap_inv s (add_mset (entry_ext ?b e) K)" and ok: "entry_ok ?b e"
    using pend by (auto simp: mmap_pending_def)
  have a: "tok_inv t" "?l tok = None" "tok_live t = ?l(tok \<mapsto> e)"
    using iso_mmap_alloc_spec [OF _ al] inv tok by (auto simp: mmap_inv_def)
  have "tok_live t tok = Some e" using a(3) by simp
  from held_split [OF tok_live_range [OF this], of ?b "tok_live t"]
  have "held ?b (tok_live t) = add_mset (entry_ext ?b e) (held ?b ?l)"
    using a(2,3) by (simp add: fun_upd_idem)
  then show ?thesis using inv ok a by (auto simp: mmap_inv_def)
qed

lemma pending_undo:
  assumes pend: "mmap_pending s e K" and t: "tok_inv t" "tok_live t = tok_live (ms_tbl s)"
  shows "mmap_inv (fst (drop_entry env e (s\<lparr>ms_tbl := t\<rparr>))) K"
proof -
  let ?b = "sparse_gpa_base (ms_win s)"
  have ok: "entry_ok ?b e" using pend by (simp add: mmap_pending_def)
  have "win_owns (ms_win s) (add_mset (im_gpa e - ?b, im_len e) (held ?b (tok_live (ms_tbl s)) + K))"
    using pend by (simp add: mmap_pending_def mmap_inv_def entry_ext_def)
  from win_owns_free [OF this] ok show ?thesis
    using pend t by (auto simp: drop_entry_eq [OF ok] mmap_inv_def mmap_pending_def win_frame_def entry_ok_def)
qed

lemma mmap_record_inv:
  assumes pend: "mmap_pending s e K" and r: "mmap_record env e s = (r, s', ops)"
  shows "mmap_inv s' K"
proof (cases "fst (iso_mmap_alloc e (ms_tbl s)) = 0")
  case True
  obtain t where t: "iso_mmap_alloc e (ms_tbl s) = (0, t)" using True by (metis prod.collapse)
  have "tok_inv t" "tok_live t = tok_live (ms_tbl s)"
    using iso_mmap_alloc_spec [OF _ t] pend by (auto simp: mmap_pending_def mmap_inv_def)
  from pending_undo [OF pend this, of env] r show ?thesis
    by (auto simp: mmap_record_def t Let_def split_beta)
next
  case False
  then show ?thesis
    using pending_record [OF pend, of "fst (iso_mmap_alloc e (ms_tbl s))"] r
    by (auto simp: mmap_record_def Let_def split_beta)
qed

lemma alloc_pending:
  assumes inv: "mmap_inv s K" and n: "0 < n" "n \<le> sparse_size (ms_win s)" "4096 dvd n"
    and al: "nvkvm_sparse_gpa_alloc env n (ms_win s, ms_pool s) = (gpa, w1, p1)"
    and s1: "s1 = s\<lparr>ms_win := w1, ms_pool := p1\<rparr>"
  shows "gpa = 0 \<Longrightarrow> s1 = s"
    and "gpa \<noteq> 0 \<Longrightarrow> im_gpa e = gpa \<Longrightarrow> im_len e = n \<Longrightarrow> im_kvm_slot e = NVKVM_IN_WINDOW_SLOT
           \<Longrightarrow> mmap_pending s1 e K \<and> win_frame (ms_win s) w1"
proof -
  let ?M = "held (sparse_gpa_base (ms_win s)) (tok_live (ms_tbl s)) + K"
  have own: "win_owns (ms_win s) ?M" using inv by (simp add: mmap_inv_def)
  have "n < 2 ^ 63" using win_owns_ready [OF own] n(2) by (auto simp: win_ready_def)
  then have pr: "page_round n = n" using page_round(4) n(3) by blast
  note a = win_owns_alloc [OF own n(1,2) al]
  show "gpa = 0 \<Longrightarrow> s1 = s" using a(1,2) by (simp add: s1)
  assume "gpa \<noteq> 0" "im_gpa e = gpa" "im_len e = n" "im_kvm_slot e = NVKVM_IN_WINDOW_SLOT"
  then show "mmap_pending s1 e K \<and> win_frame (ms_win s) w1"
    using a(3) inv by (auto simp: s1 mmap_pending_def mmap_inv_def entry_ext_def entry_ok_def pr win_frame_def)
qed

lemma free_base [simp]: "sparse_gpa_base (nvkvm_sparse_gpa_free gpa n w) = sparse_gpa_base w"
  by (simp add: nvkvm_sparse_gpa_free_def sparse_free_locked_def Let_def split: option.splits prod.splits)

lemma record_base: "mmap_record env e s = (r, s', ops) \<Longrightarrow> sparse_gpa_base (ms_win s') = sparse_gpa_base (ms_win s)"
  by (auto simp: mmap_record_def drop_entry_def Let_def split: prod.splits if_splits)

lemma mmap_keeps:
  assumes inv: "mmap_inv s K"
    and r: "nvkvm_req_mmap_on_isolate env os_mmap stub_mmap req s = (r, s', ops)"
  shows "\<exists>K'. mmap_inv s' K' \<and> K \<subseteq># K' \<and> sparse_gpa_base (ms_win s') = sparse_gpa_base (ms_win s)"
proof -
  let ?n = "page_round (mm_length req)"
  show ?thesis
  proof (cases "r = Inl EBADF \<and> s' = s \<or> r = Inl EINVAL \<and> s' = s")
    case True
    then show ?thesis using inv by blast
  next
    case False
    obtain gpa w1 p1 where al: "nvkvm_sparse_gpa_alloc env ?n (ms_win s, ms_pool s) = (gpa, w1, p1)"
      using prod_cases3 by blast
    define s1 where "s1 = s\<lparr>ms_win := w1, ms_pool := p1\<rparr>"
    have len: "mm_length req \<noteq> 0" "mm_length req \<le> sparse_size (ms_win s)" "?n \<noteq> 0" "?n \<le> sparse_size (ms_win s)"
      using r False by (auto simp: nvkvm_req_mmap_on_isolate_def Let_def split: option.splits if_splits)
    have "mm_length req < 2 ^ 63"
      using inv len(2) win_owns_ready by (fastforce simp: mmap_inv_def win_ready_def)
    then have d: "4096 dvd ?n" by (rule page_round(3))
    note pend = alloc_pending [OF inv _ len(4) d al s1_def]
    have "s' = s1 \<or> (\<exists>e. gpa \<noteq> 0 \<and> im_gpa e = gpa \<and> im_len e = ?n \<and> im_kvm_slot e = NVKVM_IN_WINDOW_SLOT
        \<and> (\<exists>r ops. mmap_record env e s1 = (r, s', ops)))"
      using r False len al
      by (auto simp: nvkvm_req_mmap_on_isolate_def Let_def s1_def
          split: option.splits if_splits sum.splits prod.splits)
    then show ?thesis
    proof
      assume "s' = s1"
      let ?e = "\<lparr>im_mirrored = False, im_isolate = 0, im_gva = 0, im_qva = None, im_len = ?n,
          im_kvm_slot = NVKVM_IN_WINDOW_SLOT, im_gpa = gpa\<rparr>"
      show ?thesis using pend(1) pend(2) [of ?e] inv len(3) \<open>s' = s1\<close>
        by (cases "gpa = 0") (auto simp: mmap_pending_def win_frame_def s1_def)
    next
      assume "\<exists>e. gpa \<noteq> 0 \<and> im_gpa e = gpa \<and> im_len e = ?n \<and> im_kvm_slot e = NVKVM_IN_WINDOW_SLOT
        \<and> (\<exists>r ops. mmap_record env e s1 = (r, s', ops))"
      then obtain e r ops where e: "gpa \<noteq> 0" "im_gpa e = gpa" "im_len e = ?n" "im_kvm_slot e = NVKVM_IN_WINDOW_SLOT"
        "mmap_record env e s1 = (r, s', ops)" by blast
      then have "mmap_pending s1 e K" "win_frame (ms_win s) w1" using pend(2) len(3) by blast+
      then show ?thesis using mmap_record_inv [OF _ e(5)] record_base [OF e(5)]
        by (intro exI [of _ K]) (simp add: win_frame_def s1_def)
    qed
  qed
qed

lemma munmap_keeps:
  assumes inv: "mmap_inv s K" and r: "nvkvm_req_munmap_on_isolate env token s = (r, s', ops)"
  shows "mmap_inv s' K \<and> tok_live (ms_tbl s') = (tok_live (ms_tbl s))(token := None)"
proof (cases "tok_live (ms_tbl s) token")
  case None
  then show ?thesis using inv r by (auto simp: nvkvm_req_munmap_on_isolate_def iso_mmap_free_spec)
next
  case (Some e)
  then show ?thesis using drop_token [OF inv Some refl, of env] r
    by (auto simp: nvkvm_req_munmap_on_isolate_def iso_mmap_free_spec split_beta Let_def)
qed

lemma munmap_base:
  "nvkvm_req_munmap_on_isolate env token s = (r, s', ops) \<Longrightarrow> sparse_gpa_base (ms_win s') = sparse_gpa_base (ms_win s)"
  by (auto simp: nvkvm_req_munmap_on_isolate_def drop_entry_def Let_def split: prod.splits option.splits if_splits)

definition reaped_live ::
  "u32 \<Rightarrow> nat set \<Rightarrow> (nat \<rightharpoonup> nvkvm_iso_mmap_entry) \<Rightarrow> nat \<rightharpoonup> nvkvm_iso_mmap_entry" where
  "reaped_live isolate ks f k =
    (case f k of None \<Rightarrow> None | Some e \<Rightarrow> if k \<in> ks \<and> im_isolate e = isolate then None else Some e)"

lemma reap_step_keeps:
  assumes inv: "mmap_inv s K" and k: "k \<in> {1..<NVKVM_ISO_MMAP_MAX}"
    and r: "reap_step env isolate k (n, s, ops) = (n', s', ops')"
  shows "mmap_inv s' K \<and> tok_live (ms_tbl s') = reaped_live isolate {k} (tok_live (ms_tbl s))
    \<and> win_frame (ms_win s) (ms_win s')
    \<and> n' = n + of_bool (\<exists>e. tok_live (ms_tbl s) k = Some e \<and> im_isolate e = isolate)"
proof -
  have t: "iso_mmap_tbl (ms_tbl s) k = tok_live (ms_tbl s) k" using k by (simp add: tok_live_def)
  show ?thesis
  proof (cases "\<exists>e. tok_live (ms_tbl s) k = Some e \<and> im_isolate e = isolate")
    case True
    then obtain e where e: "tok_live (ms_tbl s) k = Some e" "im_isolate e = isolate" by blast
    show ?thesis using drop_token [OF inv e(1) refl, of env] r e
      by (auto simp: reap_step_def t split_beta Let_def reaped_live_def fun_eq_iff split: option.split)
  next
    case False
    then show ?thesis using inv r
      by (auto simp: reap_step_def t reaped_live_def fun_eq_iff split: option.splits if_splits)
  qed
qed

lemma reap_fold_keeps:
  assumes "mmap_inv s K" and "set ks \<subseteq> {1..<NVKVM_ISO_MMAP_MAX}" and "distinct ks"
    and "fold (reap_step env isolate) ks (n, s, ops) = (n', s', ops')"
  shows "mmap_inv s' K \<and> tok_live (ms_tbl s') = reaped_live isolate (set ks) (tok_live (ms_tbl s))
    \<and> win_frame (ms_win s) (ms_win s')
    \<and> n' = n + card {k \<in> set ks. \<exists>e. tok_live (ms_tbl s) k = Some e \<and> im_isolate e = isolate}"
  using assms
proof (induction ks arbitrary: n s ops)
  case Nil
  then show ?case by (auto simp: reaped_live_def fun_eq_iff split: option.split)
next
  case (Cons k ks)
  let ?P = "\<lambda>s k. \<exists>e. tok_live (ms_tbl s) k = Some e \<and> im_isolate e = isolate"
  obtain n1 s1 ops1 where st: "reap_step env isolate k (n, s, ops) = (n1, s1, ops1)" using prod_cases3 by blast
  have k: "k \<in> {1..<NVKVM_ISO_MMAP_MAX}" using Cons.prems(2) by simp
  note h = reap_step_keeps [OF Cons.prems(1) k st]
  have f: "fold (reap_step env isolate) ks (n1, s1, ops1) = (n', s', ops')" using Cons.prems(4) st by simp
  have ih: "mmap_inv s' K" "tok_live (ms_tbl s') = reaped_live isolate (set ks) (tok_live (ms_tbl s1))"
    "win_frame (ms_win s1) (ms_win s')" "n' = n1 + card {k \<in> set ks. ?P s1 k}"
    using Cons.IH [OF _ _ _ f] h Cons.prems by auto
  have same: "tok_live (ms_tbl s1) k' = tok_live (ms_tbl s) k'" if "k' \<noteq> k" for k'
    using h that by (simp add: reaped_live_def split: option.split)
  have "{k' \<in> set ks. ?P s1 k'} = {k' \<in> set ks. ?P s k'}"
    by (rule Collect_cong) (use same Cons.prems(3) in \<open>metis distinct.simps(2)\<close>)
  moreover have "card {k' \<in> set (k # ks). ?P s k'} = of_bool (?P s k) + card {k' \<in> set ks. ?P s k'}"
  proof -
    have "{k' \<in> set (k # ks). ?P s k'} = (if ?P s k then insert k {k' \<in> set ks. ?P s k'} else {k' \<in> set ks. ?P s k'})"
      by auto
    then show ?thesis using Cons.prems(3) by simp
  qed
  ultimately have "n' = n + card {k' \<in> set (k # ks). ?P s k'}" using ih(4) h by simp
  moreover have "tok_live (ms_tbl s') = reaped_live isolate (set (k # ks)) (tok_live (ms_tbl s))"
    using ih(2) h by (auto simp: reaped_live_def fun_eq_iff split: option.splits)
  ultimately show ?case using ih(1,3) h by (auto simp: win_frame_def)
qed

lemma too_large_alloc:
  assumes own: "win_owns w M" and n: "sparse_size w < n" "n \<le> 2 ^ 40" "4096 dvd n"
    and al: "nvkvm_sparse_gpa_alloc env n (w, p) = (gpa, w', p')"
  shows "gpa = 0 \<and> w' = w \<and> p' = p"
proof -
  obtain L fl K where l: "win_ready w" "win_lists w fl L K"
    using own by (auto simp: win_owns_def win_inv_def)
  have pr: "page_round n = n" using page_round(4) [of n] n by simp
  have fr: "sparse_free w = Some fl" and t: "tiles (fl @ L @ K) (sparse_cur w)" using l(2) by (auto simp: win_lists_def)
  have w: "sparse_cur w \<le> sparse_size w" "4096 dvd sparse_cur w" "sparse_size w < 2 ^ 63" "0 < sparse_gpa_base w"
    "sparse_kvm_slot w \<ge> 0" "sparse_vmm_va w \<noteq> None"
    using l(1) by (auto simp: win_ready_def)
  have "snd (fl ! i) < n" if "i < length fl" for i
    using tilesD(2) [OF t, of "fl ! i"] that n(1) w(1) by (fastforce dest: nth_mem)
  then have "\<not> best_fit n fl < length fl" using best_fit [of n fl] by fastforce
  moreover have "page_round (sparse_cur w) = sparse_cur w" using page_round(4) w by simp
  moreover have "wrap64 (sparse_cur w + n) = sparse_cur w + n" using w n by (intro wrap64_id) simp
  ultimately have "sparse_alloc_locked n w = (0, w)"
    using n(1) by (simp add: sparse_alloc_locked_def fr Let_def)
  then show ?thesis
    using al w by (auto simp: nvkvm_sparse_gpa_alloc_def nvkvm_sparse_ensure_def pr split: prod.splits)
qed

lemma realize_keeps:
  assumes inv: "mmap_inv s K"
    and r: "nvkvm_req_realize_uvm_mapping env ans req bufs s = (resp, s')"
  shows "\<exists>K'. mmap_inv s' K' \<and> K \<subseteq># K' \<and> sparse_gpa_base (ms_win s') = sparse_gpa_base (ms_win s)"
proof (cases "realize_check req bufs = RlOk")
  case False
  then show ?thesis using r inv by (auto simp: nvkvm_req_realize_uvm_mapping_def)
next
  case True
  let ?n = "rl_length req"
  have n: "0 < ?n" "?n \<le> 2 ^ 40" "4096 dvd ?n"
    using True by (auto simp: realize_check_def dvd_eq_mod_eq_0 split: option.splits if_splits)
  obtain gpa w1 p1 where al: "nvkvm_sparse_gpa_alloc env ?n (ms_win s, ms_pool s) = (gpa, w1, p1)"
    using prod_cases3 by blast
  define s1 where "s1 = s\<lparr>ms_win := w1, ms_pool := p1\<rparr>"
  define e where "e = \<lparr>im_mirrored = False, im_isolate = rl_isolate req, im_gva = gpa, im_qva = None, im_len = ?n,
                 im_kvm_slot = NVKVM_IN_WINDOW_SLOT, im_gpa = gpa\<rparr>"
  have own: "win_owns (ms_win s) (held (sparse_gpa_base (ms_win s)) (tok_live (ms_tbl s)) + K)"
    using inv by (simp add: mmap_inv_def)
  show ?thesis
  proof (cases "gpa = 0")
    case g: True
    have "s1 = s"
      using alloc_pending(1) [OF inv n(1) _ n(3) al s1_def g] too_large_alloc [OF own _ n(2,3) al]
      by (cases "?n \<le> sparse_size (ms_win s)") (auto simp: s1_def)
    then show ?thesis using r True al g inv by (auto simp: nvkvm_req_realize_uvm_mapping_def Let_def s1_def)
  next
    case g: False
    then have fit: "?n \<le> sparse_size (ms_win s)" using too_large_alloc [OF own _ n(2,3) al] by force
    have pend: "mmap_pending s1 e K" and base: "sparse_gpa_base w1 = sparse_gpa_base (ms_win s)"
      using alloc_pending(2) [OF inv n(1) fit n(3) al s1_def g, of e] by (simp_all add: e_def win_frame_def)
    obtain tok t where ta: "iso_mmap_alloc e (ms_tbl s1) = (tok, t)" by fastforce
    have undo: "mmap_inv (s1\<lparr>ms_win := nvkvm_sparse_gpa_free gpa ?n w1\<rparr>) K"
      using pending_undo [OF pend _ refl, of env] pend drop_entry_eq [of "sparse_gpa_base w1" e env s1]
      by (simp add: mmap_pending_def mmap_inv_def e_def s1_def)
    have "\<exists>K'. mmap_inv (s1\<lparr>ms_tbl := t\<rparr>) K' \<and> K \<subseteq># K'"
    proof (cases "tok = 0")
      case True
      then show ?thesis using iso_mmap_alloc_spec [OF _ ta] pend
        by (intro exI [of _ "add_mset (entry_ext (sparse_gpa_base (ms_win s1)) e) K"])
          (auto simp: mmap_pending_def mmap_inv_def)
    next
      case False
      then show ?thesis using pending_record [OF pend ta] by blast
    qed
    then show ?thesis using r True al g undo ta base
      by (auto simp: nvkvm_req_realize_uvm_mapping_def Let_def s1_def e_def split: if_splits)
  qed
qed

section \<open>Properties\<close>

text \<open>The states that mapping requests lead to.  The handle table may change in between.\<close>

inductive mmap_reach :: "mmap_state \<Rightarrow> bool" where
  reach_start: "win_inv (ms_win s) [] \<Longrightarrow> ms_tbl s = iso_mmap_init \<Longrightarrow> mmap_reach s"
| reach_mmap: "mmap_reach s \<Longrightarrow> nvkvm_req_mmap_on_isolate env os_mmap stub_mmap req s = (r, s', ops) \<Longrightarrow> mmap_reach s'"
| reach_munmap: "mmap_reach s \<Longrightarrow> nvkvm_req_munmap_on_isolate env token s = (r', s', ops) \<Longrightarrow> mmap_reach s'"
| reach_reap: "mmap_reach s \<Longrightarrow> nvkvm_iso_mmap_reap_isolate env isolate s = (n, s', ops) \<Longrightarrow> mmap_reach s'"
| reach_realize: "mmap_reach s \<Longrightarrow> nvkvm_req_realize_uvm_mapping env ans rreq bufs s = (resp, s') \<Longrightarrow> mmap_reach s'"
| reach_handles: "mmap_reach s \<Longrightarrow> mmap_reach (s\<lparr>ms_handles := ht\<rparr>)"

lemma mmap_start_inv:
  assumes "win_inv (ms_win s) []" and "ms_tbl s = iso_mmap_init"
  shows "mmap_inv s {#}"
proof -
  have "tok_live (ms_tbl s) = (\<lambda>_. None)" "tok_inv (ms_tbl s)"
    by (auto simp: assms(2) tok_live_def iso_mmap_init_def tok_inv_def NVKVM_ISO_MMAP_MAX_def)
  then show ?thesis using assms(1) by (auto simp: mmap_inv_def held_def win_owns_def)
qed

lemma reap_keeps:
  assumes "mmap_inv s K" and "nvkvm_iso_mmap_reap_isolate env isolate s = (n, s', ops)"
  shows "mmap_inv s' K"
    and "tok_live (ms_tbl s') = reaped_live isolate UNIV (tok_live (ms_tbl s))"
    and "n = card {k. \<exists>e. tok_live (ms_tbl s) k = Some e \<and> im_isolate e = isolate}"
    and "sparse_gpa_base (ms_win s') = sparse_gpa_base (ms_win s)"
proof -
  note h = reap_fold_keeps [OF assms(1) _ _ assms(2) [unfolded nvkvm_iso_mmap_reap_isolate_def]]
  show "mmap_inv s' K" "sparse_gpa_base (ms_win s') = sparse_gpa_base (ms_win s)" using h by (simp_all add: win_frame_def)
  have "reaped_live isolate (set [1..<NVKVM_ISO_MMAP_MAX]) (tok_live (ms_tbl s))
      = reaped_live isolate UNIV (tok_live (ms_tbl s))"
    using tok_live_range by (fastforce simp: reaped_live_def fun_eq_iff split: option.split)
  then show "tok_live (ms_tbl s') = reaped_live isolate UNIV (tok_live (ms_tbl s))" using h by simp
  have "{k \<in> set [1..<NVKVM_ISO_MMAP_MAX]. \<exists>e. tok_live (ms_tbl s) k = Some e \<and> im_isolate e = isolate}
      = {k. \<exists>e. tok_live (ms_tbl s) k = Some e \<and> im_isolate e = isolate}"
    using tok_live_range [of "ms_tbl s"] by auto
  then show "n = card {k. \<exists>e. tok_live (ms_tbl s) k = Some e \<and> im_isolate e = isolate}" using h by simp
qed

lemma mmap_reach_inv: "mmap_reach s \<Longrightarrow> \<exists>K. mmap_inv s K"
proof (induction rule: mmap_reach.induct)
  case (reach_start s)
  then show ?case using mmap_start_inv by blast
next
  case (reach_mmap s env os_mmap stub_mmap req r s' ops)
  then show ?case using mmap_keeps by blast
next
  case (reach_munmap s env token r' s' ops)
  then show ?case using munmap_keeps by blast
next
  case (reach_reap s env isolate n s' ops)
  then show ?case using reap_keeps(1) by blast
next
  case (reach_realize s env ans rreq bufs resp s')
  then show ?case using realize_keeps by blast
next
  case (reach_handles s ht)
  then show ?case by (simp add: mmap_inv_def)
qed

lemma held_pair:
  assumes "i \<noteq> j" and "tok_live t i = Some d" and "tok_live t j = Some e"
  shows "{#entry_ext b d, entry_ext b e#} \<subseteq># held b (tok_live t)"
proof -
  have "held b (tok_live t) = add_mset (entry_ext b d) (held b ((tok_live t)(i := None)))"
    using held_split [OF tok_live_range [OF assms(2)], of b "tok_live t"] assms(2) by simp
  moreover have "held b ((tok_live t)(i := None))
      = add_mset (entry_ext b e) (held b ((tok_live t)(i := None, j := None)))"
    using held_split [OF tok_live_range [OF assms(3)], of b "(tok_live t)(i := None)"] assms by simp
  ultimately show ?thesis by simp
qed

text \<open>C14: Guest mappings never share guest-physical memory.  In every state reached by mapping,
  unmapping, realising and reaping requests (whatever the host and the isolates answer, whatever
  the guest asks for), the guest-physical ranges of two different live tokens are disjoint, and every
  one of them lies inside the sparse window.\<close>

theorem mmap_tokens_disjoint:
  assumes reach: "mmap_reach s" and i: "tok_live (ms_tbl s) i = Some d"
  shows "sparse_gpa_base (ms_win s) \<le> im_gpa d \<and> 0 < im_len d
      \<and> im_gpa d + im_len d \<le> sparse_gpa_base (ms_win s) + sparse_size (ms_win s)
      \<and> (\<forall>j e. tok_live (ms_tbl s) j = Some e \<and> i \<noteq> j \<longrightarrow>
           ext_disj (im_gpa d, im_len d) (im_gpa e, im_len e))"
proof -
  let ?b = "sparse_gpa_base (ms_win s)"
  obtain K where inv: "mmap_inv s K" using mmap_reach_inv [OF reach] by blast
  then have own: "win_owns (ms_win s) (held ?b (tok_live (ms_tbl s)) + K)"
    and ok: "\<And>k e. tok_live (ms_tbl s) k = Some e \<Longrightarrow> ?b \<le> im_gpa e"
    by (auto simp: mmap_inv_def entry_ok_def)
  have "entry_ext ?b d \<in># held ?b (tok_live (ms_tbl s)) + K"
    using held_split [OF tok_live_range [OF i], of ?b "tok_live (ms_tbl s)"] i by simp
  from win_owns_bounded [OF own this] ok [OF i]
  have bd: "0 < im_len d" "im_gpa d + im_len d \<le> ?b + sparse_size (ms_win s)" by (auto simp: entry_ext_def)
  have "ext_disj (im_gpa d, im_len d) (im_gpa e, im_len e)"
    if "tok_live (ms_tbl s) j = Some e" "i \<noteq> j" for j e
  proof -
    have "ext_disj (entry_ext ?b d) (entry_ext ?b e)"
      by (rule win_owns_disj [OF own]) (metis held_pair [OF that(2) i that(1)] mset_subset_eq_add_left subset_mset.order_trans)
    then show ?thesis using ok [OF i] ok [OF that(1)] by (auto simp: ext_disj_def entry_ext_def)
  qed
  then show ?thesis using bd ok [OF i] by blast
qed

text \<open>A concrete device: handle 2 is open, the window is fresh, and one mapping of 5000 bytes is
  made for isolate 4.\<close>

definition exm_env :: win_env where
  "exm_env = \<lparr>window_base_get = None, kvm_vm_fd = 3, kvm_set_region = (\<lambda>_ _ _. Inr ())\<rparr>"

definition exm_ms :: "nat \<Rightarrow> mmap_state" where
  "exm_ms c = \<lparr>ms_handles = set_slot 2 \<lparr>h_id = 2, h_type = NVKVM_HANDLE_TYPE_NVIDIA, h_fd = 9, h_session = 3,
       h_dev = NVKVM_DEV_CTL, h_refs = 0, h_poll = False, h_in_use = True\<rparr> nvkvm_handle_table_init,
     ms_win = fresh_window\<lparr>sparse_cur := c\<rparr>, ms_pool = kvm_pool_init, ms_tbl = iso_mmap_init\<rparr>"

definition exm_mreq :: "nat \<Rightarrow> mmap_req" where
  "exm_mreq n = \<lparr>mm_isolate = 4, mm_handle = 2, mm_gva = 0x700000000000, mm_offset = 0, mm_length = n,
     mm_prot = 7, mm_flags = 1\<rparr>"

definition exm_entry :: nvkvm_iso_mmap_entry where
  "exm_entry = \<lparr>im_mirrored = True, im_isolate = 4, im_gva = 0x700000000000, im_qva = Some 0x7f0000000000,
     im_len = 8192, im_kvm_slot = NVKVM_IN_WINDOW_SLOT, im_gpa = NVKVM_SPARSE_GPA_BASE\<rparr>"

lemma iso_mmap_alloc_first:
  assumes "iso_mmap_tbl t (iso_mmap_seq t) = None"
  shows "iso_mmap_alloc e t = (iso_mmap_seq t, t\<lparr>iso_mmap_seq := iso_mmap_seq t mod (NVKVM_ISO_MMAP_MAX - 1) + 1,
    iso_mmap_tbl := (iso_mmap_tbl t)(iso_mmap_seq t := Some e)\<rparr>)"
proof -
  obtain m where "NVKVM_ISO_MMAP_MAX - 1 = Suc m" by (auto simp: NVKVM_ISO_MMAP_MAX_def intro: that [of 8190])
  then show ?thesis using assms by (simp add: iso_mmap_alloc_def Let_def)
qed

lemma exm_handle_get:
  "\<exists>h. nvkvm_handle_get 2 (ms_handles (exm_ms c)) = Some h \<and> h_fd h = 9 \<and> h_dev h = NVKVM_DEV_CTL"
  by (simp add: exm_ms_def nvkvm_handle_get_def bad_id_def stale_def slot_of_def set_slot_def NVKVM_HANDLE_MAX_def)

lemma exm_ready: "win_ready (ms_win (exm_ms 0))" "win_inv (ms_win (exm_ms 0)) []"
  using fresh_window_lists by (auto simp: exm_ms_def fresh_window_def win_inv_def)

lemma exm_alloc:
  assumes "c + page_round n \<le> NVKVM_SPARSE_GPA_SIZE" and "4096 dvd c"
  shows "nvkvm_sparse_gpa_alloc exm_env (page_round n) (ms_win (exm_ms c), ms_pool (exm_ms c))
     = (NVKVM_SPARSE_GPA_BASE + c, fresh_window\<lparr>sparse_cur := c + page_round n\<rparr>, kvm_pool_init)"
    and "nvkvm_gpa_to_vmm_va (NVKVM_SPARSE_GPA_BASE + c) (page_round n) (fresh_window\<lparr>sparse_cur := c + page_round n\<rparr>)
     = (if c < NVKVM_SPARSE_GPA_SIZE then Some (0x7f0000000000 + c) else None)"
proof -
  have sz: "NVKVM_SPARSE_GPA_SIZE < 2 ^ 38" by (simp add: NVKVM_SPARSE_GPA_SIZE_def)
  then have c: "page_round c = c" "page_round (page_round n) = page_round n"
    using page_round(4) [of c] page_round(4) [of "page_round n"] assms by (auto simp: page_round_def)
  have w: "wrap64 (c + page_round n) = c + page_round n" "wrap64 (NVKVM_SPARSE_GPA_BASE + c) = NVKVM_SPARSE_GPA_BASE + c"
    "wrap64 (0x7f0000000000 + c) = 0x7f0000000000 + c"
    using assms(1) sz by (auto intro!: wrap64_id simp: NVKVM_SPARSE_GPA_BASE_def)
  show "nvkvm_sparse_gpa_alloc exm_env (page_round n) (ms_win (exm_ms c), ms_pool (exm_ms c))
     = (NVKVM_SPARSE_GPA_BASE + c, fresh_window\<lparr>sparse_cur := c + page_round n\<rparr>, kvm_pool_init)"
    using assms(1) by (simp add: nvkvm_sparse_gpa_alloc_def nvkvm_sparse_ensure_def exm_ms_def sparse_alloc_locked_def
        best_fit_def fresh_window_def c w Let_def) (simp add: NVKVM_SPARSE_GPA_BASE_def)
  show "nvkvm_gpa_to_vmm_va (NVKVM_SPARSE_GPA_BASE + c) (page_round n) (fresh_window\<lparr>sparse_cur := c + page_round n\<rparr>)
     = (if c < NVKVM_SPARSE_GPA_SIZE then Some (0x7f0000000000 + c) else None)"
    using assms(1) by (simp add: nvkvm_gpa_to_vmm_va_def fresh_window_def w Let_def)
qed

definition exm_mapped :: mmap_state where
  "exm_mapped = fst (snd (nvkvm_req_mmap_on_isolate exm_env (Inr 0x7f0000000000) (Inr ()) (exm_mreq 5000) (exm_ms 0)))"

lemma exm_mapped_eq:
  "\<exists>ops. nvkvm_req_mmap_on_isolate exm_env (Inr 0x7f0000000000) (Inr ()) (exm_mreq 5000) (exm_ms 0)
     = (Inr (1, NVKVM_SPARSE_GPA_BASE, 8192), exm_mapped, ops)"
  "tok_live (ms_tbl exm_mapped) = [1 \<mapsto> exm_entry]"
proof -
  have p: "page_round 5000 = 8192" by (simp add: page_round_def wrap64_def)
  have a: "nvkvm_sparse_gpa_alloc exm_env 8192 (ms_win (exm_ms 0), ms_pool (exm_ms 0))
      = (NVKVM_SPARSE_GPA_BASE, fresh_window\<lparr>sparse_cur := 8192\<rparr>, kvm_pool_init)"
    "nvkvm_gpa_to_vmm_va NVKVM_SPARSE_GPA_BASE 8192 (fresh_window\<lparr>sparse_cur := 8192\<rparr>) = Some 0x7f0000000000"
    using exm_alloc [of 0 5000] by (simp_all add: p NVKVM_SPARSE_GPA_SIZE_def)
  obtain h where h: "nvkvm_handle_get 2 (ms_handles (exm_ms 0)) = Some h" "h_fd h = 9" "h_dev h = NVKVM_DEV_CTL"
    using exm_handle_get [of 0] by blast
  have sz: "sparse_size (ms_win (exm_ms 0)) = NVKVM_SPARSE_GPA_SIZE" "ms_tbl (exm_ms 0) = iso_mmap_init"
    by (simp_all add: exm_ms_def fresh_window_def)
  have ia: "iso_mmap_alloc e iso_mmap_init = (1, \<lparr>iso_mmap_tbl = [1 \<mapsto> e], iso_mmap_seq = 2\<rparr>)" for e
    using iso_mmap_alloc_first [of iso_mmap_init e] by (simp add: iso_mmap_init_def NVKVM_ISO_MMAP_MAX_def)
  have b: "NVKVM_SPARSE_GPA_BASE \<noteq> 0" "\<not> NVKVM_SPARSE_GPA_SIZE < 8192" "\<not> NVKVM_SPARSE_GPA_SIZE < 5000"
    "NVKVM_DEV_CTL \<noteq> NVKVM_DEV_UVM"
    by (simp_all add: NVKVM_SPARSE_GPA_BASE_def NVKVM_SPARSE_GPA_SIZE_def NVKVM_DEV_CTL_def NVKVM_DEV_UVM_def)
  have r: "\<exists>ops s'. nvkvm_req_mmap_on_isolate exm_env (Inr 0x7f0000000000) (Inr ()) (exm_mreq 5000) (exm_ms 0)
     = (Inr (1, NVKVM_SPARSE_GPA_BASE, 8192), s', ops) \<and> ms_tbl s' = \<lparr>iso_mmap_tbl = [1 \<mapsto> exm_entry], iso_mmap_seq = 2\<rparr>"
    by (simp add: nvkvm_req_mmap_on_isolate_def exm_mreq_def h p sz a b mmap_record_def ia exm_entry_def)
  then show "\<exists>ops. nvkvm_req_mmap_on_isolate exm_env (Inr 0x7f0000000000) (Inr ()) (exm_mreq 5000) (exm_ms 0)
     = (Inr (1, NVKVM_SPARSE_GPA_BASE, 8192), exm_mapped, ops)"
    by (auto simp: exm_mapped_def)
  show "tok_live (ms_tbl exm_mapped) = [1 \<mapsto> exm_entry]"
    using r by (auto simp: exm_mapped_def tok_live_def fun_eq_iff NVKVM_ISO_MMAP_MAX_def)
qed

lemma exm_start: "mmap_reach (exm_ms 0)" "mmap_inv (exm_ms 0) {#}"
  using reach_start mmap_start_inv exm_ready(2) by (simp_all add: exm_ms_def)

theorem mmap_tokens_disjoint_witness:
  "mmap_reach exm_mapped \<and> tok_live (ms_tbl exm_mapped) 1 = Some exm_entry
   \<and> sparse_gpa_base (ms_win exm_mapped) \<le> NVKVM_SPARSE_GPA_BASE"
proof -
  have r: "mmap_reach exm_mapped" using reach_mmap [OF exm_start(1)] exm_mapped_eq(1) by blast
  then show ?thesis
    using mmap_tokens_disjoint [OF r, of 1 exm_entry] by (simp add: exm_mapped_eq(2)) (simp add: exm_entry_def)
qed

text \<open>Killing an isolate gives back everything it held.  The reaper removes exactly the live
  tokens of the isolate, counts them, leaves every other token as it was, and returns their extents
  to the window: the extents that no token accounts for are the same before and after.\<close>

lemma iso_reap_complete:
  assumes "mmap_inv s K" and "nvkvm_iso_mmap_reap_isolate env isolate s = (n, s', ops)"
  shows "mmap_inv s' K
    \<and> (\<forall>k. tok_live (ms_tbl s') k = (case tok_live (ms_tbl s) k of
         None \<Rightarrow> None | Some e \<Rightarrow> if im_isolate e = isolate then None else Some e))
    \<and> n = card {k. \<exists>e. tok_live (ms_tbl s) k = Some e \<and> im_isolate e = isolate}"
  using reap_keeps [OF assms] by (simp add: reaped_live_def split: option.split)

text \<open>A request whose host mapping fails, repeated.\<close>

definition exm_fail :: "mmap_state \<Rightarrow> mmap_state" where
  "exm_fail s = fst (snd (nvkvm_req_mmap_on_isolate exm_env (Inl EACCES) (Inr ()) (exm_mreq 4096) s))"

lemma exm_fail_step:
  assumes "c + 4096 \<le> NVKVM_SPARSE_GPA_SIZE" and "4096 dvd c"
  shows "exm_fail (exm_ms c) = exm_ms (c + 4096)"
proof -
  have p: "page_round 4096 = 4096" by (simp add: page_round_def wrap64_def)
  obtain h where h: "nvkvm_handle_get 2 (ms_handles (exm_ms c)) = Some h" "h_fd h = 9" "h_dev h = NVKVM_DEV_CTL"
    using exm_handle_get by blast
  have sz: "sparse_size (ms_win (exm_ms c)) = NVKVM_SPARSE_GPA_SIZE" by (simp add: exm_ms_def fresh_window_def)
  have b: "NVKVM_SPARSE_GPA_BASE + c \<noteq> 0" "\<not> NVKVM_SPARSE_GPA_SIZE < 4096" "c < NVKVM_SPARSE_GPA_SIZE"
    "NVKVM_DEV_CTL \<noteq> NVKVM_DEV_UVM"
    using assms(1) by (simp_all add: NVKVM_SPARSE_GPA_BASE_def NVKVM_DEV_CTL_def NVKVM_DEV_UVM_def)
  show ?thesis
    using exm_alloc [of c 4096] assms b
    by (simp add: exm_fail_def nvkvm_req_mmap_on_isolate_def exm_mreq_def h p sz) (simp add: exm_ms_def)
qed

lemma exm_fail_iterate:
  "4096 * n \<le> NVKVM_SPARSE_GPA_SIZE \<Longrightarrow> (exm_fail ^^ n) (exm_ms 0) = exm_ms (4096 * n)"
proof (induction n)
  case (Suc n)
  then have "(exm_fail ^^ Suc n) (exm_ms 0) = exm_fail (exm_ms (4096 * n))" by simp
  also have "\<dots> = exm_ms (4096 * n + 4096)" by (rule exm_fail_step) (use Suc.prems in auto)
  finally show ?case by (simp add: algebra_simps)
qed simp

text \<open>A mapping whose host \<open>mmap\<close> fails loses its guest-physical extent for good.  The
  extent is allocated before the host call and the failure path does not free it; nothing in the token
  table refers to it.  After as many failing one-page requests as the window has pages, the table is
  still empty but the window is exhausted: every later request of a page is refused with
  \<open>ENOMEM\<close>, whatever the host and the isolate would answer.\<close>

lemma mmap_failures_exhaust_window:
  "(let s = (exm_fail ^^ (NVKVM_SPARSE_GPA_SIZE div 4096)) (exm_ms 0) in
      ms_tbl s = iso_mmap_init
      \<and> fst (nvkvm_req_mmap_on_isolate exm_env os_mmap stub_mmap (exm_mreq 4096) s) = Inl ENOMEM)"
proof -
  let ?s = "exm_ms NVKVM_SPARSE_GPA_SIZE"
  have d: "4096 * (NVKVM_SPARSE_GPA_SIZE div 4096) = NVKVM_SPARSE_GPA_SIZE"
    by (simp add: NVKVM_SPARSE_GPA_SIZE_def)
  have s: "(exm_fail ^^ (NVKVM_SPARSE_GPA_SIZE div 4096)) (exm_ms 0) = ?s"
    using exm_fail_iterate [of "NVKVM_SPARSE_GPA_SIZE div 4096"] by (simp add: d)
  have p: "page_round 4096 = 4096" by (simp add: page_round_def wrap64_def)
  obtain h where h: "nvkvm_handle_get 2 (ms_handles ?s) = Some h" "h_fd h = 9"
    using exm_handle_get by blast
  have sz: "sparse_size (ms_win ?s) = NVKVM_SPARSE_GPA_SIZE" by (simp add: exm_ms_def fresh_window_def)
  have "nvkvm_sparse_gpa_alloc exm_env 4096 (ms_win ?s, ms_pool ?s) = (0, ms_win ?s, ms_pool ?s)"
    by (simp add: nvkvm_sparse_gpa_alloc_def nvkvm_sparse_ensure_def exm_ms_def sparse_alloc_locked_def
        best_fit_def fresh_window_def page_round_def wrap64_def Let_def NVKVM_SPARSE_GPA_SIZE_def NVKVM_SPARSE_GPA_BASE_def)
  moreover have "\<not> NVKVM_SPARSE_GPA_SIZE < 4096" by (simp add: NVKVM_SPARSE_GPA_SIZE_def)
  ultimately show ?thesis
    by (simp add: s nvkvm_req_mmap_on_isolate_def exm_mreq_def h p sz) (simp add: exm_ms_def)
qed

end
