(* ===== verification/ObjectGraph.thy ===== *)
theory ObjectGraph
  imports Prelude
begin

text \<open>
  The graph of RM objects that the device keeps per root client (\<open>qemu/nvkvm_objects.c\<close>).
  Objects live in an array of \<open>NVKVM_MAX_OBJECTS_PER_CLIENT\<close> slots; a pointer to an object is
  the number of its slot, and an empty slot is \<open>None\<close>, so that following a pointer to a freed object
  is visible as \<open>None\<close>.  No caller installs a release callback, so the callback is left out.

  Freeing an object frees everything that depends on it.  The recursion that collects these objects
  has no guard against cycles; it is modelled with fuel, and whether it ends is part of what is proved.
\<close>

definition NVKVM_MAX_OBJECTS_PER_CLIENT :: nat where
  "NVKVM_MAX_OBJECTS_PER_CLIENT = 4096"

record nvkvm_object =
  o_handle :: u32
  o_class :: u32
  o_parent :: u32
  o_deps :: "nat list"
  o_rdeps :: "nat list"

record nvkvm_client =
  c_handle :: u32
  c_resources :: "nat \<Rightarrow> nvkvm_object option"
  c_nresources :: int

definition nvkvm_client_alloc :: "u32 \<Rightarrow> nvkvm_client" where
  "nvkvm_client_alloc h = \<lparr>c_handle = h, c_resources = (\<lambda>_. None), c_nresources = 0\<rparr>"

definition obj_index :: "u32 \<Rightarrow> nat" where
  "obj_index h = unat h mod NVKVM_MAX_OBJECTS_PER_CLIENT"

definition nvkvm_obj_lookup :: "nvkvm_client \<Rightarrow> u32 \<Rightarrow> nat option" where
  "nvkvm_obj_lookup c h =
    (case c_resources c (obj_index h) of
       None \<Rightarrow> None
     | Some ob \<Rightarrow> if o_handle ob = h then Some (obj_index h) else None)"

section \<open>Adding\<close>

definition add_edge :: "nat \<Rightarrow> nat \<Rightarrow> (nat \<Rightarrow> nvkvm_object option) \<Rightarrow> nat \<Rightarrow> nvkvm_object option" where
  "add_edge i j R =
    (let R1 = R(i := map_option (\<lambda>ob. ob\<lparr>o_deps := o_deps ob @ [j]\<rparr>) (R i))
     in R1(j := map_option (\<lambda>ob. ob\<lparr>o_rdeps := o_rdeps ob @ [i]\<rparr>) (R1 j)))"

definition nvkvm_obj_add_dep :: "u32 \<Rightarrow> u32 \<Rightarrow> nvkvm_client \<Rightarrow> nvkvm_client" where
  "nvkvm_obj_add_dep h1 h2 c =
    (case (nvkvm_obj_lookup c h1, nvkvm_obj_lookup c h2) of
       (Some i, Some j) \<Rightarrow> c\<lparr>c_resources := add_edge i j (c_resources c)\<rparr>
     | _ \<Rightarrow> c)"

definition nvkvm_obj_add :: "u32 \<Rightarrow> u32 \<Rightarrow> u32 \<Rightarrow> nvkvm_client \<Rightarrow> unit result \<times> nvkvm_client" where
  "nvkvm_obj_add h cls parent c =
    (if h = 0 then (Inl EINVAL, c)
     else if c_resources c (obj_index h) \<noteq> None then (Inl EEXIST, c)
     else let ob = \<lparr>o_handle = h, o_class = cls, o_parent = parent, o_deps = [], o_rdeps = []\<rparr>;
              c1 = c\<lparr>c_resources := (c_resources c)(obj_index h := Some ob), c_nresources := c_nresources c + 1\<rparr>
          in (Inr (), if parent \<noteq> 0 then nvkvm_obj_add_dep h parent c1 else c1))"

section \<open>Freeing\<close>

text \<open>\<open>None\<close>: out of fuel, or a pointer to a freed object was followed.\<close>

fun collect_free_list :: "nat \<Rightarrow> (nat \<Rightarrow> nvkvm_object option) \<Rightarrow> nat \<Rightarrow> nat list \<Rightarrow> nat list option"
  and collect_rdeps :: "nat \<Rightarrow> (nat \<Rightarrow> nvkvm_object option) \<Rightarrow> nat list \<Rightarrow> nat list \<Rightarrow> nat list option" where
  "collect_free_list 0 R i fl = None"
| "collect_free_list (Suc n) R i fl =
    (if i \<in> set fl then Some fl
     else case R i of
       None \<Rightarrow> None
     | Some ob \<Rightarrow> map_option (\<lambda>fl'. fl' @ [i]) (collect_rdeps n R (o_rdeps ob) fl))"
| "collect_rdeps n R [] fl = Some fl"
| "collect_rdeps n R (i # is) fl =
    (case collect_free_list n R i fl of None \<Rightarrow> None | Some fl' \<Rightarrow> collect_rdeps n R is fl')"

definition remove_link :: "nat \<Rightarrow> nat list \<Rightarrow> nat list" where
  "remove_link i rdeps =
    (case first_index (\<lambda>j. j = i) rdeps of None \<Rightarrow> rdeps | Some k \<Rightarrow> swap_remove k rdeps)"

fun unlink_deps ::
  "nat \<Rightarrow> nat list \<Rightarrow> (nat \<Rightarrow> nvkvm_object option) \<Rightarrow> (nat \<Rightarrow> nvkvm_object option) option" where
  "unlink_deps i [] R = Some R"
| "unlink_deps i (j # js) R =
    (case R j of
       None \<Rightarrow> None
     | Some ob \<Rightarrow> unlink_deps i js (R(j \<mapsto> ob\<lparr>o_rdeps := remove_link i (o_rdeps ob)\<rparr>)))"

fun free_loop :: "nat list \<Rightarrow> nvkvm_client \<Rightarrow> nvkvm_client option" where
  "free_loop [] c = Some c"
| "free_loop (i # is) c =
    (case c_resources c i of
       None \<Rightarrow> None
     | Some ob \<Rightarrow>
        (case unlink_deps i (o_deps ob) (c_resources c) of
           None \<Rightarrow> None
         | Some R \<Rightarrow> free_loop is (c\<lparr>c_resources := R(obj_index (o_handle ob) := None),
             c_nresources := c_nresources c - 1\<rparr>)))"

definition nvkvm_obj_free :: "nat \<Rightarrow> u32 \<Rightarrow> nvkvm_client \<Rightarrow> nvkvm_client option" where
  "nvkvm_obj_free fuel h c =
    (case nvkvm_obj_lookup c h of
       None \<Rightarrow> Some c
     | Some i \<Rightarrow>
        (case collect_free_list fuel (c_resources c) i [] of
           None \<Rightarrow> None
         | Some fl \<Rightarrow> free_loop fl c))"

definition nvkvm_client_free :: "nvkvm_client \<Rightarrow> nvkvm_client" where
  "nvkvm_client_free c = c\<lparr>c_resources := fold (\<lambda>i R. R(i := None)) [0..<NVKVM_MAX_OBJECTS_PER_CLIENT] (c_resources c),
     c_nresources := 0\<rparr>"

section \<open>Well-formed graphs\<close>

text \<open>The edges from an object to those that depend on it.\<close>

definition rdep_rel :: "(nat \<Rightarrow> nvkvm_object option) \<Rightarrow> (nat \<times> nat) set" where
  "rdep_rel R = {(i, j). \<exists>ob. R i = Some ob \<and> j \<in> set (o_rdeps ob)}"

definition live :: "(nat \<Rightarrow> nvkvm_object option) \<Rightarrow> nat set" where
  "live R = {i. R i \<noteq> None}"

definition graph_inv :: "nvkvm_client \<Rightarrow> bool" where
  "graph_inv c \<longleftrightarrow>
     live (c_resources c) \<subseteq> {..<NVKVM_MAX_OBJECTS_PER_CLIENT}
     \<and> c_nresources c = int (card (live (c_resources c)))
     \<and> (\<forall>i ob. c_resources c i = Some ob \<longrightarrow> obj_index (o_handle ob) = i
          \<and> set (o_deps ob) \<subseteq> live (c_resources c) \<and> set (o_rdeps ob) \<subseteq> live (c_resources c))
     \<and> (\<forall>i ob j ob'. c_resources c i = Some ob \<longrightarrow> c_resources c j = Some ob' \<longrightarrow>
          count (mset (o_deps ob)) j = count (mset (o_rdeps ob')) i)
     \<and> acyclic (rdep_rel (c_resources c))"

section \<open>Collecting\<close>

text \<open>A free list in which everything that depends on an object comes before it.\<close>

definition dependents_first :: "(nat \<Rightarrow> nvkvm_object option) \<Rightarrow> nat list \<Rightarrow> bool" where
  "dependents_first R fl \<longleftrightarrow> (\<forall>k < length fl. rdep_rel R `` {fl ! k} \<subseteq> set (take k fl))"

lemma dependents_first_snoc:
  assumes "dependents_first R fl" and "rdep_rel R `` {i} \<subseteq> set fl"
  shows "dependents_first R (fl @ [i])"
  using assms by (auto simp: dependents_first_def nth_append less_Suc_eq)

lemma dependents_first_closed:
  assumes "dependents_first R fl" and "(i, j) \<in> (rdep_rel R)\<^sup>*" and "i \<in> set fl"
  shows "j \<in> set fl"
  using assms(2,3)
proof (induction rule: rtrancl_induct)
  case (step j k)
  then obtain n where "n < length fl" "fl ! n = j" by (auto simp: in_set_conv_nth)
  with step assms(1) have "k \<in> set (take n fl)" by (auto simp: dependents_first_def)
  then show ?case by (rule in_set_takeD)
qed

lemma collect_sound:
  "acyclic (rdep_rel R) \<Longrightarrow> dependents_first R fl \<Longrightarrow> distinct fl \<Longrightarrow> collect_free_list n R i fl = Some fl'
    \<Longrightarrow> \<exists>ys. fl' = fl @ ys \<and> dependents_first R fl' \<and> distinct fl' \<and> i \<in> set fl'
          \<and> set ys \<subseteq> (rdep_rel R)\<^sup>* `` {i}"
  "acyclic (rdep_rel R) \<Longrightarrow> dependents_first R fl \<Longrightarrow> distinct fl \<Longrightarrow> collect_rdeps n R is fl = Some fl'
    \<Longrightarrow> \<exists>ys. fl' = fl @ ys \<and> dependents_first R fl' \<and> distinct fl' \<and> set is \<subseteq> set fl'
          \<and> set ys \<subseteq> (rdep_rel R)\<^sup>* `` set is"
proof (induction n R i fl and n R "is" fl arbitrary: fl' and fl' rule: collect_free_list_collect_rdeps.induct)
  case (2 n R i fl)
  show ?case
  proof (cases "i \<in> set fl")
    case True
    then show ?thesis using 2 by auto
  next
    case False
    then obtain ob fl1 where ob: "R i = Some ob" and c: "collect_rdeps n R (o_rdeps ob) fl = Some fl1" "fl' = fl1 @ [i]"
      using "2.prems"(4) by (auto split: option.splits)
    have E: "rdep_rel R `` {i} = set (o_rdeps ob)" using ob by (auto simp: rdep_rel_def)
    obtain ys where ys: "fl1 = fl @ ys" "dependents_first R fl1" "distinct fl1" "set (o_rdeps ob) \<subseteq> set fl1"
      "set ys \<subseteq> (rdep_rel R)\<^sup>* `` set (o_rdeps ob)"
      using "2.IH" [OF False ob "2.prems"(1-3) c(1)] by blast
    have sub: "(rdep_rel R)\<^sup>* `` set (o_rdeps ob) \<subseteq> (rdep_rel R)\<^sup>+ `` {i}"
      unfolding E [symmetric] by (auto intro: rtrancl_into_trancl2)
    then have "i \<in> set ys \<Longrightarrow> (i, i) \<in> (rdep_rel R)\<^sup>+" using ys(5) by blast
    then have "i \<notin> set ys" using "2.prems"(1) by (auto simp: acyclic_def)
    then have "distinct fl'" "dependents_first R fl'"
      using ys False c(2) dependents_first_snoc [OF ys(2)] E by auto
    moreover have "set (ys @ [i]) \<subseteq> (rdep_rel R)\<^sup>* `` {i}"
      using ys(5) sub by (auto intro: trancl_into_rtrancl)
    ultimately show ?thesis using c(2) ys(1) by (intro exI [of _ "ys @ [i]"]) auto
  qed
next
  case (4 n R i "is" fl)
  obtain fl1 where c: "collect_free_list n R i fl = Some fl1" "collect_rdeps n R is fl1 = Some fl'"
    using "4.prems"(4) by (auto split: option.splits)
  obtain ys where ys: "fl1 = fl @ ys" "dependents_first R fl1" "distinct fl1" "i \<in> set fl1"
    "set ys \<subseteq> (rdep_rel R)\<^sup>* `` {i}"
    using "4.IH"(1) [OF "4.prems"(1-3) c(1)] by blast
  obtain zs where "fl' = fl1 @ zs" "dependents_first R fl'" "distinct fl'" "set is \<subseteq> set fl'"
    "set zs \<subseteq> (rdep_rel R)\<^sup>* `` set is"
    using "4.IH"(2) [OF c(1) "4.prems"(1) ys(2,3) c(2)] by blast
  then show ?case using ys by (intro exI [of _ "ys @ zs"]) auto
qed auto


text \<open>Fuel: more than the number of objects that are reachable is enough.\<close>

lemma reach_shrinks:
  assumes "acyclic E" and "(i, j) \<in> E" and "finite (E\<^sup>* `` {i})"
  shows "card (E\<^sup>* `` {j}) < card (E\<^sup>* `` {i})"
proof (rule psubset_card_mono [OF assms(3)])
  have "E\<^sup>* `` {j} \<subseteq> E\<^sup>* `` {i}" using assms(2) by (auto intro: converse_rtrancl_into_rtrancl)
  moreover have "i \<notin> E\<^sup>* `` {j}"
    using assms(1,2) rtrancl_into_trancl2 [of i j E i] by (auto simp: acyclic_def)
  ultimately show "E\<^sup>* `` {j} \<subset> E\<^sup>* `` {i}" by auto
qed

lemma collect_enough:
  assumes acyc: "acyclic (rdep_rel R)" and live: "\<And>i ob. R i = Some ob \<Longrightarrow> set (o_rdeps ob) \<subseteq> live R"
    and fin: "finite (live R)"
  shows "i \<in> live R \<Longrightarrow> card ((rdep_rel R)\<^sup>* `` {i}) < n \<Longrightarrow> collect_free_list n R i fl \<noteq> None"
proof (induction n arbitrary: i fl)
  case (Suc n)
  obtain ob where ob: "R i = Some ob" using Suc.prems(1) by (auto simp: live_def)
  have cl: "(rdep_rel R)\<^sup>* `` {i} \<subseteq> live R"
  proof (rule subsetI, clarsimp)
    fix j
    assume "(i, j) \<in> (rdep_rel R)\<^sup>*"
    then show "j \<in> live R" using Suc.prems(1)
      by (induction rule: rtrancl_induct) (use live in \<open>auto simp: rdep_rel_def\<close>)
  qed
  have step: "collect_free_list n R j fl \<noteq> None" if "j \<in> set (o_rdeps ob)" for j fl
  proof (rule Suc.IH)
    show "j \<in> live R" using live [OF ob] that by auto
    have "(i, j) \<in> rdep_rel R" using ob that by (auto simp: rdep_rel_def)
    then have "card ((rdep_rel R)\<^sup>* `` {j}) < card ((rdep_rel R)\<^sup>* `` {i})"
      by (rule reach_shrinks [OF acyc]) (rule finite_subset [OF cl fin])
    then show "card ((rdep_rel R)\<^sup>* `` {j}) < n" using Suc.prems(2) by simp
  qed
  have "set js \<subseteq> set (o_rdeps ob) \<Longrightarrow> collect_rdeps n R js fl \<noteq> None" for js
    by (induction js arbitrary: fl) (use step in \<open>auto split: option.splits\<close>)
  then show ?case using ob by auto
qed simp

lemma graph_inv_facts:
  assumes "graph_inv c"
  shows "finite (live (c_resources c))" "acyclic (rdep_rel (c_resources c))"
    "card (live (c_resources c)) \<le> NVKVM_MAX_OBJECTS_PER_CLIENT"
    "c_resources c i = Some ob \<Longrightarrow> set (o_rdeps ob) \<subseteq> live (c_resources c)"
    "c_resources c i = Some ob \<Longrightarrow> set (o_deps ob) \<subseteq> live (c_resources c)"
    "c_resources c i = Some ob \<Longrightarrow> obj_index (o_handle ob) = i"
    "c_resources c i = Some ob \<Longrightarrow> c_resources c j = Some ob' \<Longrightarrow>
       count (mset (o_deps ob)) j = count (mset (o_rdeps ob')) i"
proof -
  have sub: "live (c_resources c) \<subseteq> {..<NVKVM_MAX_OBJECTS_PER_CLIENT}" using assms unfolding graph_inv_def by blast
  then show "finite (live (c_resources c))" by (rule finite_subset) simp
  show "card (live (c_resources c)) \<le> NVKVM_MAX_OBJECTS_PER_CLIENT"
    using card_mono [OF _ sub] by simp
qed (use assms in \<open>unfold graph_inv_def, blast+\<close>)

lemma reach_live:
  assumes "graph_inv c" and "i \<in> live (c_resources c)"
  shows "(rdep_rel (c_resources c))\<^sup>* `` {i} \<subseteq> live (c_resources c)"
proof (rule subsetI, clarsimp)
  fix j
  assume "(i, j) \<in> (rdep_rel (c_resources c))\<^sup>*"
  then show "j \<in> live (c_resources c)" using assms(2)
    by (induction rule: rtrancl_induct) (use graph_inv_facts(4) [OF assms(1)] in \<open>auto simp: rdep_rel_def\<close>)
qed

lemma collect_free_list_spec:
  assumes "graph_inv c" and "i \<in> live (c_resources c)" and "NVKVM_MAX_OBJECTS_PER_CLIENT < n"
  shows "\<exists>fl. collect_free_list n (c_resources c) i [] = Some fl \<and> distinct fl
    \<and> set fl = (rdep_rel (c_resources c))\<^sup>* `` {i} \<and> dependents_first (c_resources c) fl
    \<and> length fl \<le> NVKVM_MAX_OBJECTS_PER_CLIENT"
proof -
  let ?R = "c_resources c"
  note I = graph_inv_facts [OF assms(1)]
  have le: "card ((rdep_rel ?R)\<^sup>* `` {i}) \<le> NVKVM_MAX_OBJECTS_PER_CLIENT"
    using card_mono [OF I(1) reach_live [OF assms(1,2)]] I(3) by simp
  then have "collect_free_list n ?R i [] \<noteq> None"
    using assms(3) by (intro collect_enough [OF I(2) I(4) I(1) assms(2)]) simp_all
  then obtain fl where fl: "collect_free_list n ?R i [] = Some fl" by auto
  have S: "dependents_first ?R fl" "distinct fl" "i \<in> set fl" "set fl \<subseteq> (rdep_rel ?R)\<^sup>* `` {i}"
    using collect_sound(1) [OF I(2) _ _ fl] by (auto simp: dependents_first_def)
  then have "set fl = (rdep_rel ?R)\<^sup>* `` {i}"
    using dependents_first_closed [OF S(1)] by blast
  then show ?thesis using S(1,2) fl le distinct_card [OF S(2)] by auto
qed

section \<open>Freeing removes the dependents and nothing else\<close>

lemma mset_remove_link: "mset (remove_link i xs) = mset xs - {#i#}"
proof (cases "first_index (\<lambda>j. j = i) xs")
  case None
  then have "i \<notin># mset xs" by (auto simp: first_index_None)
  then show ?thesis using None by (simp add: remove_link_def diff_single_trivial)
next
  case (Some k)
  then show ?thesis using first_index_Some [OF Some] by (simp add: remove_link_def mset_swap_remove)
qed

text \<open>\<open>sheds F R R'\<close>: \<open>R'\<close> is \<open>R\<close> without the objects of \<open>F\<close> and without the links to them.\<close>

definition sheds :: "nat set \<Rightarrow> (nat \<Rightarrow> nvkvm_object option) \<Rightarrow> (nat \<Rightarrow> nvkvm_object option) \<Rightarrow> bool" where
  "sheds F R R' \<longleftrightarrow> (\<forall>j. if j \<in> F then R' j = None else
     (case R j of None \<Rightarrow> R' j = None
      | Some ob \<Rightarrow> \<exists>rd. R' j = Some (ob\<lparr>o_rdeps := rd\<rparr>) \<and> mset rd = filter_mset (\<lambda>x. x \<notin> F) (mset (o_rdeps ob))))"

lemma shedsD:
  assumes "sheds F R R'" and "j \<notin> F" and "R j = Some ob"
  shows "\<exists>rd. R' j = Some (ob\<lparr>o_rdeps := rd\<rparr>) \<and> mset rd = filter_mset (\<lambda>x. x \<notin> F) (mset (o_rdeps ob))"
  using assms(1) [unfolded sheds_def, THEN spec, of j] assms(2,3) by simp

lemma sheds_None:
  assumes "sheds F R R'" and "j \<in> F \<or> R j = None"
  shows "R' j = None"
  using assms(1) [unfolded sheds_def, THEN spec, of j] assms(2) by (simp split: if_splits option.splits)

lemma shedsI:
  assumes "\<And>j. j \<in> F \<or> R j = None \<Longrightarrow> R' j = None"
    and "\<And>j ob. j \<notin> F \<Longrightarrow> R j = Some ob \<Longrightarrow>
      \<exists>rd. R' j = Some (ob\<lparr>o_rdeps := rd\<rparr>) \<and> mset rd = filter_mset (\<lambda>x. x \<notin> F) (mset (o_rdeps ob))"
  shows "sheds F R R'"
  unfolding sheds_def using assms by (auto split: option.splits)

lemma sheds_empty: "sheds {} R R"
proof (rule shedsI)
  fix j ob
  assume "R j = Some ob"
  then show "\<exists>rd. R j = Some (ob\<lparr>o_rdeps := rd\<rparr>) \<and> mset rd = filter_mset (\<lambda>x. x \<notin> {}) (mset (o_rdeps ob))"
    by (intro exI [of _ "o_rdeps ob"]) simp
qed simp

lemma unlink_deps_spec:
  assumes "set js \<subseteq> live R"
  shows "\<exists>R'. unlink_deps i js R = Some R' \<and> (\<forall>j. case R j of None \<Rightarrow> R' j = None
    | Some ob \<Rightarrow> \<exists>rd. R' j = Some (ob\<lparr>o_rdeps := rd\<rparr>)
        \<and> mset rd = mset (o_rdeps ob) - replicate_mset (count (mset js) j) i)"
  using assms
proof (induction js arbitrary: R)
  case Nil
  have "\<exists>rd. ob = ob\<lparr>o_rdeps := rd\<rparr> \<and> mset rd = mset (o_rdeps ob)" for ob :: nvkvm_object
    by (rule exI [of _ "o_rdeps ob"]) simp
  then show ?case by (auto split: option.splits)
next
  case (Cons j js)
  obtain ob where ob: "R j = Some ob" using Cons.prems by (auto simp: live_def)
  let ?R = "R(j \<mapsto> ob\<lparr>o_rdeps := remove_link i (o_rdeps ob)\<rparr>)"
  have "set js \<subseteq> live ?R" using Cons.prems by (auto simp: live_def)
  from Cons.IH [OF this] obtain R' where R': "unlink_deps i js ?R = Some R'"
    and E: "\<And>k. case ?R k of None \<Rightarrow> R' k = None
      | Some ob \<Rightarrow> \<exists>rd. R' k = Some (ob\<lparr>o_rdeps := rd\<rparr>)
        \<and> mset rd = mset (o_rdeps ob) - replicate_mset (count (mset js) k) i" by blast
  have "case R k of None \<Rightarrow> R' k = None
    | Some ob \<Rightarrow> \<exists>rd. R' k = Some (ob\<lparr>o_rdeps := rd\<rparr>)
        \<and> mset rd = mset (o_rdeps ob) - replicate_mset (count (mset (j # js)) k) i" for k
  proof (cases "k = j")
    case True
    then obtain rd where "R' k = Some (ob\<lparr>o_rdeps := rd\<rparr>)"
      "mset rd = mset (o_rdeps ob) - {#i#} - replicate_mset (count (mset js) j) i"
      using E [of k] by (auto simp: mset_remove_link)
    moreover have "mset (o_rdeps ob) - {#i#} - replicate_mset n i = mset (o_rdeps ob) - replicate_mset (Suc n) i" for n
      by (simp add: multiset_eq_iff)
    ultimately show ?thesis using ob True by auto
  next
    case False
    then have "count (mset (j # js)) k = count (mset js) k" "?R k = R k" by simp_all
    then show ?thesis using E [of k] by (simp only:)
  qed
  then show ?case using R' ob by auto
qed

lemma sheds_step:
  assumes inv: "graph_inv c" and sh: "sheds F (c_resources c) R"
    and ob: "c_resources c i = Some ob" and new: "i \<notin> F" and deps: "set (o_deps ob) \<inter> F = {}"
  shows "\<exists>ob1 R'. R i = Some ob1 \<and> obj_index (o_handle ob1) = i \<and> unlink_deps i (o_deps ob1) R = Some R'
    \<and> sheds (insert i F) (c_resources c) (R'(i := None))"
proof -
  note I = graph_inv_facts [OF inv]
  obtain rd where R: "R i = Some (ob\<lparr>o_rdeps := rd\<rparr>)" using shedsD [OF sh new ob] by blast
  have "j \<in> live R" if "j \<in> set (o_deps ob)" for j
  proof -
    have "j \<notin> F" "j \<in> live (c_resources c)" using that I(5) [OF ob] deps by auto
    then show ?thesis using shedsD [OF sh, of j] by (auto simp: live_def)
  qed
  then have "set (o_deps ob) \<subseteq> live R" ..
  then obtain R' where R': "unlink_deps i (o_deps ob) R = Some R'" and E: "\<And>j. case R j of None \<Rightarrow> R' j = None
    | Some ob' \<Rightarrow> \<exists>rd. R' j = Some (ob'\<lparr>o_rdeps := rd\<rparr>)
        \<and> mset rd = mset (o_rdeps ob') - replicate_mset (count (mset (o_deps ob)) j) i"
    using unlink_deps_spec by blast
  have "sheds (insert i F) (c_resources c) (R'(i := None))"
  proof (rule shedsI)
    fix j
    assume "j \<in> insert i F \<or> c_resources c j = None"
    then have "j = i \<or> R j = None" using sheds_None [OF sh, of j] by auto
    then show "(R'(i := None)) j = None" using E [of j] by auto
  next
    fix j ob'
    assume j: "j \<notin> insert i F" "c_resources c j = Some ob'"
    then obtain rd' where r: "R j = Some (ob'\<lparr>o_rdeps := rd'\<rparr>)"
      "mset rd' = filter_mset (\<lambda>x. x \<notin> F) (mset (o_rdeps ob'))"
      using shedsD [OF sh, of j ob'] by blast
    have "count (mset (o_deps ob)) j = count (mset rd') i"
      using I(7) [OF ob j(2)] new r(2) by simp
    then have eq: "mset rd' - replicate_mset (count (mset (o_deps ob)) j) i
      = filter_mset (\<lambda>x. x \<notin> insert i F) (mset (o_rdeps ob'))"
      using r(2) new by (simp add: multiset_eq_iff)
    obtain rd2 where "R' j = Some (ob'\<lparr>o_rdeps := rd2\<rparr>)"
      "mset rd2 = mset rd' - replicate_mset (count (mset (o_deps ob)) j) i"
      using E [of j] r(1) by auto
    then show "\<exists>rd. (R'(i := None)) j = Some (ob'\<lparr>o_rdeps := rd\<rparr>)
      \<and> mset rd = filter_mset (\<lambda>x. x \<notin> insert i F) (mset (o_rdeps ob'))"
      using j(1) eq by auto
  qed
  then show ?thesis using R R' I(6) [OF ob] by auto
qed

lemma free_loop_sheds:
  assumes inv: "graph_inv c" and fl: "dependents_first (c_resources c) fl" "distinct fl" "set fl \<subseteq> live (c_resources c)"
  shows "fl = xs @ ys \<Longrightarrow> sheds (set xs) (c_resources c) (c_resources d) \<Longrightarrow>
    \<exists>d'. free_loop ys d = Some d' \<and> sheds (set fl) (c_resources c) (c_resources d')
      \<and> c_handle d' = c_handle d \<and> c_nresources d' = c_nresources d - int (length ys)"
proof (induction ys arbitrary: xs d)
  case (Cons i ys)
  obtain ob where ob: "c_resources c i = Some ob" using Cons.prems(1) fl(3) by (auto simp: live_def)
  have new: "i \<notin> set xs" using Cons.prems(1) fl(2) by auto
  have deps: "set (o_deps ob) \<inter> set xs = {}"
  proof (rule ccontr)
    assume "\<not> ?thesis"
    then obtain j where j: "j \<in> set (o_deps ob)" "j \<in> set xs" by auto
    then obtain k where k: "k < length xs" "xs ! k = j" by (auto simp: in_set_conv_nth)
    obtain ob' where ob': "c_resources c j = Some ob'" using graph_inv_facts(5) [OF inv ob] j(1) by (auto simp: live_def)
    have "i \<in> set (o_rdeps ob')" using graph_inv_facts(7) [OF inv ob ob'] j(1)
      by (metis count_eq_zero_iff in_multiset_in_set)
    then have "(j, i) \<in> rdep_rel (c_resources c)" using ob' by (auto simp: rdep_rel_def)
    moreover have "k < length fl" "fl ! k = j" "take k fl = take k xs"
      using k Cons.prems(1) by (auto simp: nth_append)
    ultimately have "i \<in> set (take k xs)" 
      using fl(1) [unfolded dependents_first_def, rule_format, of k] by auto
    then show False using new by (auto dest: in_set_takeD)
  qed
  obtain ob1 R' where S: "c_resources d i = Some ob1" "obj_index (o_handle ob1) = i"
    "unlink_deps i (o_deps ob1) (c_resources d) = Some R'" "sheds (insert i (set xs)) (c_resources c) (R'(i := None))"
    using sheds_step [OF inv Cons.prems(2) ob new deps] by blast
  let ?d = "d\<lparr>c_resources := R'(i := None), c_nresources := c_nresources d - 1\<rparr>"
  have eq: "fl = (xs @ [i]) @ ys" using Cons.prems(1) by simp
  have "sheds (set (xs @ [i])) (c_resources c) (c_resources ?d)" using S(4) by simp
  then obtain d' where d': "free_loop ys ?d = Some d'" "sheds (set fl) (c_resources c) (c_resources d')"
    "c_handle d' = c_handle ?d" "c_nresources d' = c_nresources ?d - int (length ys)"
    using Cons.IH [OF eq] by blast
  have "free_loop (i # ys) d = free_loop ys ?d" using S(1-3) by simp
  then show ?case using d' by auto
qed auto


section \<open>Every operation keeps the graph well formed\<close>

lemma graph_invI:
  assumes "live (c_resources c) \<subseteq> {..<NVKVM_MAX_OBJECTS_PER_CLIENT}"
    and "c_nresources c = int (card (live (c_resources c)))"
    and "\<And>i ob. c_resources c i = Some ob \<Longrightarrow> obj_index (o_handle ob) = i"
    and "\<And>i ob. c_resources c i = Some ob \<Longrightarrow> set (o_deps ob) \<subseteq> live (c_resources c)"
    and "\<And>i ob. c_resources c i = Some ob \<Longrightarrow> set (o_rdeps ob) \<subseteq> live (c_resources c)"
    and "\<And>i ob j ob'. c_resources c i = Some ob \<Longrightarrow> c_resources c j = Some ob' \<Longrightarrow>
          count (mset (o_deps ob)) j = count (mset (o_rdeps ob')) i"
    and "acyclic (rdep_rel (c_resources c))"
  shows "graph_inv c"
  unfolding graph_inv_def using assms by blast

lemma graph_inv_bound: "graph_inv c \<Longrightarrow> live (c_resources c) \<subseteq> {..<NVKVM_MAX_OBJECTS_PER_CLIENT}"
  unfolding graph_inv_def by blast

lemma sheds_live: "sheds F R R' \<Longrightarrow> live R' = live R - F"
  using sheds_None [of F R R'] shedsD [of F R R'] by (fastforce simp: live_def)

lemma shedsE:
  assumes "sheds F R R'" and "R' j = Some ob'"
  shows "\<exists>ob rd. j \<notin> F \<and> R j = Some ob \<and> ob' = ob\<lparr>o_rdeps := rd\<rparr>
    \<and> mset rd = filter_mset (\<lambda>x. x \<notin> F) (mset (o_rdeps ob))"
proof -
  obtain ob where "j \<notin> F" "R j = Some ob" using sheds_None [OF assms(1), of j] assms(2) by force
  then show ?thesis using shedsD [OF assms(1)] assms(2) by fastforce
qed

lemma graph_inv_sheds:
  assumes inv: "graph_inv c" and sh: "sheds F (c_resources c) (c_resources d)"
    and F: "F \<subseteq> live (c_resources c)" "rdep_rel (c_resources c) `` F \<subseteq> F"
    and n: "c_nresources d = c_nresources c - int (card F)"
  shows "graph_inv d"
proof (rule graph_invI)
  note I = graph_inv_facts [OF inv]
  have L: "live (c_resources d) = live (c_resources c) - F" by (rule sheds_live [OF sh])
  then show "live (c_resources d) \<subseteq> {..<NVKVM_MAX_OBJECTS_PER_CLIENT}" using inv by (auto simp: graph_inv_def)
  have "card F \<le> card (live (c_resources c))" by (rule card_mono [OF I(1) F(1)])
  then show "c_nresources d = int (card (live (c_resources d)))"
    using inv n card_Diff_subset [OF finite_subset [OF F(1) I(1)] F(1)] by (simp add: L graph_inv_def)
  fix i ob
  assume "c_resources d i = Some ob"
  then obtain ob1 rd where i: "i \<notin> F" "c_resources c i = Some ob1" "ob = ob1\<lparr>o_rdeps := rd\<rparr>"
    "mset rd = filter_mset (\<lambda>x. x \<notin> F) (mset (o_rdeps ob1))" using shedsE [OF sh] by blast
  show "obj_index (o_handle ob) = i" using I(6) [OF i(2)] i(3) by simp
  have "j \<notin> F" if "j \<in> set (o_deps ob1)" for j
  proof
    assume "j \<in> F"
    then obtain ob2 where ob2: "c_resources c j = Some ob2" using F(1) by (auto simp: live_def)
    then have "i \<in> set (o_rdeps ob2)" using I(7) [OF i(2) ob2] that by (metis count_mset_0_iff)
    then show False using F(2) \<open>j \<in> F\<close> ob2 i(1) by (auto simp: rdep_rel_def)
  qed
  then show "set (o_deps ob) \<subseteq> live (c_resources d)" using I(5) [OF i(2)] i(3) L by auto
  have "set rd = {x \<in> set (o_rdeps ob1). x \<notin> F}" using arg_cong [OF i(4), of set_mset] by simp
  then show "set (o_rdeps ob) \<subseteq> live (c_resources d)" using I(4) [OF i(2)] i(3) L by auto
next
  note I = graph_inv_facts [OF inv]
  fix i ob j ob'
  assume "c_resources d i = Some ob" "c_resources d j = Some ob'"
  then obtain ob1 rd1 ob2 rd2 where "i \<notin> F" "c_resources c i = Some ob1" "ob = ob1\<lparr>o_rdeps := rd1\<rparr>"
    "c_resources c j = Some ob2" "ob' = ob2\<lparr>o_rdeps := rd2\<rparr>"
    "mset rd2 = filter_mset (\<lambda>x. x \<notin> F) (mset (o_rdeps ob2))"
    using shedsE [OF sh] by metis
  then show "count (mset (o_deps ob)) j = count (mset (o_rdeps ob')) i"
    using I(7) by (simp del: count_mset)
next
  have "rdep_rel (c_resources d) \<subseteq> rdep_rel (c_resources c)"
  proof (clarsimp simp: rdep_rel_def)
    fix i j ob'
    assume d: "c_resources d i = Some ob'" "j \<in> set (o_rdeps ob')"
    obtain ob rd where "c_resources c i = Some ob" "ob' = ob\<lparr>o_rdeps := rd\<rparr>"
      "mset rd = filter_mset (\<lambda>x. x \<notin> F) (mset (o_rdeps ob))" using shedsE [OF sh d(1)] by blast
    moreover from this(3) have "set rd \<subseteq> set (o_rdeps ob)"
      by (metis multiset_filter_subset set_mset_mono set_mset_mset)
    ultimately show "\<exists>ob. c_resources c i = Some ob \<and> j \<in> set (o_rdeps ob)" using d(2) by auto
  qed
  then show "acyclic (rdep_rel (c_resources d))"
    using graph_inv_facts(2) [OF inv] acyclic_subset by blast
qed


definition dependents :: "nvkvm_client \<Rightarrow> u32 \<Rightarrow> nat set" where
  "dependents c h = (case nvkvm_obj_lookup c h of None \<Rightarrow> {} | Some i \<Rightarrow> (rdep_rel (c_resources c))\<^sup>* `` {i})"

lemma obj_free_spec:
  assumes inv: "graph_inv c" and fuel: "NVKVM_MAX_OBJECTS_PER_CLIENT < n"
  shows "\<exists>d. nvkvm_obj_free n h c = Some d \<and> graph_inv d \<and> c_handle d = c_handle c
    \<and> sheds (dependents c h) (c_resources c) (c_resources d)"
proof (cases "nvkvm_obj_lookup c h")
  case None
  then show ?thesis using inv sheds_empty by (simp add: nvkvm_obj_free_def dependents_def)
next
  case (Some i)
  let ?R = "c_resources c"
  let ?F = "(rdep_rel ?R)\<^sup>* `` {i}"
  have i: "i \<in> live ?R"
    using Some by (auto simp: nvkvm_obj_lookup_def live_def split: option.splits if_splits)
  obtain fl where fl: "collect_free_list n ?R i [] = Some fl" "distinct fl" "set fl = ?F" "dependents_first ?R fl"
    using collect_free_list_spec [OF inv i fuel] by blast
  have Fl: "?F \<subseteq> live ?R" by (rule reach_live [OF inv i])
  have "sheds (set []) ?R ?R" using sheds_empty by simp
  then obtain d where d: "free_loop fl c = Some d" "sheds ?F ?R (c_resources d)" "c_handle d = c_handle c"
    "c_nresources d = c_nresources c - int (length fl)"
    using free_loop_sheds [OF inv fl(4,2), of "[]" fl c] fl(3) Fl by auto
  have "length fl = card ?F" using distinct_card [OF fl(2)] fl(3) by simp
  then have "graph_inv d"
    using d by (intro graph_inv_sheds [OF inv d(2) Fl]) (auto intro: rtrancl_into_rtrancl)
  then show ?thesis using d Some fl(1) by (simp add: nvkvm_obj_free_def dependents_def)
qed

lemma lookup_Some:
  "nvkvm_obj_lookup c h = Some i \<longleftrightarrow> i = obj_index h \<and> (\<exists>ob. c_resources c i = Some ob \<and> o_handle ob = h)"
  by (auto simp: nvkvm_obj_lookup_def split: option.splits)

lemma graph_inv_insert:
  assumes inv: "graph_inv c" and new: "c_resources c (obj_index h) = None"
  shows "graph_inv (c\<lparr>c_resources := (c_resources c)(obj_index h \<mapsto>
      \<lparr>o_handle = h, o_class = cls, o_parent = p, o_deps = [], o_rdeps = []\<rparr>), c_nresources := c_nresources c + 1\<rparr>)"
    (is "graph_inv ?c")
proof (rule graph_invI)
  note I = graph_inv_facts [OF inv]
  have L: "live (c_resources ?c) = insert (obj_index h) (live (c_resources c))" by (auto simp: live_def)
  have nl: "obj_index h \<notin> live (c_resources c)" using new by (simp add: live_def)
  then have no: "\<And>i ob. c_resources c i = Some ob \<Longrightarrow> count (mset (o_deps ob)) (obj_index h) = 0
      \<and> count (mset (o_rdeps ob)) (obj_index h) = 0"
    using I(4,5) by (metis count_mset_0_iff subsetD)
  show "live (c_resources ?c) \<subseteq> {..<NVKVM_MAX_OBJECTS_PER_CLIENT}"
    unfolding L using graph_inv_bound [OF inv] by (simp add: obj_index_def NVKVM_MAX_OBJECTS_PER_CLIENT_def)
  show "c_nresources ?c = int (card (live (c_resources ?c)))"
    unfolding L using inv nl I(1) by (simp add: graph_inv_def)
  fix i ob
  assume i: "c_resources ?c i = Some ob"
  then show "obj_index (o_handle ob) = i" using I(6) by (auto split: if_splits)
  show "set (o_deps ob) \<subseteq> live (c_resources ?c)" "set (o_rdeps ob) \<subseteq> live (c_resources ?c)"
    unfolding L using i by (auto split: if_splits dest: subsetD [OF I(4)] subsetD [OF I(5)])
  fix j ob'
  assume "c_resources ?c j = Some ob'"
  then show "count (mset (o_deps ob)) j = count (mset (o_rdeps ob')) i"
    using i no I(7) by (auto split: if_splits simp del: count_mset)
next
  have "rdep_rel (c_resources ?c) = rdep_rel (c_resources c)" using new by (auto simp: rdep_rel_def split: if_splits)
  then show "acyclic (rdep_rel (c_resources ?c))" using inv by (simp add: graph_inv_def)
qed

lemma add_edge_simps:
  assumes "i \<noteq> j" and "R i = Some a" and "R j = Some b"
  shows "add_edge i j R = R(i \<mapsto> a\<lparr>o_deps := o_deps a @ [j]\<rparr>, j \<mapsto> b\<lparr>o_rdeps := o_rdeps b @ [i]\<rparr>)"
  using assms by (simp add: add_edge_def)

lemma graph_inv_add_edge:
  assumes inv: "graph_inv c" and ij: "i \<noteq> j" "c_resources c i = Some a" "c_resources c j = Some b"
    and leaf: "o_rdeps a = []"
  shows "graph_inv (c\<lparr>c_resources := add_edge i j (c_resources c)\<rparr>)" (is "graph_inv ?c")
proof (rule graph_invI)
  note I = graph_inv_facts [OF inv] and E = add_edge_simps [OF ij]
  have L: "live (c_resources ?c) = live (c_resources c)" using ij by (auto simp: E live_def)
  have l: "i \<in> live (c_resources c)" "j \<in> live (c_resources c)" using ij by (auto simp: live_def)
  show "live (c_resources ?c) \<subseteq> {..<NVKVM_MAX_OBJECTS_PER_CLIENT}" unfolding L by (rule graph_inv_bound [OF inv])
  show "c_nresources ?c = int (card (live (c_resources ?c)))" unfolding L using inv by (simp add: graph_inv_def)
  fix k ob
  assume k: "c_resources ?c k = Some ob"
  show "obj_index (o_handle ob) = k" using k ij I(6) by (auto simp: E split: if_splits)
  show "set (o_deps ob) \<subseteq> live (c_resources ?c)" "set (o_rdeps ob) \<subseteq> live (c_resources ?c)"
    unfolding L using k ij l by (auto simp: E split: if_splits dest: subsetD [OF I(4)] subsetD [OF I(5)])
  fix m ob'
  assume m: "c_resources ?c m = Some ob'"
  obtain ob1 where 1: "c_resources c k = Some ob1" "mset (o_deps ob) = mset (o_deps ob1) + (if k = i then {#j#} else {#})"
    using k ij by (auto simp: E split: if_splits)
  obtain ob2 where 2: "c_resources c m = Some ob2" "mset (o_rdeps ob') = mset (o_rdeps ob2) + (if m = j then {#i#} else {#})"
    using m ij by (auto simp: E split: if_splits)
  show "count (mset (o_deps ob)) m = count (mset (o_rdeps ob')) k"
    unfolding 1(2) 2(2) using I(7) [OF 1(1) 2(1)] by auto
next
  have E: "rdep_rel (c_resources ?c) = insert (j, i) (rdep_rel (c_resources c))"
    using ij by (auto simp: add_edge_simps [OF ij] rdep_rel_def split: if_splits)
  have "(i, j) \<notin> (rdep_rel (c_resources c))\<^sup>*"
  proof
    assume "(i, j) \<in> (rdep_rel (c_resources c))\<^sup>*"
    then show False using ij leaf by (cases rule: converse_rtranclE) (auto simp: rdep_rel_def)
  qed
  then show "acyclic (rdep_rel (c_resources ?c))"
    unfolding E acyclic_insert using graph_inv_facts(2) [OF inv] by simp
qed

lemma graph_inv_add:
  assumes inv: "graph_inv c" and p: "p \<noteq> h"
  shows "graph_inv (snd (nvkvm_obj_add h cls p c))"
proof (cases "h = 0 \<or> c_resources c (obj_index h) \<noteq> None")
  case True
  then show ?thesis using inv by (auto simp: nvkvm_obj_add_def)
next
  case False
  define a where "a = \<lparr>o_handle = h, o_class = cls, o_parent = p, o_deps = [], o_rdeps = []\<rparr>"
  let ?c = "c\<lparr>c_resources := (c_resources c)(obj_index h \<mapsto> a), c_nresources := c_nresources c + 1\<rparr>"
  have c: "graph_inv ?c" unfolding a_def by (rule graph_inv_insert [OF inv]) (use False in simp)
  have lh: "nvkvm_obj_lookup ?c h = Some (obj_index h)" by (simp add: nvkvm_obj_lookup_def a_def)
  have out: "snd (nvkvm_obj_add h cls p c) = (if p \<noteq> 0 then nvkvm_obj_add_dep h p ?c else ?c)"
    using False by (auto simp: nvkvm_obj_add_def a_def)
  show ?thesis
  proof (cases "p = 0 \<or> nvkvm_obj_lookup ?c p = None")
    case True
    then show ?thesis using out c by (auto simp: nvkvm_obj_add_dep_def split: option.splits)
  next
    case pp: False
    then obtain j where j: "nvkvm_obj_lookup ?c p = Some j" by auto
    then obtain b where b: "c_resources ?c j = Some b" "o_handle b = p" by (auto simp: lookup_Some)
    have "o_handle a = h" by (simp add: a_def)
    then have "obj_index h \<noteq> j" using b p by auto
    then have "graph_inv (?c\<lparr>c_resources := add_edge (obj_index h) j (c_resources ?c)\<rparr>)"
      by (intro graph_inv_add_edge [OF c _ _ b(1), of _ a]) (simp_all add: a_def)
    then show ?thesis using out pp lh j by (simp add: nvkvm_obj_add_dep_def)
  qed
qed

text \<open>The clients that a sequence of allocations and frees can produce.\<close>

inductive client_reach :: "nvkvm_client \<Rightarrow> bool" where
  init: "client_reach (nvkvm_client_alloc h)"
| add: "client_reach c \<Longrightarrow> p \<noteq> h \<Longrightarrow> client_reach (snd (nvkvm_obj_add h cls p c))"
| free: "client_reach c \<Longrightarrow> nvkvm_obj_free n h c = Some d \<Longrightarrow> NVKVM_MAX_OBJECTS_PER_CLIENT < n \<Longrightarrow> client_reach d"

lemma client_graph_inv: "client_reach c \<Longrightarrow> graph_inv c"
proof (induction rule: client_reach.induct)
  case (init h)
  then show ?case by (auto simp: graph_inv_def nvkvm_client_alloc_def live_def rdep_rel_def acyclic_def)
next
  case (free c n h d)
  then show ?case using obj_free_spec [OF free.IH, of n h] by auto
qed (simp add: graph_inv_add)


section \<open>Tearing a client down\<close>

lemma client_free_empty:
  assumes "graph_inv c"
  shows "live (c_resources (nvkvm_client_free c)) = {}" "c_nresources (nvkvm_client_free c) = 0"
proof -
  have "fold (\<lambda>i R. R(i := None)) is R j = (if j \<in> set is then None else R j)"
    for "is" j and R :: "nat \<Rightarrow> nvkvm_object option"
    by (induction "is" arbitrary: R) auto
  then have "c_resources (nvkvm_client_free c) j = None" for j
    using graph_inv_bound [OF assms] by (auto simp: nvkvm_client_free_def live_def)
  then show "live (c_resources (nvkvm_client_free c)) = {}" by (simp add: live_def)
qed (simp add: nvkvm_client_free_def)

section \<open>Properties\<close>

definition exo_client :: nvkvm_client where
  "exo_client = snd (nvkvm_obj_add 0x5c000003 0x2080 0x5c000002 (snd (nvkvm_obj_add 0x5c000002 0x80 1
     (snd (nvkvm_obj_add 1 0x41 0 (nvkvm_client_alloc 1))))))"

lemma exo_reach: "client_reach exo_client"
  unfolding exo_client_def by (intro client_reach.intros) simp_all


lemma exo_lookup: "nvkvm_obj_lookup exo_client 1 = Some 1"
  by (simp add: exo_client_def nvkvm_obj_lookup_def nvkvm_obj_add_def nvkvm_client_alloc_def obj_index_def
      NVKVM_MAX_OBJECTS_PER_CLIENT_def nvkvm_obj_add_dep_def add_edge_def Let_def)




text \<open>An object recorded as its own parent can never be freed: on every client, recording an object
  with \<open>h_parent = h_object_new\<close> in an empty slot succeeds, and from then on the recursion of the free path
  does not end, whatever its depth.\<close>

lemma self_parent_diverges:
  assumes "h \<noteq> 0" and "c_resources c (obj_index h) = None"
  shows "fst (nvkvm_obj_add h cls h c) = Inr () \<and> (\<forall>n. nvkvm_obj_free n h (snd (nvkvm_obj_add h cls h c)) = None)"
proof -
  define a where "a = \<lparr>o_handle = h, o_class = cls, o_parent = h, o_deps = [obj_index h], o_rdeps = [obj_index h]\<rparr>"
  have c: "nvkvm_obj_add h cls h c = (Inr (), c\<lparr>c_resources := (c_resources c)(obj_index h \<mapsto> a),
      c_nresources := c_nresources c + 1\<rparr>)" (is "_ = (_, ?c)")
    using assms by (simp add: nvkvm_obj_add_def nvkvm_obj_add_dep_def nvkvm_obj_lookup_def add_edge_def Let_def a_def)
  have R: "c_resources ?c (obj_index h) = Some a" by simp
  have "collect_free_list n (c_resources ?c) (obj_index h) [] = None" for n
  proof (induction n)
    case (Suc n)
    then show ?case using R by (simp add: a_def del: fun_upd_apply)
  qed simp
  moreover have "nvkvm_obj_lookup ?c h = Some (obj_index h)" by (simp add: nvkvm_obj_lookup_def a_def)
  ultimately show ?thesis unfolding c by (simp add: nvkvm_obj_free_def)
qed

lemma self_parent_diverges_witness:
  "fst (nvkvm_obj_add 7 0x80 7 (nvkvm_client_alloc 1)) = Inr () \<and>
   nvkvm_obj_free 5000 7 (snd (nvkvm_obj_add 7 0x80 7 (nvkvm_client_alloc 1))) = None"
proof -
  have "c_resources (nvkvm_client_alloc 1) (obj_index 7) = None" by (simp add: nvkvm_client_alloc_def)
  from self_parent_diverges [OF _ this, of "0x80"] show ?thesis by simp
qed

end
