(* ===== verification/Frontend.thy ===== *)
theory Frontend
  imports ObjectGraph HandleTable AbiProfile Allowlists
begin

text \<open>
  The synchronous ioctl path of the device: the table of parameter sizes and the dispatcher
  (\<open>qemu/nvkvm_dispatch.c\<close>) and the handlers of the frontend calls (\<open>qemu/nvkvm_frontend.c\<close>), which
  keep the object graphs of a session up to date with the driver.

  The parameter blob and the auxiliary buffer are byte memory, with C structure fields at their
  offsets; \<open>x_aux_va\<close> is the host address of the auxiliary buffer, 0 when there is none.  The driver
  is a parameter that sees the descriptor, the ioctl number and both buffers, and returns a result and
  the buffers it leaves (\<open>host_ioctl\<close> repeats interrupted calls; the parameter is the answer of the last
  one).  \<open>x_calls\<close> records what the driver was given.
\<close>

type_synonym fe_driver = "fd \<Rightarrow> u32 \<Rightarrow> mem \<Rightarrow> mem \<Rightarrow> int result \<times> mem \<times> mem"

record fe_ctx =
  x_clients :: "nvkvm_client list"
  x_fds :: "(u32 \<times> fd) list"
  x_handles :: handle_table
  x_abi :: "nvkvm_abi_profile option"
  x_fd :: fd
  x_psize :: nat
  x_params :: mem
  x_aux_va :: u64
  x_aux_size :: nat
  x_aux :: mem
  x_calls :: "(u32 \<times> mem \<times> mem) list"

section \<open>Sizes\<close>

definition IOC_SIZE :: "u32 \<Rightarrow> nat" where
  "IOC_SIZE cmd = unat (drop_bit 16 cmd AND 0x3fff)"

text \<open>\<open>None\<close> stands for \<open>(size_t)-1\<close>.\<close>

definition uvm_param_size :: "nvkvm_abi_profile \<Rightarrow> u32 \<Rightarrow> nat option" where
  "uvm_param_size prof cmd = map_of
    [(0x30000001, 16), (0x30000002, 8), (75, 8), (37, 32), (38, 24), (25, 32), (26, 20), (27, 48), (28, 28),
     (23, 16), (24, 16), (31, 32), (33, uvm_map_ext_size prof), (34, 24), (51, 48), (42, 40), (43, 24), (46, 40),
     (47, 40), (29, 40), (30, 40), (73, 24), (72, 24), (39, 8), (70, 24), (68, uvm_sem_pool_size prof)] cmd"

definition frontend_param_size :: "u32 \<Rightarrow> nat option" where
  "frontend_param_size cmd =
    (let nr = IOC_NR cmd; sz = IOC_SIZE cmd in
     if nr = 200 then (if sz = 0 \<or> sz > 80 * 32 then None else Some sz)
     else if nr = 215 then (if sz \<noteq> 0 then Some sz else None)
     else if nr = 0x2b then (if sz = 32 \<or> sz = 48 then Some sz else None)
     else map_of [(201, 4), (206, 16), (207, 16), (210, 72), (214, 8), (218, 8), (0x27, 56), (0x29, 16), (0x2a, 32),
       (0x34, 28), (0x35, 16), (0x4a, 184), (0x4e, 56), (0x4f, 32), (0x57, 56), (0x58, 48), (0x41, 56),
       (0x54, 56), (0x5e, 40), (0x70, 40)] nr)"

definition nvkvm_ioctl_expected_param_size :: "u32 \<Rightarrow> nvkvm_abi_profile option \<Rightarrow> nat option" where
  "nvkvm_ioctl_expected_param_size cmd abi =
    (let prof = (case abi of Some p \<Rightarrow> p | None \<Rightarrow> nvkvm_abi_by_id NVKVM_ABI_570) in
     case uvm_param_size prof cmd of
       Some sz \<Rightarrow> Some sz
     | None \<Rightarrow> frontend_param_size cmd)"

section \<open>Calls and clients\<close>

definition IOWR_F :: "u32 \<Rightarrow> nat \<Rightarrow> u32" where
  "IOWR_F nr sz = 0xC0004600 OR push_bit 16 (of_nat sz) OR nr"

definition host_ioctl :: "fe_driver \<Rightarrow> u32 \<Rightarrow> fe_ctx \<Rightarrow> int result \<times> fe_ctx" where
  "host_ioctl drv cmd x =
    (let (r, p, a) = drv (x_fd x) cmd (x_params x) (x_aux x)
     in (r, x\<lparr>x_params := p, x_aux := a, x_calls := x_calls x @ [(cmd, x_params x, x_aux x)]\<rparr>))"

definition find_client :: "u32 \<Rightarrow> nvkvm_client list \<Rightarrow> nat option" where
  "find_client h cs = first_index (\<lambda>c. c_handle c = h) cs"

definition register_client :: "nvkvm_client \<Rightarrow> nvkvm_client list \<Rightarrow> nvkvm_client list" where
  "register_client c cs = (if length cs < NVKVM_MAX_OBJECTS_PER_CLIENT then cs @ [c] else cs)"

definition put32 :: "nat \<Rightarrow> u32 \<Rightarrow> fe_ctx \<Rightarrow> fe_ctx" where
  "put32 off v x = x\<lparr>x_params := st32 (x_params x) off v\<rparr>"

definition put64 :: "nat \<Rightarrow> u64 \<Rightarrow> fe_ctx \<Rightarrow> fe_ctx" where
  "put64 off v x = x\<lparr>x_params := st64 (x_params x) off v\<rparr>"

definition NV01_ROOT_CLIENT :: u32 where "NV01_ROOT_CLIENT = 0x41"

section \<open>Frontend handlers\<close>

text \<open>The bookkeeping of a new object once the driver has answered.\<close>

definition rm_alloc_record :: "u32 \<Rightarrow> u32 \<Rightarrow> fe_ctx \<Rightarrow> fe_ctx" where
  "rm_alloc_record h_client h_class x =
    (let h_new = ld32 (x_params x) 8 in
     if h_class = NV01_ROOT_CLIENT \<or> (h_class = 0 \<and> h_client = 0)
     then x\<lparr>x_clients := register_client (snd (nvkvm_obj_add h_new NV01_ROOT_CLIENT 0 (nvkvm_client_alloc h_new)))
              (x_clients x)\<rparr>
     else case find_client h_client (x_clients x) of
       None \<Rightarrow> x
     | Some i \<Rightarrow> x\<lparr>x_clients := (x_clients x)[i := snd (nvkvm_obj_add h_new h_class (ld32 (x_params x) 4)
         (x_clients x ! i))]\<rparr>)"

definition nvkvm_handle_rm_alloc :: "fe_driver \<Rightarrow> fe_ctx \<Rightarrow> int result \<times> fe_ctx" where
  "nvkvm_handle_rm_alloc drv x =
    (let h_client = ld32 (x_params x) 0; h_class = ld32 (x_params x) 12;
         parms = ld64 (x_params x) 16; rights = ld64 (x_params x) 24;
         x1 = (if x_aux_va x \<noteq> 0 \<and> x_aux_size x > 0 then put64 16 (x_aux_va x) x else x) in
     if x_psize x = 48 then
       (let x2 = (if h_class = NV01_ROOT_CLIENT then put64 24 0 x1 else x1);
            (ret, x3) = host_ioctl drv (IOWR_F 0x2b 48) x2;
            x4 = put64 24 rights (put64 16 parms x3)
        in (ret, if is_ok ret then rm_alloc_record h_client h_class x4 else x4))
     else if x_psize x = 32 then
       (let (ret, x3) = host_ioctl drv (IOWR_F 0x2b 32) x1;
            x4 = put64 16 parms x3
        in (ret, if is_ok ret then rm_alloc_record h_client h_class x4 else x4))
     else (Inl EINVAL, x))"

text \<open>Recursing deeper than this, the walk of the object graph has met a cycle and does not end.\<close>

definition OBJ_DEPTH :: nat where "OBJ_DEPTH = 4097"

definition nvkvm_handle_rm_free :: "fe_driver \<Rightarrow> fe_ctx \<Rightarrow> (int result \<times> fe_ctx) option" where
  "nvkvm_handle_rm_free drv x =
    (case find_client (ld32 (x_params x) 0) (x_clients x) of
       None \<Rightarrow> Some (Inl EINVAL, x)
     | Some i \<Rightarrow>
        (let (ret, x1) = host_ioctl drv (IOWR_F 0x29 16) x in
         case nvkvm_obj_free OBJ_DEPTH (ld32 (x_params x1) 8) (x_clients x1 ! i) of
           None \<Rightarrow> None
         | Some c \<Rightarrow> Some (ret, x1\<lparr>x_clients := (x_clients x1)[i := c]\<rparr>)))"

text \<open>\<open>NV0000_CTRL_CMD_SYSTEM_GET_BUILD_VERSION\<close>: the parameters of the command are in the auxiliary
  buffer, followed by the space for the three strings.\<close>

definition strings_fit :: "u32 \<Rightarrow> fe_ctx \<Rightarrow> bool" where
  "strings_fit sz x \<longleftrightarrow> sz > 0 \<and> sz \<le> 512 \<and> x_aux_size x \<ge> unat (ld32 (x_params x) 24) + 3 * unat sz"

definition put_aux64 :: "nat \<Rightarrow> u64 \<Rightarrow> fe_ctx \<Rightarrow> fe_ctx" where
  "put_aux64 off v x = x\<lparr>x_aux := st64 (x_aux x) off v\<rparr>"

definition put_aux_ptrs :: "u64 \<Rightarrow> u64 \<Rightarrow> u64 \<Rightarrow> fe_ctx \<Rightarrow> fe_ctx" where
  "put_aux_ptrs a b c x = put_aux64 24 c (put_aux64 16 b (put_aux64 8 a x))"

definition nvkvm_ctrl_get_build_version :: "fe_driver \<Rightarrow> fe_ctx \<Rightarrow> int result \<times> fe_ctx" where
  "nvkvm_ctrl_get_build_version drv x =
    (let sz = ld32 (x_aux x) 0;
         ext = x_aux_va x + ucast (ld32 (x_params x) 24);
         x1 = (if strings_fit sz x then put_aux_ptrs ext (ext + ucast sz) (ext + 2 * ucast sz) x else x);
         (ret, x2) = host_ioctl drv (IOWR_F 0x2a 32) x1
     in (ret, put_aux_ptrs 0 0 0 x2))"

definition GET_BUILD_VERSION :: u32 where "GET_BUILD_VERSION = 0x101"

definition nvkvm_handle_rm_control :: "fe_driver \<Rightarrow> fe_ctx \<Rightarrow> int result \<times> fe_ctx" where
  "nvkvm_handle_rm_control drv x =
    (let params_size = unat (ld32 (x_params x) 24); saved = ld64 (x_params x) 16 in
     if find_client (ld32 (x_params x) 0) (x_clients x) = None then (Inl EINVAL, x)
     else if x_aux_va x \<noteq> 0 \<and> params_size > x_aux_size x then (Inl EINVAL, x)
     else if x_aux_va x = 0 \<and> params_size > 0 then (Inl EINVAL, x)
     else
       (let x1 = (if x_aux_va x \<noteq> 0 then put64 16 (x_aux_va x) x else x);
            (ret, x2) = (if ld32 (x_params x) 8 = GET_BUILD_VERSION \<and> x_aux_va x \<noteq> 0 \<and> params_size \<ge> 40
                         then nvkvm_ctrl_get_build_version drv x1
                         else host_ioctl drv (IOWR_F 0x2a 32) x1)
        in (ret, put64 16 saved x2)))"

definition nvkvm_handle_rm_dup_object :: "fe_driver \<Rightarrow> fe_ctx \<Rightarrow> int result \<times> fe_ctx" where
  "nvkvm_handle_rm_dup_object drv x =
    (case (find_client (ld32 (x_params x) 0) (x_clients x), find_client (ld32 (x_params x) 12) (x_clients x)) of
       (Some i, Some _) \<Rightarrow>
         (let (ret, x1) = host_ioctl drv (IOWR_F 0x34 28) x;
              h_parent = ld32 (x_params x1) 4 in
          (ret, if is_ok ret
            then x1\<lparr>x_clients := (x_clients x1)[i := snd (nvkvm_obj_add (ld32 (x_params x1) 8) h_parent h_parent
                   (x_clients x1 ! i))]\<rparr>
            else x1))
     | _ \<Rightarrow> (Inl EINVAL, x))"

definition nvkvm_handle_register_fd :: "fe_driver \<Rightarrow> fe_ctx \<Rightarrow> int result \<times> fe_ctx" where
  "nvkvm_handle_register_fd drv x =
    (let saved = ld32 (x_params x) 0 in
     case map_of (x_fds x) saved of
       None \<Rightarrow> (Inl EBADF, x)
     | Some fd \<Rightarrow>
        (let (ret, x1) = host_ioctl drv (IOWR_F 201 4) (put32 0 (word_of_int fd) x)
         in (ret, put32 0 saved x1)))"

text \<open>\<open>efd\<close> is what \<open>eventfd\<close> returns; the list holds the descriptors closed.\<close>

definition nvkvm_handle_alloc_os_event :: "fd result \<Rightarrow> fe_driver \<Rightarrow> fe_ctx \<Rightarrow> int result \<times> fe_ctx \<times> fd list" where
  "nvkvm_handle_alloc_os_event efd drv x =
    (case efd of
       Inl e \<Rightarrow> (Inl e, x, [])
     | Inr fd \<Rightarrow>
        (let (ret, x1) = host_ioctl drv (IOWR_F 206 16) (put32 8 (word_of_int fd) x)
         in (ret, put32 8 (ld32 (x_params x) 8) x1, if is_ok ret then [] else [fd])))"

definition nvkvm_handle_free_os_event :: "fe_driver \<Rightarrow> fe_ctx \<Rightarrow> int result \<times> fe_ctx" where
  "nvkvm_handle_free_os_event drv x = host_ioctl drv (IOWR_F 207 16) x"

definition nvkvm_handle_simple_ioctl :: "fe_driver \<Rightarrow> u32 \<Rightarrow> fe_ctx \<Rightarrow> int result \<times> fe_ctx" where
  "nvkvm_handle_simple_ioctl drv cmd x = host_ioctl drv cmd x"

section \<open>The dispatcher\<close>

text \<open>A call with a descriptor field at \<open>off\<close>: the handle number there is replaced by the host descriptor
  for the call and put back afterwards.\<close>

definition handle_fd :: "u32 \<Rightarrow> fe_ctx \<Rightarrow> fd option" where
  "handle_fd i x = (case nvkvm_handle_get i (x_handles x) of
     None \<Rightarrow> None | Some h \<Rightarrow> if h_fd h < 0 then None else Some (h_fd h))"

definition with_handle_fd :: "nat \<Rightarrow> fe_driver \<Rightarrow> u32 \<Rightarrow> fe_ctx \<Rightarrow> int result \<times> fe_ctx" where
  "with_handle_fd off drv cmd x =
    (let saved = ld32 (x_params x) off in
     case handle_fd saved x of
       None \<Rightarrow> (Inl EBADF, x)
     | Some fd \<Rightarrow> (let (ret, x1) = nvkvm_handle_simple_ioctl drv cmd (put32 off (word_of_int fd) x)
                   in (ret, put32 off saved x1)))"

definition uvm_simple_cmds :: "u32 list" where
  "uvm_simple_cmds = [0x30000001, 0x30000002, 23, 24, 34, 42, 43, 44, 45, 46, 47, 29, 30, 73, 72, 39, 70, 51, 53, 68,
     26, 28, 37, 38]"

definition dispatch_uvm :: "fe_driver \<Rightarrow> u32 \<Rightarrow> fe_ctx \<Rightarrow> (int result \<times> fe_ctx) option" where
  "dispatch_uvm drv cmd x =
    (if cmd \<in> set uvm_simple_cmds then Some (nvkvm_handle_simple_ioctl drv cmd x)
     else if cmd = 75 then Some (with_handle_fd 0 drv cmd x)
     else if cmd = 25 \<or> cmd = 27 then Some (with_handle_fd 16 drv cmd x)
     else if cmd = 33 then
       (let off = uvm_map_ext_fd_off (case x_abi x of Some p \<Rightarrow> p | None \<Rightarrow> nvkvm_abi_by_id NVKVM_ABI_570) in
        Some (if off + 4 > x_psize x then (Inl EINVAL, x) else with_handle_fd off drv cmd x))
     else None)"

definition fe_simple_nrs :: "u32 list" where
  "fe_simple_nrs = [200, 210, 214, 215, 218, 212, 0x35, 0x4a, 0x57, 0x58, 0x54, 0x70, 0x5e, 0x4f]"

text \<open>Map and allocate memory: descriptor at offset 48, address field at \<open>ptr\<close>.\<close>

definition dispatch_memory :: "nat \<Rightarrow> fe_driver \<Rightarrow> u32 \<Rightarrow> fe_ctx \<Rightarrow> int result \<times> fe_ctx" where
  "dispatch_memory ptr drv cmd x =
    (let fd = ld32 (x_params x) 48 in
     if bit fd 31 then
       (let (ret, x1) = nvkvm_handle_simple_ioctl drv cmd x in (ret, put64 ptr 0 x1))
     else case handle_fd fd x of
       None \<Rightarrow> (Inl EBADF, x)
     | Some hfd \<Rightarrow>
        (let (ret, x1) = nvkvm_handle_simple_ioctl drv cmd (put32 48 (word_of_int hfd) x)
         in (ret, put64 ptr 0 x1)))"

definition NVKVM_IDLE_MAX_CHANNELS :: nat where "NVKVM_IDLE_MAX_CHANNELS = 4096"

definition dispatch_idle_channels :: "fe_driver \<Rightarrow> u32 \<Rightarrow> fe_ctx \<Rightarrow> int result \<times> fe_ctx" where
  "dispatch_idle_channels drv cmd x =
    (let n = unat (ld32 (x_params x) 12);
         ptrs = (\<lambda>a b c y. put64 32 c (put64 24 b (put64 16 a y))) in
     if n > 0 \<and> (n > NVKVM_IDLE_MAX_CHANNELS \<or> x_aux_va x = 0 \<or> x_aux_size x < 3 * n * 4) then (Inl EINVAL, x)
     else
       (let va = x_aux_va x; step = of_nat (n * 4);
            x1 = (if n > 0 then ptrs va (va + step) (va + step + step) x else ptrs 0 0 0 x);
            (ret, x2) = nvkvm_handle_simple_ioctl drv cmd x1
        in (ret, ptrs 0 0 0 x2)))"

definition nvkvm_dispatch_ioctl :: "fd result \<Rightarrow> fe_driver \<Rightarrow> u32 \<Rightarrow> fe_ctx \<Rightarrow> (int result \<times> fe_ctx) option" where
  "nvkvm_dispatch_ioctl efd drv cmd x =
    (case dispatch_uvm drv cmd x of
       Some r \<Rightarrow> Some r
     | None \<Rightarrow>
        (let nr = IOC_NR cmd in
         if IOC_TYPE cmd \<noteq> 0x46 then Some (Inl ENOTTY, x)
         else if nr = 0x2b then Some (nvkvm_handle_rm_alloc drv x)
         else if nr = 0x29 then nvkvm_handle_rm_free drv x
         else if nr = 0x2a then Some (nvkvm_handle_rm_control drv x)
         else if nr = 0x34 then Some (nvkvm_handle_rm_dup_object drv x)
         else if nr = 201 then Some (nvkvm_handle_register_fd drv x)
         else if nr = 206 then (let (r, x1, _) = nvkvm_handle_alloc_os_event efd drv x in Some (r, x1))
         else if nr = 207 then Some (nvkvm_handle_free_os_event drv x)
         else if nr \<in> set fe_simple_nrs then Some (nvkvm_handle_simple_ioctl drv cmd x)
         else if nr = 0x4e then Some (dispatch_memory 32 drv cmd x)
         else if nr = 0x27 then Some (dispatch_memory 24 drv cmd x)
         else if nr = 0x41 then Some (dispatch_idle_channels drv cmd x)
         else Some (Inl ENOTTY, x)))"

lemmas fe_defs = nvkvm_handle_rm_alloc_def nvkvm_handle_rm_control_def nvkvm_ctrl_get_build_version_def
  nvkvm_handle_rm_dup_object_def nvkvm_handle_register_fd_def nvkvm_handle_alloc_os_event_def
  nvkvm_handle_free_os_event_def nvkvm_handle_simple_ioctl_def with_handle_fd_def dispatch_memory_def
  dispatch_idle_channels_def

section \<open>Which handlers touch the object graphs\<close>

lemma put_fields [simp]:
  "x_clients (put32 a v x) = x_clients x" "x_clients (put64 a w x) = x_clients x"
  "x_clients (put_aux_ptrs p q r x) = x_clients x"
  "x_params (put32 a v x) = st32 (x_params x) a v" "x_params (put64 a w x) = st64 (x_params x) a w"
  "x_params (put_aux_ptrs p q r x) = x_params x"
  "x_calls (put32 a v x) = x_calls x" "x_calls (put64 a w x) = x_calls x" "x_calls (put_aux_ptrs p q r x) = x_calls x"
  "x_aux (put32 a v x) = x_aux x" "x_aux (put64 a w x) = x_aux x"
  "x_fd (put32 a v x) = x_fd x" "x_fd (put64 a w x) = x_fd x"
  by (simp_all add: put32_def put64_def put_aux_ptrs_def put_aux64_def)

lemma host_ioctl_clients [simp]: "x_clients (snd (host_ioctl drv cmd x)) = x_clients x"
  by (simp add: host_ioctl_def split: prod.splits)

definition client_cmd :: "u32 \<Rightarrow> bool" where
  "client_cmd cmd \<longleftrightarrow> IOC_TYPE cmd = 0x46 \<and> IOC_NR cmd \<in> {0x2b, 0x29, 0x34}"

lemma host_ioctl_clients': "host_ioctl drv cmd x = (r, y) \<Longrightarrow> x_clients y = x_clients x"
  using host_ioctl_clients [of drv cmd x] by simp

lemma with_handle_fd_clients: "with_handle_fd off drv cmd x = (r, y) \<Longrightarrow> x_clients y = x_clients x"
  by (auto simp: fe_defs Let_def split: option.splits prod.splits dest!: host_ioctl_clients')

lemma dispatch_uvm_clients: "dispatch_uvm drv cmd x = Some (r, y) \<Longrightarrow> x_clients y = x_clients x"
  by (auto simp: dispatch_uvm_def nvkvm_handle_simple_ioctl_def Let_def split: if_splits
      dest!: host_ioctl_clients' with_handle_fd_clients)

lemma rm_control_clients: "nvkvm_handle_rm_control drv x = (r, y) \<Longrightarrow> x_clients y = x_clients x"
  by (auto simp: fe_defs Let_def split: prod.splits if_splits dest!: host_ioctl_clients')

lemma register_fd_clients: "nvkvm_handle_register_fd drv x = (r, y) \<Longrightarrow> x_clients y = x_clients x"
  by (auto simp: fe_defs Let_def split: prod.splits option.splits dest!: host_ioctl_clients')

lemma os_event_clients: "nvkvm_handle_alloc_os_event efd drv x = (r, y, fds) \<Longrightarrow> x_clients y = x_clients x"
  by (auto simp: fe_defs Let_def split: prod.splits sum.splits dest!: host_ioctl_clients')

lemma memory_clients: "dispatch_memory ptr drv cmd x = (r, y) \<Longrightarrow> x_clients y = x_clients x"
  by (auto simp: fe_defs Let_def split: prod.splits option.splits if_splits dest!: host_ioctl_clients')

lemma idle_clients: "dispatch_idle_channels drv cmd x = (r, y) \<Longrightarrow> x_clients y = x_clients x"
  by (auto simp: fe_defs Let_def split: prod.splits if_splits dest!: host_ioctl_clients')

lemma dispatch_other_clients:
  assumes "nvkvm_dispatch_ioctl efd drv cmd x = Some (r, y)" and "\<not> client_cmd cmd"
  shows "x_clients y = x_clients x"
proof (cases "dispatch_uvm drv cmd x")
  case (Some p)
  then show ?thesis using assms(1) dispatch_uvm_clients by (simp add: nvkvm_dispatch_ioctl_def)
next
  case None
  then show ?thesis
    using assms unfolding nvkvm_dispatch_ioctl_def client_cmd_def nvkvm_handle_free_os_event_def
      nvkvm_handle_simple_ioctl_def
    by (auto simp: Let_def split: if_splits prod.splits dest!: host_ioctl_clients' rm_control_clients
        register_fd_clients os_event_clients memory_clients idle_clients)
qed

section \<open>Object graphs of a session\<close>

lemma register_client_reach:
  "client_reach c \<Longrightarrow> list_all client_reach cs \<Longrightarrow> list_all client_reach (register_client c cs)"
  by (simp add: register_client_def)

lemma update_client_reach:
  "list_all client_reach cs \<Longrightarrow> i < length cs \<Longrightarrow> (client_reach (cs ! i) \<Longrightarrow> client_reach c)
    \<Longrightarrow> list_all client_reach (cs[i := c])"
  by (auto simp: list_all_length nth_list_update)

lemma find_client_bound: "find_client h cs = Some i \<Longrightarrow> i < length cs"
  by (auto simp: find_client_def dest: first_index_Some)

lemma rm_alloc_record_reach:
  assumes "list_all client_reach (x_clients x)" and "ld32 (x_params x) 8 \<noteq> ld32 (x_params x) 4"
  shows "list_all client_reach (x_clients (rm_alloc_record hc cls x))"
proof (cases "cls = NV01_ROOT_CLIENT \<or> (cls = 0 \<and> hc = 0)")
  case True
  have "client_reach (snd (nvkvm_obj_add h NV01_ROOT_CLIENT 0 (nvkvm_client_alloc h)))" for h
  proof (cases "h = 0")
    case True
    then show ?thesis by (simp add: nvkvm_obj_add_def client_reach.init)
  next
    case False
    then show ?thesis by (intro client_reach.add client_reach.init) simp
  qed
  then show ?thesis using True assms(1) by (simp add: rm_alloc_record_def Let_def register_client_reach)
next
  case False
  then show ?thesis using assms
    by (auto simp: rm_alloc_record_def Let_def split: option.splits
        intro!: update_client_reach client_reach.add dest: find_client_bound)
qed

lemma rm_alloc_record_params [simp]: "x_params (rm_alloc_record hc cls x) = x_params x"
  by (simp add: rm_alloc_record_def Let_def split: option.splits)

lemma rm_alloc_reach:
  assumes "list_all client_reach (x_clients x)" and "nvkvm_handle_rm_alloc drv x = (r, y)"
    and "ld32 (x_params y) 8 \<noteq> ld32 (x_params y) 4"
  shows "list_all client_reach (x_clients y)"
  using assms
  by (auto simp: nvkvm_handle_rm_alloc_def Let_def split: prod.splits if_splits
      intro!: rm_alloc_record_reach dest!: host_ioctl_clients')

lemma rm_dup_reach:
  assumes "list_all client_reach (x_clients x)" and "nvkvm_handle_rm_dup_object drv x = (r, y)"
    and "ld32 (x_params y) 8 \<noteq> ld32 (x_params y) 4"
  shows "list_all client_reach (x_clients y)"
  using assms
  by (auto simp: nvkvm_handle_rm_dup_object_def Let_def split: prod.splits if_splits option.splits
      intro!: update_client_reach client_reach.add dest!: host_ioctl_clients' dest: find_client_bound)

lemma rm_free_reach:
  assumes "list_all client_reach (x_clients x)"
  shows "\<exists>r y. nvkvm_handle_rm_free drv x = Some (r, y) \<and> list_all client_reach (x_clients y)"
proof (cases "find_client (ld32 (x_params x) 0) (x_clients x)")
  case None
  then show ?thesis using assms by (simp add: nvkvm_handle_rm_free_def)
next
  case (Some i)
  obtain r x1 where h: "host_ioctl drv (IOWR_F 0x29 16) x = (r, x1)" by fastforce
  then have c: "x_clients x1 = x_clients x" by (rule host_ioctl_clients')
  have i: "i < length (x_clients x1)" using find_client_bound [OF Some] c by simp
  then have "client_reach (x_clients x1 ! i)" using assms c by (simp add: list_all_length)
  moreover have "NVKVM_MAX_OBJECTS_PER_CLIENT < OBJ_DEPTH" by (simp add: NVKVM_MAX_OBJECTS_PER_CLIENT_def OBJ_DEPTH_def)
  ultimately obtain d where d: "nvkvm_obj_free OBJ_DEPTH (ld32 (x_params x1) 8) (x_clients x1 ! i) = Some d" "client_reach d"
    using obj_free_spec [OF client_graph_inv] client_reach.free by metis
  then show ?thesis
    using Some h c i assms by (simp add: nvkvm_handle_rm_free_def update_client_reach)
qed

lemma dispatch_uvm_type: "IOC_TYPE cmd = 0x46 \<Longrightarrow> dispatch_uvm drv cmd x = None"
  by (auto simp: dispatch_uvm_def uvm_simple_cmds_def IOC_TYPE_def)

lemma dispatch_reach:
  assumes inv: "list_all client_reach (x_clients x)"
  shows "\<exists>r y. nvkvm_dispatch_ioctl efd drv cmd x = Some (r, y)
    \<and> (ld32 (x_params y) 8 \<noteq> ld32 (x_params y) 4 \<longrightarrow> list_all client_reach (x_clients y))"
proof (cases "client_cmd cmd")
  case True
  then have t: "IOC_TYPE cmd = 0x46" "dispatch_uvm drv cmd x = None"
    using dispatch_uvm_type by (simp_all add: client_cmd_def)
  consider "IOC_NR cmd = 0x2b" | "IOC_NR cmd = 0x29" | "IOC_NR cmd = 0x34" using True by (auto simp: client_cmd_def)
  then show ?thesis
  proof cases
    case 1
    then show ?thesis using t rm_alloc_reach [OF inv]
      by (cases "nvkvm_handle_rm_alloc drv x") (auto simp: nvkvm_dispatch_ioctl_def)
  next
    case 2
    then show ?thesis using t rm_free_reach [OF inv, of drv] by (auto simp: nvkvm_dispatch_ioctl_def)
  next
    case 3
    then show ?thesis using t rm_dup_reach [OF inv]
      by (cases "nvkvm_handle_rm_dup_object drv x") (auto simp: nvkvm_dispatch_ioctl_def)
  qed
next
  case False
  have "nvkvm_dispatch_ioctl efd drv cmd x \<noteq> None"
    using False by (auto simp: nvkvm_dispatch_ioctl_def client_cmd_def Let_def split: option.splits prod.splits)
  then obtain r y where "nvkvm_dispatch_ioctl efd drv cmd x = Some (r, y)" by auto
  moreover from this have "x_clients y = x_clients x" by (rule dispatch_other_clients [OF _ False])
  ultimately show ?thesis using inv by auto
qed

section \<open>Pointers and descriptors in the parameter blob\<close>

text \<open>The guest reads back the pointer fields of an allocation as it wrote them, whatever the driver does.\<close>

lemma rm_alloc_restores:
  assumes "nvkvm_handle_rm_alloc drv x = (r, y)" and "x_psize x = 48"
  shows "ld64 (x_params y) 16 = ld64 (x_params x) 16 \<and> ld64 (x_params y) 24 = ld64 (x_params x) 24"
proof -
  have "ld64 (st64 (st64 m 16 a) 24 b) 16 = a" for m a b
  proof -
    have "ld64 (st64 (st64 m 16 a) 24 b) 16 = ld64 (st64 m 16 a) 16" by (rule ld64_cong) (simp add: mem_simps)
    then show ?thesis by (simp add: mem_simps)
  qed
  then show ?thesis
    using assms by (auto simp: nvkvm_handle_rm_alloc_def Let_def mem_simps split: prod.splits if_splits)
qed

text \<open>The arrays given to the driver by an idle-channels call lie in the auxiliary buffer.\<close>

lemma idle_channels_in_aux:
  assumes "dispatch_idle_channels drv cmd x = (Inr r, y)" and "unat (ld32 (x_params x) 12) = n" and "0 < n"
  shows "n \<le> NVKVM_IDLE_MAX_CHANNELS \<and> x_aux_va x \<noteq> 0 \<and> 3 * (4 * n) \<le> x_aux_size x
    \<and> (\<exists>p a. x_calls y = x_calls x @ [(cmd, p, a)] \<and> ld64 p 32 = x_aux_va x + of_nat (4 * n) + of_nat (4 * n))"
  using assms
  by (auto simp: fe_defs host_ioctl_def Let_def mem_simps mult.commute split: prod.splits if_splits)

text \<open>Mapping memory leaves the host descriptor in the guest's buffer: it is not put back.\<close>

lemma memory_fd_disclosed:
  assumes "\<not> bit (ld32 (x_params x) 48) 31" and "handle_fd (ld32 (x_params x) 48) x = Some hfd"
    and "\<And>p a. drv (x_fd x) cmd p a = (Inr 0, p, a)"
  shows "ld32 (x_params (snd (dispatch_memory 32 drv cmd x))) 48 = word_of_int hfd"
  using assms by (simp add: fe_defs host_ioctl_def mem_simps)

text \<open>The two tables disagree: these commands have a size and are refused, are
  dispatched and have none, or (53) have the size of the frontend command with the same number.\<close>

lemma size_of_other_command:
  "nvkvm_ioctl_expected_param_size 53 abi = frontend_param_size 53" "frontend_param_size 53 = Some 16"
  by (simp_all add: nvkvm_ioctl_expected_param_size_def uvm_param_size_def frontend_param_size_def IOC_NR_def Let_def)

lemma sized_not_dispatched:
  "nvkvm_ioctl_expected_param_size 31 abi = Some 32" "nvkvm_dispatch_ioctl efd drv 31 x = Some (Inl ENOTTY, x)"
  by (simp_all add: nvkvm_ioctl_expected_param_size_def uvm_param_size_def Let_def
      nvkvm_dispatch_ioctl_def dispatch_uvm_def uvm_simple_cmds_def IOC_TYPE_def)

lemma dispatched_not_sized:
  assumes "cmd = 44 \<or> cmd = 45"
  shows "nvkvm_ioctl_expected_param_size cmd abi = None"
    "nvkvm_dispatch_ioctl efd drv cmd x = Some (host_ioctl drv cmd x)"
proof -
  have "IOC_NR cmd = cmd" using assms by (auto simp: IOC_NR_def)
  then have "frontend_param_size cmd = None" using assms by (auto simp: frontend_param_size_def)
  moreover have "uvm_param_size prof cmd = None" for prof using assms by (auto simp: uvm_param_size_def)
  ultimately show "nvkvm_ioctl_expected_param_size cmd abi = None"
    by (simp add: nvkvm_ioctl_expected_param_size_def)
  show "nvkvm_dispatch_ioctl efd drv cmd x = Some (host_ioctl drv cmd x)"
    using assms by (auto simp: nvkvm_dispatch_ioctl_def dispatch_uvm_def uvm_simple_cmds_def nvkvm_handle_simple_ioctl_def)
qed

section \<open>Properties\<close>

text \<open>C17: the dispatcher always returns, and keeps every object graph of the session well formed: from
  clients that allocations and frees can produce, any ioctl with any driver answer comes back (no walk of an
  object graph runs away), and as long as the object the call leaves in the blob is not named as its own
  parent, the clients afterwards are such clients again.\<close>

theorem dispatch_keeps_graphs:
  assumes "list_all client_reach (x_clients x)"
  shows "\<exists>r y. nvkvm_dispatch_ioctl efd drv cmd x = Some (r, y)
    \<and> (ld32 (x_params y) 8 \<noteq> ld32 (x_params y) 4 \<longrightarrow> list_all client_reach (x_clients y))"
  by (rule dispatch_reach [OF assms])

definition exf_ctx :: "nat \<Rightarrow> mem \<Rightarrow> mem \<Rightarrow> fe_ctx" where
  "exf_ctx n p a = \<lparr>x_clients = [exo_client], x_fds = [], x_handles = nvkvm_handle_table_init, x_abi = None, x_fd = 5,
     x_psize = n, x_params = p, x_aux_va = 0x7f0000, x_aux_size = 4096, x_aux = a, x_calls = []\<rparr>"

definition exf_drv :: fe_driver where
  "exf_drv fd cmd p a = (Inr 0, p, a)"

lemma dispatch_keeps_graphs_witness:
  "list_all client_reach (x_clients (exf_ctx 16 (st32 (st32 (\<lambda>_. 0) 0 1) 8 0x5c000002) (\<lambda>_. 0)))
   \<and> (\<exists>r y. nvkvm_dispatch_ioctl (Inl EMFILE) exf_drv 0xc0104629
        (exf_ctx 16 (st32 (st32 (\<lambda>_. 0) 0 1) 8 0x5c000002) (\<lambda>_. 0)) = Some (r, y))"
proof -
  have "list_all client_reach (x_clients (exf_ctx 16 (st32 (st32 (\<lambda>_. 0) 0 1) 8 0x5c000002) (\<lambda>_. 0)))"
    using exo_reach by (simp add: exf_ctx_def)
  from dispatch_keeps_graphs [OF this, of "Inl EMFILE" exf_drv "0xc0104629"] this show ?thesis by blast
qed

text \<open>A build-version query whose string size is 0 or above 512, or whose strings do not fit the
  auxiliary buffer, reaches the driver with the three string pointers exactly as the guest wrote them: the
  handler replaces them only when the strings fit, and otherwise neither replaces nor clears them before the
  call, so the driver is given addresses of the guest's choice in the address space of the device process.\<close>

lemma build_version_guest_pointers:
  assumes "find_client (ld32 (x_params x) 0) (x_clients x) \<noteq> None" and "ld32 (x_params x) 8 = GET_BUILD_VERSION"
    and "x_aux_va x \<noteq> 0" and "40 \<le> unat (ld32 (x_params x) 24)" and "unat (ld32 (x_params x) 24) \<le> x_aux_size x"
    and "ld32 (x_aux x) 0 = 0 \<or> 512 < ld32 (x_aux x) 0"
  shows "\<exists>r y. nvkvm_handle_rm_control drv x = (r, y)
    \<and> x_calls y = x_calls x @ [(IOWR_F 0x2a 32, st64 (x_params x) 16 (x_aux_va x), x_aux x)]"
proof -
  let ?x1 = "put64 16 (x_aux_va x) x"
  have n: "\<not> strings_fit (ld32 (x_aux ?x1) 0) ?x1" using assms(6) by (auto simp: strings_fit_def)
  obtain r p a where d: "drv (x_fd x) (IOWR_F 0x2a 32) (x_params ?x1) (x_aux x) = (r, p, a)" by (rule prod_cases3)
  show ?thesis
    using assms n d by (simp add: nvkvm_handle_rm_control_def nvkvm_ctrl_get_build_version_def host_ioctl_def Let_def)
qed

definition exf_query :: mem where
  "exf_query = st32 (st32 (st32 (\<lambda>_. 0) 0 1) 8 0x101) 24 40"

lemma build_version_guest_pointers_witness:
  "\<exists>r y. nvkvm_handle_rm_control exf_drv (exf_ctx 32 exf_query (st64 (\<lambda>_. 0) 8 0xdead000)) = (r, y)
    \<and> x_calls y = [(IOWR_F 0x2a 32, st64 exf_query 16 0x7f0000, st64 (\<lambda>_. 0) 8 0xdead000)]"
proof -
  let ?x = "exf_ctx 32 exf_query (st64 (\<lambda>_. 0) 8 0xdead000)"
  have c: "c_handle exo_client = 1"
    by (simp add: exo_client_def nvkvm_obj_add_def nvkvm_obj_add_dep_def nvkvm_client_alloc_def Let_def split: option.splits)
  have z: "ld32 (\<lambda>_. 0) 0 = 0" by (simp add: ld32_def le32_def)
  have "find_client (ld32 (x_params ?x) 0) (x_clients ?x) \<noteq> None" "ld32 (x_params ?x) 8 = GET_BUILD_VERSION"
    "x_aux_va ?x \<noteq> 0" "40 \<le> unat (ld32 (x_params ?x) 24)" "unat (ld32 (x_params ?x) 24) \<le> x_aux_size ?x"
    "ld32 (x_aux ?x) 0 = 0 \<or> 512 < ld32 (x_aux ?x) 0"
    by (simp_all add: exf_ctx_def exf_query_def find_client_def GET_BUILD_VERSION_def mem_simps c z)
  from build_version_guest_pointers [OF this, of exf_drv] show ?thesis by (simp add: exf_ctx_def)
qed

end
