(* ===== verification/IsoPending.thy ===== *)
theory IsoPending
  imports Prelude
begin

text \<open>
  Forwarded ioctls in flight on one isolate (\<open>qemu/nvkvm_isolate.c\<close>): worker threads register an entry
  that lives on their own stack, send the command and wait; one reader thread receives the answers,
  claims the entry with the transaction number it is given, receives the payload into the buffers
  of the entry and wakes its owner.  The stub on the other end of the socket is not trusted: it may
  answer with any transaction number, any number of times, and stop at any point.

  Threads interleave.  Every critical section of the code is one step of \<open>pstep\<close>; a worker is named by
  a number, and so is its stack entry.  \<open>p_writes\<close> records into whose buffers the reader has written.
\<close>

datatype call_state =
  Idle
| Registered
| Sent "errno option"
| Returned "int result"

datatype pending_answer = PDone int | PErr errno

text \<open>What the reader is doing: waiting for a message, receiving the payload of an answer (for a claimed
  entry, or none), or gone.  The two numbers are the payload sizes still to be received.\<close>

datatype reader_state = RIdle | RPayload "nat option" nat nat int | RExited

record pending_ioctl =
  pi_txn :: u32
  pi_param_cap :: nat
  pi_aux_cap :: nat
  pi_param_buf :: bool
  pi_aux_buf :: bool
  pi_done :: "pending_answer option"

record iso_pending =
  p_alive :: bool
  p_sock :: bool
  p_next_txn :: u32
  p_head :: "nat list"
  p_entry :: "nat \<Rightarrow> pending_ioctl"
  p_call :: "nat \<Rightarrow> call_state"
  p_reader :: reader_state
  p_writes :: "nat list"
  p_lost :: "nat set"

definition pending_init :: iso_pending where
  "pending_init = \<lparr>p_alive = True, p_sock = True, p_next_txn = 1, p_head = [],
     p_entry = (\<lambda>_. \<lparr>pi_txn = 0, pi_param_cap = 0, pi_aux_cap = 0, pi_param_buf = False, pi_aux_buf = False, pi_done = None\<rparr>),
     p_call = (\<lambda>_. Idle), p_reader = RIdle, p_writes = [], p_lost = {}\<rparr>"

section \<open>Workers\<close>

definition next_txn :: "u32 \<Rightarrow> u32" where
  "next_txn t = (if t + 1 = 0 then 1 else t + 1)"

text \<open>Validate and register under the isolate's lock.\<close>

definition ioctl_register :: "nat \<Rightarrow> nat \<Rightarrow> nat \<Rightarrow> bool \<Rightarrow> bool \<Rightarrow> iso_pending \<Rightarrow> iso_pending" where
  "ioctl_register k pcap acap pbuf abuf s =
    (if \<not> p_alive s then s\<lparr>p_call := (p_call s)(k := Returned (Inl ENOENT))\<rparr>
     else s\<lparr>p_entry := (p_entry s)(k := \<lparr>pi_txn = p_next_txn s, pi_param_cap = pcap, pi_aux_cap = acap,
               pi_param_buf = pbuf, pi_aux_buf = abuf, pi_done = None\<rparr>),
            p_next_txn := next_txn (p_next_txn s), p_head := k # p_head s, p_call := (p_call s)(k := Registered)\<rparr>)"

text \<open>Send under the write lock; \<open>sr\<close> is the error of the socket, if any.\<close>

definition ioctl_send :: "nat \<Rightarrow> errno option \<Rightarrow> iso_pending \<Rightarrow> iso_pending" where
  "ioctl_send k sr s =
    s\<lparr>p_call := (p_call s)(k := Sent (if p_sock s then sr else Some EPIPE))\<rparr>"

text \<open>Woken up: leave the list, and prefer the error of the send.\<close>

definition ioctl_finish :: "nat \<Rightarrow> errno option \<Rightarrow> pending_answer \<Rightarrow> iso_pending \<Rightarrow> iso_pending" where
  "ioctl_finish k sr d s =
    s\<lparr>p_head := remove1 k (p_head s),
      p_call := (p_call s)(k := Returned (case d of
         PErr e \<Rightarrow> Inl e
       | PDone r \<Rightarrow> (case sr of Some e \<Rightarrow> Inl e | None \<Rightarrow> Inr r)))\<rparr>"

section \<open>The reader\<close>

definition claim :: "u32 \<Rightarrow> iso_pending \<Rightarrow> nat option" where
  "claim txn s = find (\<lambda>k. pi_txn (p_entry s k) = txn) (p_head s)"

text \<open>The header of an ioctl answer: find the entry and take it off the list.\<close>

definition reader_header :: "u32 \<Rightarrow> nat \<Rightarrow> nat \<Rightarrow> int \<Rightarrow> iso_pending \<Rightarrow> iso_pending" where
  "reader_header txn psz asz retval s =
    (case claim txn s of
       None \<Rightarrow> s\<lparr>p_reader := RPayload None psz asz retval\<rparr>
     | Some k \<Rightarrow> s\<lparr>p_head := remove1 k (p_head s), p_reader := RPayload (Some k) psz asz retval\<rparr>)"

definition wakeup :: "nat \<Rightarrow> pending_answer \<Rightarrow> iso_pending \<Rightarrow> iso_pending" where
  "wakeup k d s = s\<lparr>p_entry := (p_entry s)(k := (p_entry s k)\<lparr>pi_done := Some d\<rparr>)\<rparr>"

definition reader_exit :: "iso_pending \<Rightarrow> iso_pending" where
  "reader_exit s =
    (fold (\<lambda>k. wakeup k (PErr ECONNRESET)) (p_head s) s)
      \<lparr>p_alive := False, p_head := [], p_reader := RExited,
       p_lost := (case p_reader s of RPayload (Some k) _ _ _ \<Rightarrow> insert k (p_lost s) | _ \<Rightarrow> p_lost s)\<rparr>"

text \<open>One blob of the payload: received into the entry's buffer when it fits, dropped otherwise.  The
  flag says whether the \<open>recv\<close> succeeds; only a failing receive into a buffer ends the reader.\<close>

definition reader_blob :: "bool \<Rightarrow> iso_pending \<Rightarrow> iso_pending" where
  "reader_blob ok s =
    (case p_reader s of
       RPayload (Some k) psz asz r \<Rightarrow>
         (let e = p_entry s k;
              fits = (if psz > 0 then pi_param_buf e \<and> psz \<le> pi_param_cap e else pi_aux_buf e \<and> asz \<le> pi_aux_cap e);
              rest = (if psz > 0 then RPayload (Some k) 0 asz r else RPayload (Some k) 0 0 r) in
          if psz = 0 \<and> asz = 0 then s
          else if fits then (if ok then s\<lparr>p_reader := rest, p_writes := p_writes s @ [k]\<rparr> else reader_exit s)
          else s\<lparr>p_reader := rest, p_entry := (p_entry s)(k :=
            (if psz > 0 then e\<lparr>pi_param_buf := False\<rparr> else e\<lparr>pi_aux_buf := False\<rparr>))\<rparr>)
     | RPayload None psz asz r \<Rightarrow> s\<lparr>p_reader := (if psz > 0 then RPayload None 0 asz r else RPayload None 0 0 r)\<rparr>
     | _ \<Rightarrow> s)"

definition reader_deliver :: "iso_pending \<Rightarrow> iso_pending" where
  "reader_deliver s =
    (case p_reader s of
       RPayload (Some k) _ _ r \<Rightarrow> (wakeup k (PDone r) s)\<lparr>p_reader := RIdle\<rparr>
     | RPayload None _ _ _ \<Rightarrow> s\<lparr>p_reader := RIdle\<rparr>
     | _ \<Rightarrow> s)"

text \<open>The part of \<open>nvkvm_isolate_kill\<close> that touches this state: mark dead, take the socket away.\<close>

definition pending_kill :: "iso_pending \<Rightarrow> iso_pending" where
  "pending_kill s = s\<lparr>p_alive := False, p_sock := False\<rparr>"

section \<open>Interleavings\<close>

inductive pstep :: "iso_pending \<Rightarrow> iso_pending \<Rightarrow> bool" where
  register: "p_call s k = Idle \<Longrightarrow> pstep s (ioctl_register k pc ac pb ab s)"
| send: "p_call s k = Registered \<Longrightarrow> pstep s (ioctl_send k sr s)"
| finish: "p_call s k = Sent sr \<Longrightarrow> pi_done (p_entry s k) = Some d \<Longrightarrow> pstep s (ioctl_finish k sr d s)"
| header: "p_reader s = RIdle \<Longrightarrow> pstep s (reader_header txn psz asz r s)"
| blob: "p_reader s = RPayload c psz asz r \<Longrightarrow> psz > 0 \<or> asz > 0 \<Longrightarrow> pstep s (reader_blob ok s)"
| deliver: "p_reader s = RPayload c 0 0 r \<Longrightarrow> pstep s (reader_deliver s)"
| hangup: "p_reader s = RIdle \<Longrightarrow> pstep s (reader_exit s)"
| kill: "pstep s (pending_kill s)"

inductive preach :: "iso_pending \<Rightarrow> bool" where
  init: "preach pending_init"
| step: "preach s \<Longrightarrow> pstep s t \<Longrightarrow> preach t"

inductive_cases pstepE: "pstep s t"

definition waiting :: "nat \<Rightarrow> iso_pending \<Rightarrow> bool" where
  "waiting k s \<longleftrightarrow> (p_call s k = Registered \<or> (\<exists>sr. p_call s k = Sent sr)) \<and> pi_done (p_entry s k) = None"

definition claimed :: "iso_pending \<Rightarrow> nat option" where
  "claimed s = (case p_reader s of RPayload c _ _ _ \<Rightarrow> c | _ \<Rightarrow> None)"

text \<open>The list holds waiting workers, each once; the claimed entry belongs to a waiting worker that is not
  on the list; a waiting worker is on the list, claimed, or lost.\<close>

definition pinv :: "iso_pending \<Rightarrow> bool" where
  "pinv s \<longleftrightarrow> distinct (p_head s) \<and> (\<forall>k \<in> set (p_head s). waiting k s)
     \<and> (\<forall>k. claimed s = Some k \<longrightarrow> waiting k s \<and> k \<notin> set (p_head s))
     \<and> (\<forall>k. waiting k s \<longrightarrow> k \<in> set (p_head s) \<or> claimed s = Some k \<or> k \<in> p_lost s)
     \<and> (\<forall>k \<in> p_lost s. waiting k s \<and> k \<notin> set (p_head s) \<and> claimed s \<noteq> Some k)
     \<and> (p_reader s = RExited \<longrightarrow> \<not> p_alive s \<and> p_head s = [])
     \<and> (p_lost s \<noteq> {} \<longrightarrow> p_reader s = RExited)"

section \<open>The invariant\<close>

lemma wakeup_simps [simp]:
  "p_head (wakeup k d s) = p_head s" "p_call (wakeup k d s) = p_call s" "p_reader (wakeup k d s) = p_reader s"
  "p_lost (wakeup k d s) = p_lost s" "p_alive (wakeup k d s) = p_alive s" "p_writes (wakeup k d s) = p_writes s"
  "p_entry (wakeup k d s) j = (if j = k then (p_entry s k)\<lparr>pi_done := Some d\<rparr> else p_entry s j)"
  by (simp_all add: wakeup_def)

lemma fold_wakeup:
  "p_call (fold (\<lambda>k. wakeup k d) ks s) = p_call s" "p_reader (fold (\<lambda>k. wakeup k d) ks s) = p_reader s"
  "p_lost (fold (\<lambda>k. wakeup k d) ks s) = p_lost s" "p_writes (fold (\<lambda>k. wakeup k d) ks s) = p_writes s"
  "pi_done (p_entry (fold (\<lambda>k. wakeup k d) ks s) j) = (if j \<in> set ks then Some d else pi_done (p_entry s j))"
  by (induction ks arbitrary: s) auto

lemma waiting_reader_exit: "waiting k (reader_exit s) \<longleftrightarrow> waiting k s \<and> k \<notin> set (p_head s)"
  by (auto simp: waiting_def reader_exit_def fold_wakeup)

lemma pinv_facts:
  assumes "pinv s"
  shows "distinct (p_head s)" "k \<in> set (p_head s) \<Longrightarrow> waiting k s"
    "claimed s = Some k \<Longrightarrow> waiting k s" "claimed s = Some k \<Longrightarrow> k \<notin> set (p_head s)"
    "waiting k s \<Longrightarrow> k \<in> set (p_head s) \<or> claimed s = Some k \<or> k \<in> p_lost s"
    "k \<in> p_lost s \<Longrightarrow> waiting k s" "k \<in> p_lost s \<Longrightarrow> k \<notin> set (p_head s)" "k \<in> p_lost s \<Longrightarrow> claimed s \<noteq> Some k"
    "p_reader s = RExited \<Longrightarrow> \<not> p_alive s" "p_reader s = RExited \<Longrightarrow> p_head s = []"
    "p_lost s \<noteq> {} \<Longrightarrow> p_reader s = RExited"
  using assms unfolding pinv_def by blast+

lemma pinvI:
  assumes "distinct (p_head s)" and "\<And>k. k \<in> set (p_head s) \<Longrightarrow> waiting k s"
    and "\<And>k. claimed s = Some k \<Longrightarrow> waiting k s \<and> k \<notin> set (p_head s)"
    and "\<And>k. waiting k s \<Longrightarrow> k \<in> set (p_head s) \<or> claimed s = Some k \<or> k \<in> p_lost s"
    and "\<And>k. k \<in> p_lost s \<Longrightarrow> waiting k s \<and> k \<notin> set (p_head s) \<and> claimed s \<noteq> Some k"
    and "p_reader s = RExited \<Longrightarrow> \<not> p_alive s \<and> p_head s = []"
    and "p_lost s \<noteq> {} \<Longrightarrow> p_reader s = RExited"
  shows "pinv s"
  unfolding pinv_def using assms by blast

lemma pinv_same:
  assumes "pinv s" and "\<And>k. waiting k t = waiting k s" and "p_head t = p_head s" and "claimed t = claimed s"
    and "p_lost t = p_lost s" and "p_reader t = RExited \<longleftrightarrow> p_reader s = RExited" and "p_alive t \<longrightarrow> p_alive s"
  shows "pinv t"
  using assms unfolding pinv_def by auto

lemma pinv_register:
  assumes "pinv s" and "p_call s k = Idle"
  shows "pinv (ioctl_register k pc ac pb ab s)"
proof (cases "p_alive s")
  case False
  have "\<not> waiting k s" using assms(2) by (simp add: waiting_def)
  then have "waiting j (ioctl_register k pc ac pb ab s) = waiting j s" for j
    using False by (auto simp: ioctl_register_def waiting_def)
  then show ?thesis using False by (intro pinv_same [OF assms(1)]) (auto simp: ioctl_register_def claimed_def)
next
  case True
  let ?t = "ioctl_register k pc ac pb ab s"
  note I = pinv_facts [OF assms(1)]
  have nw: "\<not> waiting k s" using assms(2) by (simp add: waiting_def)
  have w: "waiting j ?t \<longleftrightarrow> j = k \<or> waiting j s" for j using True by (auto simp: ioctl_register_def waiting_def)
  have c: "claimed ?t = claimed s" "p_head ?t = k # p_head s" "p_lost ?t = p_lost s" "p_reader ?t = p_reader s"
    using True by (simp_all add: ioctl_register_def claimed_def)
  show ?thesis
  proof (rule pinvI)
    fix j
    show "distinct (p_head ?t)" unfolding c w using I(1) I(2) [of k] nw by auto
    show "j \<in> set (p_head ?t) \<Longrightarrow> waiting j ?t" unfolding c w using I(2) [of j] by auto
    show "claimed ?t = Some j \<Longrightarrow> waiting j ?t \<and> j \<notin> set (p_head ?t)"
      unfolding c w using I(3,4) [of j] nw by auto
    show "waiting j ?t \<Longrightarrow> j \<in> set (p_head ?t) \<or> claimed ?t = Some j \<or> j \<in> p_lost ?t"
      unfolding c w using I(5) [of j] by auto
    show "j \<in> p_lost ?t \<Longrightarrow> waiting j ?t \<and> j \<notin> set (p_head ?t) \<and> claimed ?t \<noteq> Some j"
      unfolding c w using I(6-8) [of j] nw by auto
  qed (use I c True in auto)
qed

lemma pinv_finish:
  assumes "pinv s" and "p_call s k = Sent sr" and "pi_done (p_entry s k) = Some d"
  shows "pinv (ioctl_finish k sr d s)"
proof -
  have nw: "\<not> waiting k s" using assms(3) by (simp add: waiting_def)
  then have "k \<notin> set (p_head s)" using pinv_facts(2) [OF assms(1)] by blast
  then have "p_head (ioctl_finish k sr d s) = p_head s" by (simp add: ioctl_finish_def remove1_idem)
  moreover have "waiting j (ioctl_finish k sr d s) = waiting j s" for j
    using nw by (auto simp: ioctl_finish_def waiting_def)
  ultimately show ?thesis by (intro pinv_same [OF assms(1)]) (auto simp: ioctl_finish_def claimed_def)
qed

lemma pinv_header:
  assumes "pinv s" and "p_reader s = RIdle"
  shows "pinv (reader_header txn psz asz r s)"
proof (cases "claim txn s")
  case None
  then show ?thesis
    using assms(2) by (intro pinv_same [OF assms(1)]) (auto simp: reader_header_def claimed_def waiting_def)
next
  case (Some k)
  let ?t = "reader_header txn psz asz r s"
  note I = pinv_facts [OF assms(1)]
  have k: "k \<in> set (p_head s)" using Some by (auto simp: claim_def find_Some_iff in_set_conv_nth)
  have w: "waiting j ?t = waiting j s" for j using Some by (simp add: reader_header_def waiting_def)
  have c: "claimed ?t = Some k" "claimed s = None" "p_head ?t = remove1 k (p_head s)" "p_lost ?t = p_lost s"
    using Some assms(2) by (simp_all add: reader_header_def claimed_def)
  have l: "p_lost s = {}" using I(11) assms(2) by auto
  have n: "p_reader ?t \<noteq> RExited" using Some by (simp add: reader_header_def)
  show ?thesis
  proof (rule pinvI)
    fix j
    show "distinct (p_head ?t)" unfolding c(1,3,4) w l using I(1) by auto
    show "j \<in> set (p_head ?t) \<Longrightarrow> waiting j ?t" unfolding c(1,3,4) w l using I(2) [of j] notin_set_remove1 by fastforce
    show "claimed ?t = Some j \<Longrightarrow> waiting j ?t \<and> j \<notin> set (p_head ?t)"
      unfolding c(1,3,4) w l using I(3,4) [of j] k I(1) I(2) [of k] by auto
    show "waiting j ?t \<Longrightarrow> j \<in> set (p_head ?t) \<or> claimed ?t = Some j \<or> j \<in> p_lost ?t"
      unfolding c(1,3,4) w l using I(5) [of j] k c(2) l by auto
    show "j \<in> p_lost ?t \<Longrightarrow> waiting j ?t \<and> j \<notin> set (p_head ?t) \<and> claimed ?t \<noteq> Some j"
      unfolding c(1,3,4) w l using I(6-8) [of j] by auto
  qed (use I c n l in auto)
qed

lemma pinv_exit:
  assumes "pinv s" and "p_reader s \<noteq> RExited"
  shows "pinv (reader_exit s)" (is "pinv ?t")
proof -
  note I = pinv_facts [OF assms(1)]
  have c: "p_head (reader_exit s) = []" "claimed (reader_exit s) = None" "p_reader (reader_exit s) = RExited"
    "\<not> p_alive (reader_exit s)"
    "p_lost (reader_exit s) = (case claimed s of Some k \<Rightarrow> insert k (p_lost s) | None \<Rightarrow> p_lost s)"
    by (auto simp: reader_exit_def claimed_def split: reader_state.splits option.splits)
  have l: "p_lost s = {}" using I(11) assms(2) by auto
  show ?thesis
  proof (rule pinvI)
    fix j
    show "distinct (p_head ?t)" unfolding c waiting_reader_exit l using I(1) by auto
    show "j \<in> set (p_head ?t) \<Longrightarrow> waiting j ?t" unfolding c waiting_reader_exit l using I(2) [of j] by auto
    show "claimed ?t = Some j \<Longrightarrow> waiting j ?t \<and> j \<notin> set (p_head ?t)"
      unfolding c waiting_reader_exit l using I(3,4) [of j] by auto
    show "waiting j ?t \<Longrightarrow> j \<in> set (p_head ?t) \<or> claimed ?t = Some j \<or> j \<in> p_lost ?t"
      unfolding c waiting_reader_exit l using I(5) [of j] l by (auto split: option.splits)
    show "j \<in> p_lost ?t \<Longrightarrow> waiting j ?t \<and> j \<notin> set (p_head ?t) \<and> claimed ?t \<noteq> Some j"
      unfolding c waiting_reader_exit l using l I(3,4) [of j] by (auto split: option.splits)
  qed (use I c in auto)
qed


lemma pinv_blob:
  assumes "pinv s" and "p_reader s = RPayload c psz asz r"
  shows "pinv (reader_blob ok s)"
proof (cases "reader_blob ok s = reader_exit s")
  case True
  then show ?thesis using pinv_exit [OF assms(1)] assms(2) by simp
next
  case False
  have "waiting k (reader_blob ok s) = waiting k s" for k
    using False assms(2) by (auto simp: reader_blob_def waiting_def Let_def split: option.splits)
  then show ?thesis
    using False assms(2)
    by (intro pinv_same [OF assms(1)]) (auto simp: reader_blob_def claimed_def Let_def split: option.splits)
qed

lemma pinv_deliver:
  assumes "pinv s" and "p_reader s = RPayload c psz asz r"
  shows "pinv (reader_deliver s)" (is "pinv ?t")
proof -
  note I = pinv_facts [OF assms(1)]
  have l: "p_lost s = {}" "claimed s = c" using I(11) assms(2) by (auto simp: claimed_def)
  have e: "p_head ?t = p_head s" "p_lost ?t = {}" "claimed ?t = None" "p_reader ?t \<noteq> RExited"
    using assms(2) l by (auto simp: reader_deliver_def claimed_def split: option.splits)
  have w: "waiting k ?t \<longleftrightarrow> waiting k s \<and> c \<noteq> Some k" for k
    using assms(2) by (auto simp: reader_deliver_def waiting_def split: option.splits)
  show ?thesis
  proof (rule pinvI)
    fix j
    show "j \<in> set (p_head ?t) \<Longrightarrow> waiting j ?t" unfolding e w using I(2,4) [of j] l by auto
    show "waiting j ?t \<Longrightarrow> j \<in> set (p_head ?t) \<or> claimed ?t = Some j \<or> j \<in> p_lost ?t"
      unfolding e w using I(5) [of j] l by auto
  qed (use I(1) e in auto)
qed

lemma pinv_step: "pinv s \<Longrightarrow> pstep s t \<Longrightarrow> pinv t"
proof (erule pstepE)
  assume "pinv s"
  have "waiting j (ioctl_send k sr s) = waiting j s" if "p_call s k = Registered" for j k sr
    using that by (auto simp: ioctl_send_def waiting_def)
  then show "\<And>k sr. t = ioctl_send k sr s \<Longrightarrow> p_call s k = Registered \<Longrightarrow> pinv t"
    using \<open>pinv s\<close> by (auto intro!: pinv_same [OF \<open>pinv s\<close>] simp: ioctl_send_def claimed_def)
  show "t = pending_kill s \<Longrightarrow> pinv t"
    by (auto intro!: pinv_same [OF \<open>pinv s\<close>] simp: pending_kill_def claimed_def waiting_def)
qed (auto intro: pinv_register pinv_finish pinv_header pinv_exit pinv_blob pinv_deliver)

lemma pinv_reach: "preach s \<Longrightarrow> pinv s"
proof (induction rule: preach.induct)
  case init
  show ?case by (simp add: pinv_def pending_init_def waiting_def claimed_def)
qed (rule pinv_step)

lemma writes_step:
  assumes "pstep s t"
  shows "p_writes t = p_writes s \<or> (\<exists>k. claimed s = Some k \<and> p_writes t = p_writes s @ [k])"
  using assms
  by cases (auto simp: ioctl_register_def ioctl_send_def ioctl_finish_def reader_header_def reader_blob_def
      reader_deliver_def reader_exit_def pending_kill_def fold_wakeup claimed_def Let_def split: option.splits)

text \<open>A worker whose entry was claimed when the reader left is never woken.\<close>

lemma lost_stays:
  assumes "pinv s" and "pstep s t" and "k \<in> p_lost s"
  shows "k \<in> p_lost t"
  using assms(2)
proof cases
  case (blob c psz asz r ok)
  then show ?thesis using pinv_facts(11) [OF assms(1)] assms(3) by auto
next
  case hangup
  then show ?thesis using assms(3) by (auto simp: reader_exit_def split: reader_state.splits)
qed (use assms(3) in \<open>auto simp: ioctl_register_def ioctl_send_def ioctl_finish_def reader_header_def
      reader_deliver_def pending_kill_def split: option.splits reader_state.splits\<close>)

lemma lost_forever:
  assumes "pinv s" and "pstep\<^sup>*\<^sup>* s t" and "k \<in> p_lost s"
  shows "k \<in> p_lost t \<and> pinv t"
  using assms(2,1,3) by induction (use lost_stays pinv_step in blast)+

section \<open>Properties\<close>


definition exp_0 :: iso_pending where "exp_0 = ioctl_register 0 8 0 True False pending_init"
definition exp_1 :: iso_pending where "exp_1 = ioctl_send 0 None exp_0"
definition exp_2 :: iso_pending where "exp_2 = reader_header 1 8 0 5 exp_1"

lemmas exp_defs = exp_0_def exp_1_def exp_2_def pending_init_def ioctl_register_def ioctl_send_def
  reader_header_def claim_def next_txn_def

lemma exp_reach: "preach exp_2"
proof -
  have "pstep pending_init exp_0" unfolding exp_0_def by (rule pstep.register) (simp add: pending_init_def)
  moreover have "pstep exp_0 exp_1" unfolding exp_1_def by (rule pstep.send) (simp add: exp_defs)
  moreover have "pstep exp_1 exp_2" unfolding exp_2_def by (rule pstep.header) (simp add: exp_defs)
  ultimately show ?thesis by (meson preach.intros)
qed

lemma exp_reader: "p_reader exp_2 = RPayload (Some 0) 8 0 5"
  by (simp add: exp_defs)



definition exp_gone :: iso_pending where "exp_gone = reader_blob False exp_2"


end
