(* ===== verification/IsolateTable.thy ===== *)
theory IsolateTable
  imports SlotTable Ring IsoMmap
begin

text \<open>
  The table of isolates (\<open>qemu/nvkvm_isolate.c\<close>): allocating a slot, creating an isolate with its
  socket, process, reader thread and command ring, looking it up, and killing it.  What the operating
  system and the stub answer are arguments; the descriptors the device closes are returned.  The ring
  lives in the sparse window, so creating and killing also change the window.  The sandboxing of the
  child process (namespaces, capabilities, closing inherited descriptors) is the kernel's business and is
  represented only by its success or failure.

  An index is a slot number, always below \<open>NVKVM_ISOLATE_MAX\<close>; an identifier is the 32-bit number the
  guest sends.  A return value of 0 is \<open>None\<close>, an error \<open>Some e\<close>.
\<close>

definition NVKVM_ISOLATE_MAX :: nat where
  "NVKVM_ISOLATE_MAX = 4096"

record nvkvm_isolate =
  is_id :: u32
  is_session :: u32
  is_pid :: int
  is_sock :: fd
  is_alive :: bool
  is_in_use :: bool
  is_reader :: bool
  is_next_txn :: u32
  is_ring_memfd :: fd
  is_ring_qva :: "nat option"
  is_ring_size :: nat
  is_ring_bytes :: u32
  is_ring_gpa :: nat
  is_ring_ready :: bool

record isolate_table =
  isolates :: "nat \<Rightarrow> nvkvm_isolate"
  next_isolate :: nat

definition zero_isolate :: nvkvm_isolate where
  "zero_isolate = \<lparr>is_id = 0, is_session = 0, is_pid = 0, is_sock = -1, is_alive = False, is_in_use = False,
     is_reader = False, is_next_txn = 0, is_ring_memfd = 0, is_ring_qva = None, is_ring_size = 0, is_ring_bytes = 0,
     is_ring_gpa = 0, is_ring_ready = False\<rparr>"

definition nvkvm_isolate_table_init :: isolate_table where
  "nvkvm_isolate_table_init = \<lparr>isolates = (\<lambda>_. zero_isolate), next_isolate = 1\<rparr>"

definition reset_isolate :: "nat \<Rightarrow> nvkvm_isolate \<Rightarrow> nvkvm_isolate" where
  "reset_isolate i s = s\<lparr>is_id := of_nat i, is_in_use := True, is_alive := False, is_sock := -1, is_next_txn := 1,
     is_reader := False, is_ring_memfd := -1, is_ring_qva := None, is_ring_size := 0, is_ring_bytes := 0,
     is_ring_gpa := 0, is_ring_ready := False\<rparr>"

definition bump_isolate :: "nat \<Rightarrow> nat" where
  "bump_isolate i = (if i + 1 \<ge> NVKVM_ISOLATE_MAX then 1 else i + 1)"

fun alloc_isolate_loop :: "nat \<Rightarrow> isolate_table \<Rightarrow> nat option \<times> isolate_table" where
  "alloc_isolate_loop 0 t = (None, t)"
| "alloc_isolate_loop (Suc n) t =
    (let i = next_isolate t; t1 = t\<lparr>next_isolate := bump_isolate i\<rparr> in
     if i = 0 then alloc_isolate_loop n t1
     else if is_in_use (isolates t (i mod NVKVM_ISOLATE_MAX)) then alloc_isolate_loop n t1
     else (Some i, t1\<lparr>isolates := (isolates t)(i mod NVKVM_ISOLATE_MAX :=
             reset_isolate i (isolates t (i mod NVKVM_ISOLATE_MAX)))\<rparr>))"

definition alloc_isolate_slot :: "isolate_table \<Rightarrow> nat option \<times> isolate_table" where
  "alloc_isolate_slot t = alloc_isolate_loop NVKVM_ISOLATE_MAX t"

definition bad_isolate :: "u32 \<Rightarrow> bool" where
  "bad_isolate i \<longleftrightarrow> i = 0 \<or> unat i \<ge> NVKVM_ISOLATE_MAX"

definition iso_at :: "u32 \<Rightarrow> isolate_table \<Rightarrow> nvkvm_isolate" where
  "iso_at i t = isolates t (unat i mod NVKVM_ISOLATE_MAX)"

definition iso_upd :: "u32 \<Rightarrow> (nvkvm_isolate \<Rightarrow> nvkvm_isolate) \<Rightarrow> isolate_table \<Rightarrow> isolate_table" where
  "iso_upd i f t = t\<lparr>isolates := (isolates t)(unat i mod NVKVM_ISOLATE_MAX := f (iso_at i t))\<rparr>"

text \<open>The test every operation on an isolate starts with.\<close>

definition iso_valid :: "u32 \<Rightarrow> isolate_table \<Rightarrow> bool" where
  "iso_valid i t \<longleftrightarrow> \<not> bad_isolate i \<and> is_in_use (iso_at i t) \<and> is_id (iso_at i t) = i \<and> is_alive (iso_at i t)"

definition nvkvm_isolate_host_pid :: "u32 \<Rightarrow> isolate_table \<Rightarrow> int" where
  "nvkvm_isolate_host_pid i t = (if iso_valid i t then is_pid (iso_at i t) else 0)"

section \<open>The command ring\<close>

definition NVKVM_RING_DEFAULT_BYTES :: u32 where
  "NVKVM_RING_DEFAULT_BYTES = 64 * 1024"

definition NVKVM_RING_PROBE_MASK :: u64 where
  "NVKVM_RING_PROBE_MASK = 0x5a5a5a5a5a5a5a5a"

definition ring_region :: nat where
  "ring_region = page_round (unat (nvkvm_ring_region_size NVKVM_RING_DEFAULT_BYTES))"

definition ring_probe :: "u32 \<Rightarrow> u64" where
  "ring_probe i = 0x6e766b766d000000 OR ucast i"

text \<open>Answers of the system and of the stub: the two \<open>mmap\<close> calls (over the window, private), the result
  of the setup command, the probe it echoed and the word found in the response data.\<close>

record ring_env =
  re_memfd :: "fd result"
  re_trunc :: "unit result"
  re_map_window :: bool
  re_map_private :: "nat result"
  re_answer :: "errno option"
  re_echo :: u64
  re_back :: u64

type_synonym win_state = "sparse_win \<times> kvm_pool"

definition ring_qva_unmap :: "nat \<Rightarrow> nat option \<Rightarrow> nat \<Rightarrow> win_state \<Rightarrow> win_state" where
  "ring_qva_unmap gpa qva region = (\<lambda>(w, p).
    if qva = None then (w, p)
    else if gpa \<noteq> 0 then (nvkvm_sparse_gpa_free gpa region w, p) else (w, p))"

text \<open>Placing the memfd: in the window if possible, else privately with guest address 0.\<close>

definition ring_place :: "win_env \<Rightarrow> ring_env \<Rightarrow> win_state \<Rightarrow> (nat \<times> nat) result \<times> win_state" where
  "ring_place env re ws =
    (let priv = (case re_map_private re of Inl e \<Rightarrow> Inl e | Inr q \<Rightarrow> Inr (0, q)) in
     case nvkvm_sparse_gpa_alloc env ring_region ws of (gpa, w1, p1) \<Rightarrow>
       (case (if gpa \<noteq> 0 then nvkvm_gpa_to_vmm_va gpa ring_region w1 else None) of
          None \<Rightarrow> (priv, w1, p1)
        | Some va \<Rightarrow>
            if re_map_window re then (Inr (gpa, va), w1, p1)
            else (priv, nvkvm_sparse_gpa_free gpa ring_region w1, p1)))"

definition nvkvm_isolate_ring_setup ::
  "win_env \<Rightarrow> ring_env \<Rightarrow> u32 \<Rightarrow> isolate_table \<times> win_state \<Rightarrow> errno option \<times> (isolate_table \<times> win_state) \<times> fd list" where
  "nvkvm_isolate_ring_setup env re i = (\<lambda>(t, ws).
    if bad_isolate i then (Some ENOENT, (t, ws), [])
    else if \<not> iso_valid i t \<or> is_ring_memfd (iso_at i t) \<ge> 0 then (Some EINVAL, (t, ws), [])
    else case re_memfd re of
      Inl e \<Rightarrow> (Some e, (t, ws), [])
    | Inr mfd \<Rightarrow>
       (case re_trunc re of
          Inl e \<Rightarrow> (Some e, (t, ws), [mfd])
        | Inr _ \<Rightarrow>
           (case ring_place env re ws of
              (Inl e, ws1) \<Rightarrow> (Some e, (t, ws1), [mfd])
            | (Inr (gpa, qva), ws1) \<Rightarrow>
                if re_answer re \<noteq> None then (re_answer re, (t, ring_qva_unmap gpa (Some qva) ring_region ws1), [mfd])
                else if re_echo re \<noteq> ring_probe i \<or> re_back re \<noteq> ring_probe i XOR NVKVM_RING_PROBE_MASK
                then (Some EPROTO, (t, ring_qva_unmap gpa (Some qva) ring_region ws1), [mfd])
                else (None, (iso_upd i (\<lambda>s. s\<lparr>is_ring_memfd := mfd, is_ring_qva := Some qva, is_ring_size := ring_region,
                        is_ring_bytes := NVKVM_RING_DEFAULT_BYTES, is_ring_gpa := gpa, is_ring_ready := True\<rparr>) t, ws1), []))))"

definition nvkvm_isolate_ring_info :: "u32 \<Rightarrow> isolate_table \<Rightarrow> (nat \<times> u32 \<times> u32 \<times> u32) result" where
  "nvkvm_isolate_ring_info i t =
    (if bad_isolate i then Inl ENOENT
     else let s = iso_at i t in
       if iso_valid i t \<and> is_ring_ready s \<and> is_ring_gpa s \<noteq> 0
       then Inr (is_ring_gpa s, of_nat (is_ring_size s), ucast (nvkvm_ring_resp_off (is_ring_bytes s)), is_ring_bytes s)
       else Inl ENODEV)"

section \<open>Creating\<close>

text \<open>\<open>ce_thread\<close> is \<open>None\<close> when the reader thread starts; otherwise it holds the value of \<open>errno\<close> that the
  code then returns, which \<open>pthread_create\<close> does not set (\<open>Some None\<close> is an \<open>errno\<close> of 0).\<close>

record create_env =
  ce_socketpair :: "(fd \<times> fd) result"
  ce_harden :: bool
  ce_pipe :: "(fd \<times> fd) result"
  ce_embedded :: bool
  ce_memfd :: "fd result"
  ce_write_ok :: bool
  ce_spawn :: "int result"
  ce_maps_ok :: bool
  ce_thread :: "errno option option"
  ce_ring_disable :: bool

text \<open>Up to the point where the child runs: the error and the descriptors closed, or the child's pid, the
  descriptors closed and those still open.\<close>

definition create_child :: "create_env \<Rightarrow> fd \<Rightarrow> fd \<Rightarrow> (errno \<times> fd list) + (int \<times> fd list)" where
  "create_child ce sv0 sv1 =
    (case (if ce_harden ce then (case ce_pipe ce of Inl e \<Rightarrow> Inl e | Inr (a, b) \<Rightarrow> Inr [a, b]) else Inr []) of
       Inl e \<Rightarrow> Inl (e, [sv0, sv1])
     | Inr pipes \<Rightarrow>
        (case (if ce_embedded ce then
                 (case ce_memfd ce of
                    Inl e \<Rightarrow> Inl (e, [sv0, sv1])
                  | Inr m \<Rightarrow> if ce_write_ok ce then Inr [m] else Inl (EIO, [m, sv0, sv1]))
               else Inr []) of
           Inl (e, closed) \<Rightarrow> Inl (e, closed)
         | Inr mfds \<Rightarrow>
            (case ce_spawn ce of
               Inl e \<Rightarrow> Inl (e, mfds @ pipes @ [sv0, sv1])
             | Inr pid \<Rightarrow>
                if ce_harden ce \<and> \<not> ce_maps_ok ce then Inl (EPERM, mfds @ pipes @ [sv0, sv1])
                else Inr (pid, mfds @ pipes @ [sv1]))))"

definition nvkvm_isolate_create ::
  "win_env \<Rightarrow> create_env \<Rightarrow> ring_env \<Rightarrow> u32 \<Rightarrow> isolate_table \<times> win_state
     \<Rightarrow> errno option \<times> u32 \<times> (isolate_table \<times> win_state) \<times> fd list" where
  "nvkvm_isolate_create env ce re session = (\<lambda>(t, ws).
    case ce_socketpair ce of
      Inl e \<Rightarrow> (Some e, 0, (t, ws), [])
    | Inr (sv0, sv1) \<Rightarrow>
       (case alloc_isolate_slot t of
          (None, t1) \<Rightarrow> (Some EMFILE, 0, (t1, ws), [sv0, sv1])
        | (Some n, t1) \<Rightarrow>
           (let i = of_nat n; t2 = iso_upd i (\<lambda>s. s\<lparr>is_session := session\<rparr>) t1;
                drop = iso_upd i (\<lambda>s. s\<lparr>is_in_use := False\<rparr>) in
            case create_child ce sv0 sv1 of
              Inl (e, closed) \<Rightarrow> (Some e, 0, (drop t2, ws), closed)
            | Inr (pid, closed) \<Rightarrow>
                let t3 = iso_upd i (\<lambda>s. s\<lparr>is_pid := pid, is_sock := sv0, is_alive := True\<rparr>) t2 in
                (case ce_thread ce of
                   Some e \<Rightarrow> (e, 0, (drop (iso_upd i (\<lambda>s. s\<lparr>is_sock := -1\<rparr>) t3), ws), closed @ [sv0])
                 | None \<Rightarrow>
                    let t4 = iso_upd i (\<lambda>s. s\<lparr>is_reader := True\<rparr>) t3 in
                    if ce_ring_disable ce then (None, i, (t4, ws), closed)
                    else (case nvkvm_isolate_ring_setup env re i (t4, ws) of
                            (_, st, closed') \<Rightarrow> (None, i, st, closed @ closed'))))))"

section \<open>Killing\<close>

definition kill_slot :: "u32 \<Rightarrow> isolate_table \<Rightarrow> isolate_table" where
  "kill_slot i = iso_upd i (\<lambda>s. s\<lparr>is_alive := False, is_sock := -1, is_reader := False, is_ring_qva := None,
     is_ring_memfd := -1, is_ring_ready := False, is_ring_gpa := 0, is_pid := 0, is_in_use := False\<rparr>)"

definition nvkvm_isolate_kill ::
  "u32 \<Rightarrow> isolate_table \<times> win_state \<Rightarrow> errno option \<times> (isolate_table \<times> win_state) \<times> fd list" where
  "nvkvm_isolate_kill i = (\<lambda>(t, ws).
    if bad_isolate i \<or> \<not> is_in_use (iso_at i t) \<or> is_id (iso_at i t) \<noteq> i then (Some ENOENT, (t, ws), [])
    else let s = iso_at i t;
             ws1 = (if is_ring_size s \<noteq> 0 then ring_qva_unmap (is_ring_gpa s) (is_ring_qva s) (is_ring_size s) ws else ws);
             closed = (if is_sock s \<ge> 0 then [is_sock s] else []) @ (if is_ring_memfd s \<ge> 0 then [is_ring_memfd s] else [])
         in (None, (kill_slot i t, ws1), closed))"

definition kill_matching ::
  "(nvkvm_isolate \<Rightarrow> bool) \<Rightarrow> nat \<Rightarrow> (isolate_table \<times> win_state) \<times> fd list \<Rightarrow> (isolate_table \<times> win_state) \<times> fd list" where
  "kill_matching P n = (\<lambda>((t, ws), closed).
    let s = isolates t n in
    if is_in_use s \<and> P s then (case nvkvm_isolate_kill (is_id s) (t, ws) of (_, st, c) \<Rightarrow> (st, closed @ c))
    else ((t, ws), closed))"

definition nvkvm_isolate_table_fini :: "isolate_table \<times> win_state \<Rightarrow> (isolate_table \<times> win_state) \<times> fd list" where
  "nvkvm_isolate_table_fini st = fold (kill_matching (\<lambda>_. True)) [1..<NVKVM_ISOLATE_MAX] (st, [])"

definition nvkvm_isolate_kill_session ::
  "u32 \<Rightarrow> isolate_table \<times> win_state \<Rightarrow> (isolate_table \<times> win_state) \<times> fd list" where
  "nvkvm_isolate_kill_session session st =
    fold (kill_matching (\<lambda>s. is_session s = session)) [1..<NVKVM_ISOLATE_MAX] (st, [])"

section \<open>Slots\<close>

definition iso_inv :: "isolate_table \<Rightarrow> bool" where
  "iso_inv t \<longleftrightarrow> 1 \<le> next_isolate t \<and> next_isolate t < NVKVM_ISOLATE_MAX
     \<and> (\<forall>n. is_in_use (isolates t n) \<longrightarrow> 1 \<le> n \<and> n < NVKVM_ISOLATE_MAX \<and> is_id (isolates t n) = of_nat n)"

definition iso_live :: "isolate_table \<Rightarrow> u32 \<Rightarrow> u32 option" where
  "iso_live t i = (if \<not> bad_isolate i \<and> is_in_use (iso_at i t) \<and> is_id (iso_at i t) = i
     then Some (is_session (iso_at i t)) else None)"

definition iso_open :: "u32 \<Rightarrow> isolate_table \<Rightarrow> (u32 \<times> isolate_table) option" where
  "iso_open session t = (case alloc_isolate_slot t of
     (None, _) \<Rightarrow> None
   | (Some n, t1) \<Rightarrow> Some (of_nat n, iso_upd (of_nat n) (\<lambda>s. s\<lparr>is_session := session\<rparr>) t1))"

definition iso_close :: "u32 \<Rightarrow> isolate_table \<Rightarrow> isolate_table option" where
  "iso_close i t = (if iso_live t i = None then None else Some (kill_slot i t))"

lemma iso_inv_init: "iso_inv nvkvm_isolate_table_init"
  by (simp add: iso_inv_def nvkvm_isolate_table_init_def zero_isolate_def NVKVM_ISOLATE_MAX_def)

lemma good_isolate: "\<not> bad_isolate i \<longleftrightarrow> 1 \<le> unat i \<and> unat i < NVKVM_ISOLATE_MAX"
  by (auto simp: bad_isolate_def Suc_le_eq unat_gt_0)

lemma iso_at_good: "\<not> bad_isolate i \<Longrightarrow> iso_at i t = isolates t (unat i)"
  by (simp add: iso_at_def good_isolate)

lemma iso_upd_good: "\<not> bad_isolate i \<Longrightarrow> iso_upd i f t = t\<lparr>isolates := (isolates t)(unat i := f (isolates t (unat i)))\<rparr>"
  by (simp add: iso_upd_def iso_at_def good_isolate)

lemma of_nat_isolate:
  assumes "1 \<le> n" and "n < NVKVM_ISOLATE_MAX"
  shows "unat (of_nat n :: u32) = n" "\<not> bad_isolate (of_nat n)"
proof -
  show "unat (of_nat n :: u32) = n" using assms by (intro unat_of_nat_u32) (simp add: NVKVM_ISOLATE_MAX_def)
  then show "\<not> bad_isolate (of_nat n)" using assms by (simp add: good_isolate)
qed

lemma iso_live_slot:
  assumes "iso_inv t" and "\<not> bad_isolate i"
  shows "iso_live t i = (if is_in_use (isolates t (unat i)) then Some (is_session (isolates t (unat i))) else None)"
  using assms by (auto simp: iso_live_def iso_at_good iso_inv_def)

lemma alloc_isolate_loop_Some:
  assumes "1 \<le> next_isolate t" "next_isolate t < NVKVM_ISOLATE_MAX" and "alloc_isolate_loop n t = (Some i, t')"
  shows "1 \<le> i \<and> i < NVKVM_ISOLATE_MAX \<and> \<not> is_in_use (isolates t i)
    \<and> isolates t' = (isolates t)(i := reset_isolate i (isolates t i))
    \<and> 1 \<le> next_isolate t' \<and> next_isolate t' < NVKVM_ISOLATE_MAX"
  using assms
proof (induction n arbitrary: t)
  case (Suc n)
  let ?t = "t\<lparr>next_isolate := bump_isolate (next_isolate t)\<rparr>"
  have b: "1 \<le> next_isolate ?t" "next_isolate ?t < NVKVM_ISOLATE_MAX"
    using Suc.prems(2) by (auto simp: bump_isolate_def NVKVM_ISOLATE_MAX_def)
  show ?case
  proof (cases "is_in_use (isolates t (next_isolate t))")
    case True
    then have "alloc_isolate_loop n ?t = (Some i, t')" using Suc.prems by (simp add: Let_def)
    from Suc.IH [OF b this] show ?thesis by simp
  next
    case False
    then show ?thesis using Suc.prems b by (auto simp: Let_def)
  qed
qed simp

lemma alloc_isolate_loop_None:
  assumes "1 \<le> next_isolate t" "next_isolate t < NVKVM_ISOLATE_MAX" and "alloc_isolate_loop n t = (None, t')"
  shows "isolates t' = isolates t \<and> 1 \<le> next_isolate t' \<and> next_isolate t' < NVKVM_ISOLATE_MAX"
  using assms
proof (induction n arbitrary: t)
  case (Suc n)
  let ?t = "t\<lparr>next_isolate := bump_isolate (next_isolate t)\<rparr>"
  have b: "1 \<le> next_isolate ?t" "next_isolate ?t < NVKVM_ISOLATE_MAX"
    using Suc.prems(2) by (auto simp: bump_isolate_def NVKVM_ISOLATE_MAX_def)
  have "alloc_isolate_loop n ?t = (None, t')" using Suc.prems by (auto simp: Let_def split: if_splits)
  from Suc.IH [OF b this] show ?case by simp
qed simp

lemma alloc_isolate_Some:
  assumes "iso_inv t" and "alloc_isolate_slot t = (Some n, t')"
  shows "1 \<le> n" "n < NVKVM_ISOLATE_MAX" "\<not> is_in_use (isolates t n)"
    "isolates t' = (isolates t)(n := reset_isolate n (isolates t n))" "iso_inv t'"
proof -
  have b: "1 \<le> next_isolate t" "next_isolate t < NVKVM_ISOLATE_MAX" using assms(1) by (simp_all add: iso_inv_def)
  note h = alloc_isolate_loop_Some [OF b assms(2) [unfolded alloc_isolate_slot_def]]
  then show "1 \<le> n" "n < NVKVM_ISOLATE_MAX" "\<not> is_in_use (isolates t n)"
    "isolates t' = (isolates t)(n := reset_isolate n (isolates t n))" by blast+
  have "is_id (reset_isolate n (isolates t n)) = of_nat n" by (simp add: reset_isolate_def)
  then show "iso_inv t'" using h assms(1) unfolding iso_inv_def by simp
qed

lemma alloc_isolate_None:
  assumes "iso_inv t" and "alloc_isolate_slot t = (None, t')"
  shows "isolates t' = isolates t" "iso_inv t'"
proof -
  have b: "1 \<le> next_isolate t" "next_isolate t < NVKVM_ISOLATE_MAX" using assms(1) by (simp_all add: iso_inv_def)
  note h = alloc_isolate_loop_None [OF b assms(2) [unfolded alloc_isolate_slot_def]]
  then show "isolates t' = isolates t" by blast
  then show "iso_inv t'" using h assms(1) unfolding iso_inv_def by simp
qed

lemma iso_inv_upd:
  assumes "iso_inv t" and "\<not> bad_isolate i" and "is_in_use (f (isolates t (unat i))) \<Longrightarrow> is_id (f (isolates t (unat i))) = i"
  shows "iso_inv (iso_upd i f t)"
  using assms by (auto simp: iso_inv_def iso_upd_good good_isolate)

text \<open>An isolate identifier denotes the isolate it was handed out for until that isolate is killed.\<close>

interpretation it: slot_table iso_inv iso_live iso_open iso_close
proof
  fix t :: isolate_table and t' session i
  assume inv: "iso_inv t" and "iso_open session t = Some (i, t')"
  then obtain n t1 where n: "alloc_isolate_slot t = (Some n, t1)" "i = of_nat n"
    "t' = iso_upd i (\<lambda>s. s\<lparr>is_session := session\<rparr>) t1"
    by (auto simp: iso_open_def split: prod.splits option.splits)
  note a = alloc_isolate_Some [OF inv n(1)] and o = of_nat_isolate [OF a(1,2)]
  have t': "t' = t1\<lparr>isolates := (isolates t)(n := (reset_isolate n (isolates t n))\<lparr>is_session := session\<rparr>)\<rparr>"
    using n(2,3) o a(4) by (simp add: iso_upd_good)
  have inv': "iso_inv t'" unfolding n(3) n(2)
    by (rule iso_inv_upd [OF a(5) o(2)]) (simp add: o(1) a(4) reset_isolate_def)
  have "iso_live t' j = ((iso_live t)(i \<mapsto> session)) j" for j
  proof (cases "bad_isolate j")
    case True
    then show ?thesis using o(2) n(2) by (auto simp: iso_live_def)
  next
    case False
    then show ?thesis unfolding fun_upd_apply iso_live_slot [OF inv False] iso_live_slot [OF inv' False]
      using o(1) n(2) by (auto simp: t' reset_isolate_def)
  qed
  moreover have "iso_live t i = None" using iso_live_slot [OF inv o(2)] a(3) o(1) n(2) by simp
  ultimately show "iso_inv t' \<and> iso_live t i = None \<and> iso_live t' = (iso_live t)(i \<mapsto> session)" using inv' by auto
next
  fix t :: isolate_table and t' i
  assume inv: "iso_inv t" and "iso_close i t = Some t'"
  then have l: "iso_live t i \<noteq> None" "t' = kill_slot i t" by (auto simp: iso_close_def split: if_splits)
  then have g: "\<not> bad_isolate i" by (auto simp: iso_live_def split: if_splits)
  have inv': "iso_inv t'" unfolding l(2) kill_slot_def by (rule iso_inv_upd [OF inv g]) simp
  have "iso_live t' j = ((iso_live t)(i := None)) j" for j
  proof (cases "bad_isolate j")
    case True
    then show ?thesis by (auto simp: iso_live_def)
  next
    case False
    then show ?thesis unfolding fun_upd_apply iso_live_slot [OF inv False] iso_live_slot [OF inv' False]
      by (auto simp: l(2) kill_slot_def iso_upd_good [OF g] word_unat_eq_iff)
  qed
  then show "iso_inv t' \<and> iso_live t i \<noteq> None \<and> iso_live t' = (iso_live t)(i := None)" using inv' l(1) by auto
qed

section \<open>Rings in the window\<close>

definition ring_extent :: "nat \<Rightarrow> nvkvm_isolate \<Rightarrow> extent multiset" where
  "ring_extent base s = (if is_in_use s \<and> is_ring_gpa s \<noteq> 0 then {#(is_ring_gpa s - base, is_ring_size s)#} else {#})"

definition rings :: "nat \<Rightarrow> isolate_table \<Rightarrow> extent multiset" where
  "rings base t = (\<Sum>n \<in> {1..<NVKVM_ISOLATE_MAX}. ring_extent base (isolates t n))"

text \<open>A guest-visible ring of an isolate in use is in the window and can be given back.\<close>

definition ring_ok :: "nat \<Rightarrow> nvkvm_isolate \<Rightarrow> bool" where
  "ring_ok base s \<longleftrightarrow> (is_in_use s \<and> is_ring_gpa s \<noteq> 0 \<longrightarrow>
     base \<le> is_ring_gpa s \<and> is_ring_size s = ring_region \<and> is_ring_qva s \<noteq> None)"

definition iso_ok :: "nat \<Rightarrow> isolate_table \<Rightarrow> bool" where
  "iso_ok base t \<longleftrightarrow> iso_inv t \<and> (\<forall>n. ring_ok base (isolates t n))"

lemma ring_region_val: "ring_region = 135168"
  by (simp add: ring_region_def nvkvm_ring_region_size_def sizeof_ring_def NVKVM_RING_DEFAULT_BYTES_def page_round_def wrap64_def)

lemma rings_upd:
  assumes "1 \<le> n" and "n < NVKVM_ISOLATE_MAX"
  shows "rings base (t\<lparr>isolates := (isolates t)(n := s)\<rparr>) + ring_extent base (isolates t n) = rings base t + ring_extent base s"
proof -
  have n: "n \<in> {1..<NVKVM_ISOLATE_MAX}" using assms by simp
  let ?t = "t\<lparr>isolates := (isolates t)(n := s)\<rparr>" and ?R = "\<Sum>m \<in> {1..<NVKVM_ISOLATE_MAX} - {n}. ring_extent base (isolates t m)"
  have "rings base ?t = ring_extent base (isolates ?t n)
      + (\<Sum>m \<in> {1..<NVKVM_ISOLATE_MAX} - {n}. ring_extent base (isolates ?t m))"
    unfolding rings_def by (rule sum.remove) (use n in auto)
  also have "(\<Sum>m \<in> {1..<NVKVM_ISOLATE_MAX} - {n}. ring_extent base (isolates ?t m)) = ?R" by (rule sum.cong) auto
  also have "isolates ?t n = s" by simp
  finally have "rings base ?t = ring_extent base s + ?R" .
  moreover have "rings base t = ring_extent base (isolates t n) + ?R"
    unfolding rings_def by (rule sum.remove) (use n in auto)
  ultimately show ?thesis by (simp only: ac_simps)
qed

lemma rings_upd_same:
  assumes "\<not> bad_isolate i" and "ring_extent base (f (isolates t (unat i))) = ring_extent base (isolates t (unat i))"
  shows "rings base (iso_upd i f t) = rings base t"
  using rings_upd [of "unat i" base t "f (isolates t (unat i))"] assms by (simp add: iso_upd_good good_isolate)

lemma ring_alloc:
  assumes own: "win_owns w M" and al: "nvkvm_sparse_gpa_alloc env ring_region (w, p) = (gpa, w', p')"
  shows "p' = p \<and> (gpa = 0 \<longrightarrow> w' = w) \<and> (gpa \<noteq> 0 \<longrightarrow> sparse_gpa_base w \<le> gpa \<and> sparse_gpa_base w' = sparse_gpa_base w
    \<and> win_owns w' (add_mset (gpa - sparse_gpa_base w, ring_region) M))"
proof (cases "ring_region \<le> sparse_size w")
  case True
  have "page_round ring_region = ring_region" by (simp add: ring_region_val page_round_def wrap64_def)
  then show ?thesis using win_owns_alloc [OF own _ True al] by (auto simp: ring_region_val win_frame_def)
next
  case False
  then show ?thesis using too_large_alloc [OF own _ _ _ al] by (auto simp: ring_region_val)
qed

lemma ring_place_owns:
  assumes own: "win_owns w M" and pl: "ring_place env re (w, p) = (r, w', p')"
  shows "\<exists>M'. M \<subseteq># M' \<and> sparse_gpa_base w' = sparse_gpa_base w
    \<and> (case r of Inr (gpa, qva) \<Rightarrow> if gpa \<noteq> 0
         then sparse_gpa_base w \<le> gpa \<and> win_owns w' (add_mset (gpa - sparse_gpa_base w, ring_region) M')
         else win_owns w' M' | Inl _ \<Rightarrow> win_owns w' M')"
proof -
  obtain gpa w1 p1 where al: "nvkvm_sparse_gpa_alloc env ring_region (w, p) = (gpa, w1, p1)" using prod_cases3 by blast
  note a = ring_alloc [OF own al]
  have priv: "case (case re_map_private re of Inl e \<Rightarrow> Inl e | Inr q \<Rightarrow> Inr (0, q)) of
      Inr (g, q) \<Rightarrow> g = (0 :: nat) | Inl _ \<Rightarrow> True" by (auto split: sum.splits)
  show ?thesis
  proof (cases "gpa = 0")
    case True
    then have "w' = w" using pl al a by (simp add: ring_place_def Let_def)
    then show ?thesis using pl al True own by (intro exI [of _ M]) (auto simp: ring_place_def Let_def split: sum.splits)
  next
    case g: False
    then have a': "sparse_gpa_base w \<le> gpa" "sparse_gpa_base w1 = sparse_gpa_base w"
      "win_owns w1 (add_mset (gpa - sparse_gpa_base w, ring_region) M)" using a by auto
    have fr: "win_owns (nvkvm_sparse_gpa_free gpa ring_region w1) M"
      using win_owns_free [of w1 gpa ring_region M] a' by simp
    show ?thesis
    proof (cases "nvkvm_gpa_to_vmm_va gpa ring_region w1")
      case None
      then show ?thesis using pl al g a'
        by (intro exI [of _ "add_mset (gpa - sparse_gpa_base w, ring_region) M"])
          (auto simp: ring_place_def Let_def split: sum.splits)
    next
      case (Some va)
      then show ?thesis using pl al g a' fr
        by (intro exI [of _ M]) (auto simp: ring_place_def Let_def split: sum.splits if_splits)
    qed
  qed
qed

lemma ring_unmap_owns:
  assumes "win_owns w (if gpa \<noteq> 0 then add_mset (gpa - sparse_gpa_base w, n) M else M)"
    and "gpa \<noteq> 0 \<longrightarrow> sparse_gpa_base w \<le> gpa"
  shows "\<exists>w'. ring_qva_unmap gpa (Some q) n (w, p) = (w', p) \<and> win_owns w' M \<and> sparse_gpa_base w' = sparse_gpa_base w"
  using assms win_owns_free [of w gpa n M] by (auto simp: ring_qva_unmap_def win_frame_def split: if_splits)

lemma iso_upd_comp: "iso_upd i f (iso_upd i g t) = iso_upd i (\<lambda>s. f (g s)) t"
  by (simp add: iso_upd_def iso_at_def)

lemma iso_ok_upd:
  assumes "iso_ok base t" and "\<not> bad_isolate i"
    and "is_in_use (f (isolates t (unat i))) \<Longrightarrow> is_id (f (isolates t (unat i))) = i"
    and "ring_ok base (f (isolates t (unat i)))"
  shows "iso_ok base (iso_upd i f t)"
  using assms iso_inv_upd [of t i f] unfolding iso_ok_def by (simp add: iso_upd_good)

lemma iso_live_upd:
  assumes "iso_inv t" and "\<not> bad_isolate i"
    and "is_in_use (f (isolates t (unat i))) \<Longrightarrow> is_id (f (isolates t (unat i))) = i"
  shows "iso_live (iso_upd i f t) = (iso_live t)(i := (let s = f (isolates t (unat i)) in
    if is_in_use s then Some (is_session s) else None))"
proof
  fix j
  have inv': "iso_inv (iso_upd i f t)" by (rule iso_inv_upd) (fact assms)+
  show "iso_live (iso_upd i f t) j = ((iso_live t)(i := (let s = f (isolates t (unat i)) in
    if is_in_use s then Some (is_session s) else None))) j"
  proof (cases "bad_isolate j")
    case True
    then show ?thesis using assms(2) by (auto simp: iso_live_def)
  next
    case False
    then show ?thesis unfolding fun_upd_apply iso_live_slot [OF assms(1) False] iso_live_slot [OF inv' False]
      by (auto simp: iso_upd_good [OF assms(2)] word_unat_eq_iff Let_def)
  qed
qed

text \<open>What a fresh slot turns into while an isolate is being created.\<close>

lemma fresh_upd:
  assumes ok: "iso_ok base t" and al: "alloc_isolate_slot t = (Some n, t1)"
    and F: "\<And>s. is_ring_gpa (F s) = is_ring_gpa s" "\<And>s. is_id (F s) = is_id s"
  defines "s' \<equiv> F (reset_isolate n (isolates t n))" and "t' \<equiv> iso_upd (of_nat n) F t1"
  shows "iso_ok base t'" "rings base t' = rings base t" "iso_at (of_nat n) t' = s'" "is_ring_gpa s' = 0"
    "iso_live t' = (iso_live t)(of_nat n := (if is_in_use s' then Some (is_session s') else None))"
    "iso_live t (of_nat n) = None"
proof -
  have inv: "iso_inv t" using ok by (simp add: iso_ok_def)
  note a = alloc_isolate_Some [OF inv al] and o = of_nat_isolate [OF a(1,2)]
  show g: "is_ring_gpa s' = 0" by (simp add: s'_def F reset_isolate_def)
  have id: "is_id s' = of_nat n" by (simp add: s'_def F reset_isolate_def)
  have ok1: "iso_ok base t1" using ok a by (simp add: iso_ok_def ring_ok_def reset_isolate_def)
  have s': "F (isolates t1 (unat (of_nat n :: u32))) = s'" by (simp add: s'_def o(1) a(4))
  show "iso_ok base t'" unfolding t'_def
    by (rule iso_ok_upd [OF ok1 o(2)]) (simp_all add: s' id g ring_ok_def)
  have e0: "ring_extent base (isolates t n) = {#}" using a(3) by (simp add: ring_extent_def)
  have iso': "isolates t' = (isolates t)(n := s')"
    using s' a(4) unfolding t'_def iso_upd_good [OF o(2)] by (simp add: o(1))
  have "rings base t' = rings base (t\<lparr>isolates := (isolates t)(n := s')\<rparr>)" by (simp add: rings_def iso')
  then show "rings base t' = rings base t"
    using rings_upd [OF a(1,2), of base t s'] e0 g by (simp add: ring_extent_def)
  show "iso_at (of_nat n) t' = s'" by (simp add: iso_at_good [OF o(2)] o(1) iso')
  have l: "iso_live t' = (iso_live t1)(of_nat n := (if is_in_use s' then Some (is_session s') else None))"
    unfolding t'_def using iso_live_upd [OF a(5) o(2), of F] s' id by (simp add: Let_def)
  moreover have "(iso_live t1)(of_nat n := v) = (iso_live t)(of_nat n := v)" for v
  proof
    fix j
    show "((iso_live t1)(of_nat n := v)) j = ((iso_live t)(of_nat n := v)) j"
    proof (cases "bad_isolate j")
      case False
      then show ?thesis unfolding fun_upd_apply iso_live_slot [OF inv False] iso_live_slot [OF a(5) False]
        using o(1) by (auto simp: a(4) word_unat_eq_iff)
    qed (simp add: iso_live_def)
  qed
  ultimately show "iso_live t' = (iso_live t)(of_nat n := (if is_in_use s' then Some (is_session s') else None))" by simp
  show "iso_live t (of_nat n) = None" using iso_live_slot [OF inv o(2)] a(3) o(1) by simp
qed

lemma ring_setup_keeps:
  assumes ok: "iso_ok base t" and own: "win_owns w (rings base t + M)" and base: "base = sparse_gpa_base w"
    and g: "is_ring_gpa (iso_at i t) = 0"
    and r: "nvkvm_isolate_ring_setup env re i (t, w, p) = (r, (t', w', p'), cl)"
  shows "\<exists>M'. M \<subseteq># M' \<and> iso_ok base t' \<and> win_owns w' (rings base t' + M') \<and> sparse_gpa_base w' = base
    \<and> iso_live t' = iso_live t"
proof (cases "t' = t \<and> w' = w")
  case True
  then show ?thesis using ok own base by auto
next
  case False
  then obtain mfd where v: "iso_valid i t" "re_memfd re = Inr mfd" "re_trunc re = Inr ()"
    using r by (auto simp: nvkvm_isolate_ring_setup_def split: if_splits sum.splits)
  then have b: "\<not> bad_isolate i" by (simp add: iso_valid_def)
  have inv: "iso_inv t" using ok by (simp add: iso_ok_def)
  obtain pr w1 p1 where pl: "ring_place env re (w, p) = (pr, w1, p1)" using prod_cases3 by blast
  obtain M0 where M0: "rings base t + M \<subseteq># M0" "sparse_gpa_base w1 = base" "case pr of Inr (gpa, qva) \<Rightarrow> if gpa \<noteq> 0
         then base \<le> gpa \<and> win_owns w1 (add_mset (gpa - base, ring_region) M0)
         else win_owns w1 M0 | Inl _ \<Rightarrow> win_owns w1 M0"
    using ring_place_owns [OF own pl] base by blast
  obtain C where "M0 = rings base t + M + C" using M0(1) by (auto simp: mset_subset_eq_exists_conv)
  then obtain N where N: "M0 = rings base t + N" "M \<subseteq># N" by (metis add.assoc mset_subset_eq_add_left)
  show ?thesis
  proof (cases pr)
    case (Inl e)
    then have "t' = t" "w' = w1" using r v b pl False by (auto simp: nvkvm_isolate_ring_setup_def split: if_splits)
    then show ?thesis using Inl M0 N ok by auto
  next
    case (Inr gq)
    obtain gpa qva where gq: "gq = (gpa, qva)" by fastforce
    have own1: "win_owns w1 (if gpa \<noteq> 0 then add_mset (gpa - base, ring_region) M0 else M0)" "gpa \<noteq> 0 \<longrightarrow> base \<le> gpa"
      using M0(3) Inr gq by (auto split: if_splits)
    show ?thesis
    proof (cases "re_answer re \<noteq> None \<or> re_echo re \<noteq> ring_probe i \<or> re_back re \<noteq> ring_probe i XOR NVKVM_RING_PROBE_MASK")
      case True
      then have "t' = t" "(w', p') = ring_qva_unmap gpa (Some qva) ring_region (w1, p1)"
        using r v b pl False Inr gq by (auto simp: nvkvm_isolate_ring_setup_def split: if_splits)
      then show ?thesis
        using ring_unmap_owns [of w1 gpa ring_region M0 qva p1] own1 M0(2) N ok by (intro exI [of _ N]) auto
    next
      case good: False
      let ?F = "\<lambda>s. s\<lparr>is_ring_memfd := mfd, is_ring_qva := Some qva, is_ring_size := ring_region,
        is_ring_bytes := NVKVM_RING_DEFAULT_BYTES, is_ring_gpa := gpa, is_ring_ready := True\<rparr>"
      have t': "t' = iso_upd i ?F t" "w' = w1"
        using r v b pl False Inr gq good by (auto simp: nvkvm_isolate_ring_setup_def split: if_splits)
      let ?s = "isolates t (unat i)"
      have s: "is_in_use ?s" "is_id ?s = i" "is_ring_gpa ?s = 0"
        using v(1) g iso_at_good [OF b, of t] by (simp_all add: iso_valid_def)
      have "iso_ok base t'" unfolding t'
        by (rule iso_ok_upd [OF ok b]) (use s own1(2) in \<open>auto simp: ring_ok_def\<close>)
      moreover have "iso_live t' = iso_live t"
        unfolding t' using iso_live_upd [OF inv b, of ?F] s iso_live_slot [OF inv b] by (simp add: Let_def fun_upd_idem)
      moreover have "rings base t' = rings base t + (if gpa \<noteq> 0 then {#(gpa - base, ring_region)#} else {#})"
        using rings_upd [of "unat i" base t "?F ?s"] b s unfolding t' iso_upd_good [OF b]
        by (simp add: good_isolate ring_extent_def)
      ultimately show ?thesis using own1 N M0(2) t'(2) by (intro exI [of _ N]) (auto split: if_splits)
    qed
  qed
qed

lemma create_keeps:
  assumes ok: "iso_ok base t" and own: "win_owns w (rings base t + M)" and base: "base = sparse_gpa_base w"
    and r: "nvkvm_isolate_create env ce re session (t, w, p) = (e, i, (t', w', p'), cl)"
  shows "\<exists>M'. M \<subseteq># M' \<and> iso_ok base t' \<and> win_owns w' (rings base t' + M') \<and> sparse_gpa_base w' = base
    \<and> (if i = 0 then iso_live t' = iso_live t
        else e = None \<and> iso_live t i = None \<and> iso_live t' = (iso_live t)(i \<mapsto> session))"
proof (cases "ce_socketpair ce")
  case (Inl e')
  then show ?thesis using r ok own base by (auto simp: nvkvm_isolate_create_def)
next
  case (Inr sv)
  obtain sv0 sv1 where sv: "sv = (sv0, sv1)" by fastforce
  have inv: "iso_inv t" using ok by (simp add: iso_ok_def)
  show ?thesis
  proof (cases "fst (alloc_isolate_slot t)")
    case None
    then have al: "alloc_isolate_slot t = (None, t')" "w' = w" "i = 0"
      using r Inr sv by (auto simp: nvkvm_isolate_create_def split: prod.splits)
    note a = alloc_isolate_None [OF inv al(1)]
    have "iso_live t' = iso_live t" "rings base t' = rings base t" "iso_ok base t'"
      using a ok by (auto simp: iso_live_def iso_at_def rings_def iso_ok_def fun_eq_iff)
    then show ?thesis using own base al by auto
  next
    case (Some n)
    then obtain t1 where al: "alloc_isolate_slot t = (Some n, t1)" by (metis prod.collapse)
    have b: "(of_nat n :: u32) \<noteq> 0"
      using of_nat_isolate(2) alloc_isolate_Some(1,2) [OF inv al] by (force simp: bad_isolate_def)
    note fu = fresh_upd [OF ok al]
    note cr = r [unfolded nvkvm_isolate_create_def, simplified Inr sv al, simplified, unfolded Let_def iso_upd_comp]
    show ?thesis
    proof (cases "i = 0")
      case True
      let ?D = "\<lambda>s. s\<lparr>is_session := session, is_in_use := False\<rparr>"
        and ?E = "\<lambda>pid s. s\<lparr>is_session := session, is_pid := pid, is_sock := sv0, is_alive := True,
          is_sock := -1, is_in_use := False\<rparr>"
      have "w' = w \<and> (t' = iso_upd (of_nat n) ?D t1 \<or> (\<exists>pid. t' = iso_upd (of_nat n) (?E pid) t1))"
        using cr True b al by (auto split: sum.splits prod.splits option.splits if_splits)
      moreover have "\<forall>s. is_ring_gpa (?D s) = is_ring_gpa s \<and> is_id (?D s) = is_id s \<and> \<not> is_in_use (?D s)"
        "\<forall>s. is_ring_gpa (?E pid s) = is_ring_gpa s \<and> is_id (?E pid s) = is_id s \<and> \<not> is_in_use (?E pid s)" for pid
        by simp_all
      ultimately obtain F where F: "t' = iso_upd (of_nat n) F t1" "w' = w" "\<And>s. is_ring_gpa (F s) = is_ring_gpa s"
        "\<And>s. is_id (F s) = is_id s" "\<And>s. \<not> is_in_use (F s)" by metis
      from fu [OF F(3,4)] F show ?thesis using own base True by (auto simp: fun_upd_idem)
    next
      case False
      let ?F = "\<lambda>s pid. s\<lparr>is_session := session, is_pid := pid, is_sock := sv0, is_alive := True, is_reader := True\<rparr>"
      have "\<exists>pid. i = of_nat n \<and> e = None \<and> (t' = iso_upd (of_nat n) (\<lambda>s. ?F s pid) t1 \<and> w' = w
          \<or> (\<exists>r cl. nvkvm_isolate_ring_setup env re i (iso_upd (of_nat n) (\<lambda>s. ?F s pid) t1, w, p) = (r, (t', w', p'), cl)))"
        using cr False al by (auto simp: iso_upd_comp split: sum.splits prod.splits option.splits if_splits)
      then obtain pid where i: "i = of_nat n" "e = None" and c: "t' = iso_upd (of_nat n) (\<lambda>s. ?F s pid) t1 \<and> w' = w
          \<or> (\<exists>r cl. nvkvm_isolate_ring_setup env re i (iso_upd (of_nat n) (\<lambda>s. ?F s pid) t1, w, p) = (r, (t', w', p'), cl))"
        by blast
      let ?t = "iso_upd (of_nat n) (\<lambda>s. ?F s pid) t1"
      have f: "iso_ok base ?t" "rings base ?t = rings base t" "is_ring_gpa (iso_at i ?t) = 0"
        "iso_live ?t = (iso_live t)(i \<mapsto> session)" "iso_live t i = None"
        using fu [of "\<lambda>s. ?F s pid"] i by (simp_all add: reset_isolate_def)
      from c show ?thesis
      proof
        assume "t' = ?t \<and> w' = w"
        then show ?thesis using f own base i False by auto
      next
        assume "\<exists>r cl. nvkvm_isolate_ring_setup env re i (?t, w, p) = (r, (t', w', p'), cl)"
        then obtain r cl where rs: "nvkvm_isolate_ring_setup env re i (?t, w, p) = (r, (t', w', p'), cl)" by blast
        show ?thesis using ring_setup_keeps [OF f(1) _ base f(3) rs, of M] own f(2,4,5) i False by auto
      qed
    qed
  qed
qed

lemma kill_keeps:
  assumes ok: "iso_ok base t" and own: "win_owns w (rings base t + M)" and base: "base = sparse_gpa_base w"
    and r: "nvkvm_isolate_kill i (t, w, p) = (e, (t', w', p'), cl)"
  shows "iso_ok base t' \<and> win_owns w' (rings base t' + M) \<and> sparse_gpa_base w' = base \<and> p' = p
    \<and> iso_live t' = (iso_live t)(i := None)"
proof (cases "iso_live t i = None")
  case True
  then have "t' = t \<and> w' = w \<and> p' = p" using r by (auto simp: nvkvm_isolate_kill_def iso_live_def split: if_splits)
  then show ?thesis using ok own base True by (auto simp: fun_upd_idem)
next
  case False
  have inv: "iso_inv t" using ok by (simp add: iso_ok_def)
  have b: "\<not> bad_isolate i" using False by (auto simp: iso_live_def split: if_splits)
  let ?s = "isolates t (unat i)"
  have s: "is_in_use ?s" "iso_at i t = ?s" using False iso_live_slot [OF inv b] iso_at_good [OF b] by (auto split: if_splits)
  have t': "t' = kill_slot i t"
    using r False by (auto simp: nvkvm_isolate_kill_def iso_live_def Let_def split: if_splits)
  have w': "(w', p') = (if is_ring_size ?s \<noteq> 0 then ring_qva_unmap (is_ring_gpa ?s) (is_ring_qva ?s) (is_ring_size ?s) (w, p) else (w, p))"
    using r False s by (auto simp: nvkvm_isolate_kill_def iso_live_def Let_def split: if_splits)
  have "iso_ok base t'" unfolding t' kill_slot_def by (rule iso_ok_upd [OF ok b]) (simp_all add: ring_ok_def)
  moreover have "iso_live t' = (iso_live t)(i := None)"
    unfolding t' kill_slot_def by (subst iso_live_upd [OF inv b]) (simp_all add: Let_def)
  moreover have rg: "rings base t' + ring_extent base ?s = rings base t"
    using rings_upd [of "unat i" base t] b unfolding t' kill_slot_def iso_upd_good [OF b]
    by (simp add: good_isolate ring_extent_def)
  moreover have "win_owns w' (rings base t' + M) \<and> sparse_gpa_base w' = base \<and> p' = p"
  proof (cases "is_ring_gpa ?s = 0")
    case True
    then have "w' = w \<and> p' = p" using w' by (auto simp: ring_qva_unmap_def split: if_splits)
    then show ?thesis using own base rg True by (simp add: ring_extent_def)
  next
    case g: False
    then have k: "base \<le> is_ring_gpa ?s" "is_ring_size ?s = ring_region" "is_ring_qva ?s \<noteq> None"
      using ok s unfolding iso_ok_def ring_ok_def by blast+
    then obtain q where q: "is_ring_qva ?s = Some q" by auto
    have "win_owns w (add_mset (is_ring_gpa ?s - base, ring_region) (rings base t' + M))"
      using own rg g s k by (simp add: ring_extent_def add.commute add.left_commute flip: rg)
    then show ?thesis
      using ring_unmap_owns [of w "is_ring_gpa ?s" ring_region "rings base t' + M" q p] g k base w' q
      by (auto simp: ring_region_val)
  qed
  ultimately show ?thesis by blast
qed


text \<open>Killing the isolates of a session, or all of them.\<close>

lemma kill_matching_keeps:
  assumes "iso_ok base t" and "win_owns w (rings base t + M)" and "base = sparse_gpa_base w"
    and "fold (kill_matching (\<lambda>s. P (is_session s))) ns ((t, w, p), cl) = ((t', w', p'), cl')"
    and "\<And>n. n \<in> set ns \<Longrightarrow> 1 \<le> n \<and> n < NVKVM_ISOLATE_MAX"
  shows "iso_ok base t' \<and> win_owns w' (rings base t' + M) \<and> sparse_gpa_base w' = base
    \<and> iso_live t' = (\<lambda>i. case iso_live t i of None \<Rightarrow> None | Some s \<Rightarrow> if unat i \<in> set ns \<and> P s then None else Some s)"
  using assms
proof (induction ns arbitrary: t w p cl)
  case Nil
  then show ?case by (auto simp: fun_eq_iff split: option.split)
next
  case (Cons n ns)
  have n: "1 \<le> n" "n < NVKVM_ISOLATE_MAX" using Cons.prems(5) [of n] by simp_all
  note o = of_nat_isolate [OF n]
  have inv: "iso_inv t" using Cons.prems(1) by (simp add: iso_ok_def)
  have lv: "iso_live t (of_nat n) = (if is_in_use (isolates t n) then Some (is_session (isolates t n)) else None)"
    using iso_live_slot [OF inv o(2)] o(1) by simp
  have un: "unat i = n \<longleftrightarrow> i = of_nat n" for i :: u32 using o(1) by (metis word_unat_eq_iff)
  show ?case
  proof (cases "is_in_use (isolates t n) \<and> P (is_session (isolates t n))")
    case True
    have id: "is_id (isolates t n) = of_nat n" using inv True by (auto simp: iso_inv_def)
    obtain e t1 w1 p1 c where k: "nvkvm_isolate_kill (of_nat n) (t, w, p) = (e, (t1, w1, p1), c)" by (metis prod.collapse)
    note kk = kill_keeps [OF Cons.prems(1-3) k]
    have st: "kill_matching (\<lambda>s. P (is_session s)) n ((t, w, p), cl) = ((t1, w1, p1), cl @ c)"
      using True id k by (simp add: kill_matching_def Let_def)
    have f: "fold (kill_matching (\<lambda>s. P (is_session s))) ns ((t1, w1, p1), cl @ c) = ((t', w', p'), cl')"
      using Cons.prems(4) st by simp
    have "iso_ok base t1" "win_owns w1 (rings base t1 + M)" "base = sparse_gpa_base w1" using kk by auto
    from Cons.IH [OF this f] Cons.prems(5) have
      h: "iso_ok base t' \<and> win_owns w' (rings base t' + M) \<and> sparse_gpa_base w' = base" and
      l: "iso_live t' = (\<lambda>i. case iso_live t1 i of None \<Rightarrow> None | Some s \<Rightarrow> if unat i \<in> set ns \<and> P s then None else Some s)"
      by auto
    then show ?thesis using kk lv True un by (auto simp: fun_eq_iff split: option.split)
  next
    case False
    then have "kill_matching (\<lambda>s. P (is_session s)) n ((t, w, p), cl) = ((t, w, p), cl)"
      by (auto simp: kill_matching_def Let_def)
    then have f: "fold (kill_matching (\<lambda>s. P (is_session s))) ns ((t, w, p), cl) = ((t', w', p'), cl')"
      using Cons.prems(4) by simp
    from Cons.IH [OF Cons.prems(1-3) f] Cons.prems(5) show ?thesis
      using lv False un by (auto simp: fun_eq_iff split: option.split)
  qed
qed

lemma kill_session_complete:
  assumes "iso_ok base t" and "win_owns w (rings base t + M)" and "base = sparse_gpa_base w"
    and "nvkvm_isolate_kill_session session (t, w, p) = ((t', w', p'), cl)"
  shows "iso_ok base t' \<and> win_owns w' (rings base t' + M)
    \<and> iso_live t' = (\<lambda>i. if iso_live t i = Some session then None else iso_live t i)"
proof -
  have r: "unat i \<in> set [1..<NVKVM_ISOLATE_MAX]" if "iso_live t i \<noteq> None" for i
    using that good_isolate [of i] by (auto simp: iso_live_def split: if_splits)
  show ?thesis
    using kill_matching_keeps [OF assms(1-3), of "\<lambda>s. s = session" "[1..<NVKVM_ISOLATE_MAX]" p "[]" t' w' p' cl] assms(4) r
    by (auto simp: nvkvm_isolate_kill_session_def fun_eq_iff split: option.split)
qed

lemma table_fini_complete:
  assumes "iso_ok base t" and "win_owns w (rings base t + M)" and "base = sparse_gpa_base w"
    and "nvkvm_isolate_table_fini (t, w, p) = ((t', w', p'), cl)"
  shows "win_owns w' M \<and> iso_live t' = (\<lambda>_. None)"
proof -
  have r: "unat i \<in> set [1..<NVKVM_ISOLATE_MAX]" if "iso_live t i \<noteq> None" for i
    using that good_isolate [of i] by (auto simp: iso_live_def split: if_splits)
  have k: "iso_ok base t'" "win_owns w' (rings base t' + M)" "iso_live t' = (\<lambda>_. None)"
    using kill_matching_keeps [OF assms(1-3), of "\<lambda>_. True" "[1..<NVKVM_ISOLATE_MAX]" p "[]" t' w' p' cl] assms(4) r
    by (auto simp: nvkvm_isolate_table_fini_def fun_eq_iff split: option.split)
  have "\<not> is_in_use (isolates t' n)" if "n \<in> {1..<NVKVM_ISOLATE_MAX}" for n
    using iso_live_slot [of t' "of_nat n"] k(1,3) of_nat_isolate [of n] that by (auto simp: iso_ok_def split: if_splits)
  then have "rings base t' = {#}" by (simp add: rings_def ring_extent_def)
  then show ?thesis using k by simp
qed

end
