(* ===== verification/Device.thy ===== *)
theory Device
  imports IsolateTable UvmRanges ObjectGraph
begin

text \<open>
  The device as a whole: sessions (\<open>qemu/virtio_nvgpu.c\<close>), the requests that open and close handles,
  create and kill isolates and hand handles to them (\<open>qemu/nvkvm_isolate_handlers.c\<close>), with the tables they
  share: host handles, isolates, mapping tokens and the sparse window, and the UVM address ranges.
  Requests other than forwarded ioctls run one after the other on the queue thread, so a request is a
  function from device to device.  What the system and the stubs answer are arguments.
\<close>

section \<open>Sessions\<close>

record nvkvm_session =
  ss_id :: u32
  ss_isolates :: "u32 list"
  ss_clients :: "nvkvm_client list"

record device =
  d_graphics :: bool
  d_mm :: mmap_state
  d_iso :: isolate_table
  d_sessions :: "nvkvm_session list"
  d_uvm :: uvm_va_table

definition nvkvm_session_find :: "u32 \<Rightarrow> nvkvm_session list \<Rightarrow> nvkvm_session option" where
  "nvkvm_session_find session ss = find (\<lambda>s. ss_id s = session) ss"

definition nvkvm_session_create :: "u32 \<Rightarrow> nvkvm_session list \<Rightarrow> nvkvm_session list" where
  "nvkvm_session_create session ss = ss @ [\<lparr>ss_id = session, ss_isolates = [], ss_clients = []\<rparr>]"

definition session_first_isolate :: "u32 \<Rightarrow> nvkvm_session list \<Rightarrow> u32" where
  "session_first_isolate session ss =
    (case nvkvm_session_find session ss of
       None \<Rightarrow> 0
     | Some s \<Rightarrow> (case ss_isolates s of [] \<Rightarrow> 0 | i # _ \<Rightarrow> i))"

definition session_has_isolate :: "u32 \<Rightarrow> u32 \<Rightarrow> nvkvm_session list \<Rightarrow> bool" where
  "session_has_isolate session i ss =
    (case nvkvm_session_find session ss of None \<Rightarrow> False | Some s \<Rightarrow> i \<in> set (ss_isolates s))"

abbreviation d_handles :: "device \<Rightarrow> handle_table" where
  "d_handles d \<equiv> ms_handles (d_mm d)"

definition set_handles :: "handle_table \<Rightarrow> device \<Rightarrow> device" where
  "set_handles t d = d\<lparr>d_mm := (d_mm d)\<lparr>ms_handles := t\<rparr>\<rparr>"

text \<open>Destroying a session forgets it, with its object graphs, and closes its host descriptors.\<close>

definition nvkvm_session_destroy :: "nvkvm_session \<Rightarrow> device \<Rightarrow> device \<times> fd list" where
  "nvkvm_session_destroy s d =
    (let (t, closed) = nvkvm_handle_close_session (ss_id s) (d_handles d)
     in (set_handles t (d\<lparr>d_sessions := remove1 s (d_sessions d)\<rparr>), closed))"

section \<open>Exchanges with a stub\<close>

text \<open>The outcome of an exchange (\<open>sync_send_recv\<close> and its variants) is an argument: the error of the send or
  the one the reader delivered, and what came with the answer.\<close>

definition isolate_call :: "'a result \<Rightarrow> u32 \<Rightarrow> isolate_table \<Rightarrow> 'a result" where
  "isolate_call ans i t = (if iso_valid i t then ans else Inl ENOENT)"

definition nvkvm_isolate_send_handle ::
  "unit result \<Rightarrow> u32 \<Rightarrow> u32 \<Rightarrow> isolate_table \<Rightarrow> handle_table \<Rightarrow> unit result \<times> handle_table" where
  "nvkvm_isolate_send_handle ans i h t ht =
    (if \<not> iso_valid i t then (Inl ENOENT, ht)
     else case nvkvm_handle_get h ht of
       None \<Rightarrow> (Inl EBADF, ht)
     | Some hn \<Rightarrow>
         if h_fd hn < 0 then (Inl EBADF, ht)
         else case ans of
           Inl e \<Rightarrow> (Inl e, ht)
         | Inr _ \<Rightarrow> (Inr (), snd (nvkvm_handle_ref_isolate h ht)))"

definition nvkvm_isolate_close_handle ::
  "unit result \<Rightarrow> u32 \<Rightarrow> u32 \<Rightarrow> isolate_table \<Rightarrow> handle_table \<Rightarrow> unit result \<times> handle_table" where
  "nvkvm_isolate_close_handle ans i h t ht =
    (case isolate_call ans i t of
       Inl e \<Rightarrow> (Inl e, ht)
     | Inr _ \<Rightarrow> (Inr (), snd (nvkvm_handle_unref_isolate h ht)))"

definition nvkvm_isolate_interrupt :: "unit result \<Rightarrow> u32 \<Rightarrow> isolate_table \<Rightarrow> unit result" where
  "nvkvm_isolate_interrupt ans i t = (if iso_valid i t \<and> is_sock (iso_at i t) \<ge> 0 then ans else Inl ENOENT)"

definition nvkvm_isolate_enter_loop :: "u64 result \<Rightarrow> u32 \<Rightarrow> isolate_table \<Rightarrow> u64 result" where
  "nvkvm_isolate_enter_loop ans i t =
    (if bad_isolate i then Inl ENOENT
     else if \<not> iso_valid i t \<or> \<not> is_ring_ready (iso_at i t) \<or> is_sock (iso_at i t) < 0 then Inl ENODEV
     else ans)"

definition nvkvm_isolate_mmap :: "unit result \<Rightarrow> u32 \<Rightarrow> isolate_table \<Rightarrow> unit result" where
  "nvkvm_isolate_mmap = isolate_call"

definition nvkvm_isolate_poll :: "unit result \<Rightarrow> u32 \<Rightarrow> isolate_table \<Rightarrow> unit result" where
  "nvkvm_isolate_poll = isolate_call"

definition nvkvm_isolate_unpoll :: "unit result \<Rightarrow> u32 \<Rightarrow> isolate_table \<Rightarrow> unit result" where
  "nvkvm_isolate_unpoll = isolate_call"

text \<open>Exchanges with a transaction number of their own.  The number is taken even if the isolate is dead.
  An exchange that returns a descriptor has an error and the descriptor that came with it (-1 if none).\<close>

definition take_txn :: "u32 \<Rightarrow> isolate_table \<Rightarrow> isolate_table" where
  "take_txn i = iso_upd i (\<lambda>s. s\<lparr>is_next_txn := (if is_next_txn s + 1 = 0 then 1 else is_next_txn s + 1)\<rparr>)"

definition isolate_fd_call ::
  "errno option \<times> fd \<Rightarrow> u32 \<Rightarrow> isolate_table \<Rightarrow> fd result \<times> isolate_table \<times> fd list" where
  "isolate_fd_call ans i t =
    (if bad_isolate i then (Inl ENOENT, t, [])
     else if \<not> iso_valid i t then (Inl ENOENT, take_txn i t, [])
     else case ans of
       (Some e, fd) \<Rightarrow> (Inl e, take_txn i t, if fd \<ge> 0 then [fd] else [])
     | (None, fd) \<Rightarrow> (if fd < 0 then Inl EPROTO else Inr fd, take_txn i t, []))"

definition nvkvm_isolate_open_device ::
  "errno option \<times> fd \<Rightarrow> u32 \<Rightarrow> isolate_table \<Rightarrow> fd result \<times> isolate_table \<times> fd list" where
  "nvkvm_isolate_open_device = isolate_fd_call"

definition nvkvm_isolate_present_export ::
  "errno option \<times> fd \<Rightarrow> u32 \<Rightarrow> isolate_table \<Rightarrow> fd result \<times> isolate_table \<times> fd list" where
  "nvkvm_isolate_present_export = isolate_fd_call"

definition nvkvm_isolate_xiso_import ::
  "u32 result \<Rightarrow> fd \<Rightarrow> u32 \<Rightarrow> isolate_table \<Rightarrow> u32 result \<times> isolate_table" where
  "nvkvm_isolate_xiso_import ans dmabuf i t =
    (if bad_isolate i then (Inl ENOENT, t)
     else if dmabuf < 0 then (Inl EINVAL, t)
     else if \<not> iso_valid i t then (Inl ENOENT, take_txn i t)
     else case ans of
       Inl e \<Rightarrow> (Inl e, take_txn i t)
     | Inr gem \<Rightarrow> (if gem = 0 then Inl EPROTO else Inr gem, take_txn i t))"

section \<open>Opening and closing handles\<close>

definition NVKVM_DEV_GPU :: "int \<Rightarrow> int" where "NVKVM_DEV_GPU n = 16 + n"

definition NVKVM_DEV_DRM_RD :: "int \<Rightarrow> int" where "NVKVM_DEV_DRM_RD n = 32 + n"

definition NVKVM_DEV_MODESET :: int where "NVKVM_DEV_MODESET = 48"

definition NVKVM_MAX_DEVICES :: nat where "NVKVM_MAX_DEVICES = 32"

text \<open>\<open>exists\<close> says which device nodes the host has.\<close>

definition nvkvm_req_list_nvidia_devices :: "(dev_path \<Rightarrow> bool) \<Rightarrow> int list" where
  "nvkvm_req_list_nvidia_devices exists =
    fold (\<lambda>i devs. if length devs < NVKVM_MAX_DEVICES \<and> exists (Path_GPU i)
                   then devs @ [NVKVM_DEV_GPU (int i)] else devs) [0..<16]
      ((if exists Path_CTL then [NVKVM_DEV_CTL] else []) @ (if exists Path_UVM then [NVKVM_DEV_UVM] else []))"

definition render_node :: "int \<Rightarrow> bool" where
  "render_node dev \<longleftrightarrow> NVKVM_DEV_DRM_RD 0 \<le> dev \<and> dev < NVKVM_DEV_DRM_RD 16"

text \<open>\<open>oe_open\<close>: \<open>open\<close> of the UVM device by the device process; \<open>oe_send\<close>: sending it to the stub;
  \<open>oe_stub\<close>: opening another device in the stub.\<close>

record open_env =
  oe_open :: "fd result"
  oe_send :: "unit result"
  oe_stub :: "errno option \<times> fd"

text \<open>Opening in the stub: reserve a handle, open, attach, and count the stub's copy.\<close>

definition open_in_stub :: "open_env \<Rightarrow> u32 \<Rightarrow> int \<Rightarrow> u32 \<Rightarrow> device \<Rightarrow> u32 result \<times> device \<times> fd list" where
  "open_in_stub oe session dev i d =
    (case nvkvm_handle_alloc_pending session dev (d_handles d) of
       (Inl e, ht) \<Rightarrow> (Inl e, set_handles ht d, [])
     | (Inr h, ht) \<Rightarrow>
        (case nvkvm_isolate_open_device (oe_stub oe) i (d_iso d) of
           (Inl e, it, closed) \<Rightarrow> (Inl e, set_handles (nvkvm_handle_abort_open h ht) (d\<lparr>d_iso := it\<rparr>), closed)
         | (Inr fd, it, closed) \<Rightarrow>
            (case nvkvm_handle_attach_fd h fd ht of
               (Inl e, ht1) \<Rightarrow> (Inl e, set_handles (nvkvm_handle_abort_open h ht1) (d\<lparr>d_iso := it\<rparr>), closed @ [fd])
             | (Inr _, ht1) \<Rightarrow>
                 (Inr h, set_handles (snd (nvkvm_handle_ref_isolate h ht1)) (d\<lparr>d_iso := it\<rparr>), closed))))"

definition nvkvm_req_open_nvidia_handle ::
  "open_env \<Rightarrow> u32 \<Rightarrow> int \<Rightarrow> device \<Rightarrow> u32 result \<times> device \<times> fd list" where
  "nvkvm_req_open_nvidia_handle oe session dev d =
    (if \<not> d_graphics d \<and> (dev = NVKVM_DEV_MODESET \<or> render_node dev) then (Inl EPERM, d, [])
     else let i = session_first_isolate session (d_sessions d) in
       if dev = NVKVM_DEV_UVM then
         (case nvkvm_handle_open_nvidia session dev (oe_open oe) (d_handles d) of
            (Inl e, ht, closed) \<Rightarrow> (Inl e, set_handles ht d, closed)
          | (Inr h, ht, closed) \<Rightarrow>
              (Inr h, set_handles (if i \<noteq> 0 then snd (nvkvm_isolate_send_handle (oe_send oe) i h (d_iso d) ht) else ht) d,
               closed))
       else if i = 0 then (Inl ENOENT, d, [])
       else open_in_stub oe session dev i d)"

definition nvkvm_req_open_memory_handle ::
  "fd result \<Rightarrow> unit result \<Rightarrow> u32 \<Rightarrow> u64 \<Rightarrow> device \<Rightarrow> u32 result \<times> device \<times> fd list" where
  "nvkvm_req_open_memory_handle os_memfd os_trunc session sz d =
    (case nvkvm_handle_open_memory session sz os_memfd os_trunc (d_handles d) of
       (r, ht, closed) \<Rightarrow> (r, set_handles ht d, closed))"

definition nvkvm_req_close_handle :: "u32 \<Rightarrow> device \<Rightarrow> unit result \<times> device \<times> fd list" where
  "nvkvm_req_close_handle h d =
    (let d1 = d\<lparr>d_uvm := nvkvm_uvm_va_purge_handle h (d_uvm d)\<rparr> in
     case nvkvm_handle_close h (d_handles d1) of (r, ht, closed) \<Rightarrow> (r, set_handles ht d1, closed))"

definition nvkvm_req_copy_handle_to_isolate :: "unit result \<Rightarrow> u32 \<Rightarrow> u32 \<Rightarrow> device \<Rightarrow> unit result \<times> device" where
  "nvkvm_req_copy_handle_to_isolate ans i h d =
    (case nvkvm_isolate_send_handle ans i h (d_iso d) (d_handles d) of (r, ht) \<Rightarrow> (r, set_handles ht d))"

definition nvkvm_req_close_handle_on_isolate :: "unit result \<Rightarrow> u32 \<Rightarrow> u32 \<Rightarrow> device \<Rightarrow> unit result \<times> device" where
  "nvkvm_req_close_handle_on_isolate ans i h d =
    (let d1 = d\<lparr>d_uvm := nvkvm_uvm_va_purge_handle h (d_uvm d)\<rparr> in
     case nvkvm_isolate_close_handle ans i h (d_iso d1) (d_handles d1) of (r, ht) \<Rightarrow> (r, set_handles ht d1))"

section \<open>Isolates\<close>

definition NVKVM_SESSION_ISOLATES :: nat where "NVKVM_SESSION_ISOLATES = 256"

definition session_add_isolate :: "u32 \<Rightarrow> nvkvm_session \<Rightarrow> nvkvm_session" where
  "session_add_isolate i s = (if length (ss_isolates s) < NVKVM_SESSION_ISOLATES
     then s\<lparr>ss_isolates := ss_isolates s @ [i]\<rparr> else s)"

definition d_table :: "device \<Rightarrow> isolate_table \<times> win_state" where
  "d_table d = (d_iso d, ms_win (d_mm d), ms_pool (d_mm d))"

definition set_table :: "isolate_table \<times> win_state \<Rightarrow> device \<Rightarrow> device" where
  "set_table = (\<lambda>(t, w, p) d. d\<lparr>d_iso := t, d_mm := (d_mm d)\<lparr>ms_win := w, ms_pool := p\<rparr>\<rparr>)"

text \<open>The session found by its number is the first in the list.\<close>

fun session_update :: "u32 \<Rightarrow> (nvkvm_session \<Rightarrow> nvkvm_session) \<Rightarrow> nvkvm_session list \<Rightarrow> nvkvm_session list" where
  "session_update session f [] = []"
| "session_update session f (s # ss) = (if ss_id s = session then f s # ss else s # session_update session f ss)"

definition nvkvm_req_create_isolate ::
  "win_env \<Rightarrow> create_env \<Rightarrow> ring_env \<Rightarrow> u32 \<Rightarrow> device \<Rightarrow> u32 result \<times> device \<times> fd list" where
  "nvkvm_req_create_isolate env ce re session d =
    (case nvkvm_isolate_create env ce re session (d_table d) of (err, i, st, closed) \<Rightarrow>
       let d1 = set_table st d in
       case err of
         Some e \<Rightarrow> (Inl e, d1, closed)
       | None \<Rightarrow>
           let ss = (if nvkvm_session_find session (d_sessions d1) = None
                     then nvkvm_session_create session (d_sessions d1) else d_sessions d1)
           in (Inr i, d1\<lparr>d_sessions := session_update session (session_add_isolate i) ss\<rparr>, closed))"

definition prune_session :: "u32 \<Rightarrow> nvkvm_session \<Rightarrow> nvkvm_session" where
  "prune_session i s = s\<lparr>ss_isolates := filter (\<lambda>j. j \<noteq> i) (ss_isolates s)\<rparr>"

definition became_empty :: "u32 \<Rightarrow> nvkvm_session \<Rightarrow> bool" where
  "became_empty i s \<longleftrightarrow> ss_isolates (prune_session i s) = [] \<and> ss_isolates s \<noteq> []"

fun destroy_all :: "nvkvm_session list \<Rightarrow> device \<Rightarrow> fd list \<Rightarrow> device \<times> fd list" where
  "destroy_all [] d closed = (d, closed)"
| "destroy_all (s # ss) d closed = (let (d1, c) = nvkvm_session_destroy s d in destroy_all ss d1 (closed @ c))"

text \<open>At most 16 sessions are collected for destruction.\<close>

definition nvkvm_req_kill_isolate :: "win_env \<Rightarrow> u32 \<Rightarrow> device \<Rightarrow> errno option \<times> device \<times> fd list" where
  "nvkvm_req_kill_isolate env i d =
    (case nvkvm_isolate_kill i (d_table d) of (r, st, closed) \<Rightarrow>
       let d1 = set_table st d in
       case nvkvm_iso_mmap_reap_isolate env i (d_mm d1) of (_, mm, _) \<Rightarrow>
         let dead = take 16 (map (prune_session i) (filter (became_empty i) (d_sessions d1)));
             d2 = d1\<lparr>d_mm := mm, d_sessions := map (prune_session i) (d_sessions d1)\<rparr>;
             (d3, closed') = destroy_all dead d2 closed
         in (r, d3, closed'))"

definition nvkvm_req_setup_ring :: "u32 \<Rightarrow> device \<Rightarrow> (nat \<times> u32 \<times> u32 \<times> u32 \<times> u32) result" where
  "nvkvm_req_setup_ring session d =
    (let i = session_first_isolate session (d_sessions d) in
     if i = 0 then Inl ENODEV
     else case nvkvm_isolate_ring_info i (d_iso d) of
       Inl e \<Rightarrow> Inl e
     | Inr (gpa, region, resp_off, ring_bytes) \<Rightarrow>
         if gpa = 0 then Inl ENODEV else Inr (gpa, region, 0, resp_off, ring_bytes))"

definition nvkvm_req_enter_loop :: "u64 result \<Rightarrow> u32 \<Rightarrow> device \<Rightarrow> u64 result" where
  "nvkvm_req_enter_loop ans session d =
    (let i = session_first_isolate session (d_sessions d) in
     if i = 0 then Inl ENODEV else nvkvm_isolate_enter_loop ans i (d_iso d))"

text \<open>Mapping requests reach the stub through the table of isolates.\<close>

definition mmap_on_isolate ::
  "win_env \<Rightarrow> nat result \<Rightarrow> unit result \<Rightarrow> mmap_req \<Rightarrow> device \<Rightarrow> (nat \<times> nat \<times> nat) result \<times> device \<times> host_op list" where
  "mmap_on_isolate env os_mmap ans req d =
    (case nvkvm_req_mmap_on_isolate env os_mmap (nvkvm_isolate_mmap ans (mm_isolate req) (d_iso d)) req (d_mm d) of
       (r, mm, ops) \<Rightarrow> (r, d\<lparr>d_mm := mm\<rparr>, ops))"

section \<open>Sharing buffers\<close>

text \<open>\<open>pe_submit\<close>: whether the display takes the descriptor.  The second component of the result lists the
  (isolate, handle) pairs the exporting and importing stubs were asked about.\<close>

record present_req =
  pr_session :: u32
  pr_isolate :: u32
  pr_handle :: u32

definition render_handle :: "u32 \<Rightarrow> handle_table \<Rightarrow> nvkvm_handle option" where
  "render_handle h ht = (case nvkvm_handle_get h ht of
     Some hn \<Rightarrow> if render_node (h_dev hn) then Some hn else None | None \<Rightarrow> None)"

definition nvkvm_req_present ::
  "errno option \<times> fd \<Rightarrow> bool \<Rightarrow> present_req \<Rightarrow> device \<Rightarrow> unit result \<times> (u32 \<times> u32) list \<times> device \<times> fd list" where
  "nvkvm_req_present ans submit req d =
    (if \<not> d_graphics d then (Inl EPERM, [], d, [])
     else case render_handle (pr_handle req) (d_handles d) of
       None \<Rightarrow> (Inl EINVAL, [], d, [])
     | Some hn \<Rightarrow>
         if h_session hn \<noteq> pr_session req then (Inl EINVAL, [], d, [])
         else let i = (if pr_isolate req \<noteq> 0 then pr_isolate req
                       else session_first_isolate (pr_session req) (d_sessions d)) in
           if i = 0 then (Inl ENOENT, [], d, [])
           else case nvkvm_isolate_present_export ans i (d_iso d) of
             (Inl e, it, closed) \<Rightarrow> (Inl e, [(i, pr_handle req)], d\<lparr>d_iso := it\<rparr>, closed)
           | (Inr fd, it, closed) \<Rightarrow>
               (Inr (), [(i, pr_handle req)], d\<lparr>d_iso := it\<rparr>, if submit then closed else closed @ [fd]))"

record xiso_req =
  xr_owner_isolate :: u32
  xr_owner_handle :: u32
  xr_importer_isolate :: u32
  xr_importer_handle :: u32

definition nvkvm_req_xiso_import ::
  "errno option \<times> fd \<Rightarrow> u32 result \<Rightarrow> xiso_req \<Rightarrow> device \<Rightarrow> u32 result \<times> (u32 \<times> u32) list \<times> device \<times> fd list" where
  "nvkvm_req_xiso_import exported imported req d =
    (if \<not> d_graphics d then (Inl EPERM, [], d, [])
     else if xr_owner_isolate req = 0 \<or> xr_importer_isolate req = 0 then (Inl ENOENT, [], d, [])
     else case (render_handle (xr_owner_handle req) (d_handles d), render_handle (xr_importer_handle req) (d_handles d)) of
       (Some oh, Some ih) \<Rightarrow>
         if \<not> session_has_isolate (h_session oh) (xr_owner_isolate req) (d_sessions d)
           \<or> \<not> session_has_isolate (h_session ih) (xr_importer_isolate req) (d_sessions d)
         then (Inl EPERM, [], d, [])
         else (case nvkvm_isolate_present_export exported (xr_owner_isolate req) (d_iso d) of
             (Inl e, it, closed) \<Rightarrow>
               (Inl e, [(xr_owner_isolate req, xr_owner_handle req)], d\<lparr>d_iso := it\<rparr>, closed)
           | (Inr fd, it, closed) \<Rightarrow>
               (case nvkvm_isolate_xiso_import imported fd (xr_importer_isolate req) it of (r, it1) \<Rightarrow>
                  (r, [(xr_owner_isolate req, xr_owner_handle req), (xr_importer_isolate req, xr_importer_handle req)],
                   d\<lparr>d_iso := it1\<rparr>, closed @ [fd])))
     | _ \<Rightarrow> (Inl EINVAL, [], d, []))"

section \<open>Memory handles\<close>

text \<open>Reading or writing a memory handle: \<open>buf\<close> says whether the data slot is usable, \<open>io\<close> is what
  \<open>pwrite\<close> or \<open>pread\<close> returns.  The descriptor used, if any, is returned.\<close>

definition memory_handle_io :: "bool \<Rightarrow> u32 \<Rightarrow> u32 \<Rightarrow> nat result \<Rightarrow> handle_table \<Rightarrow> unit result \<times> fd option" where
  "memory_handle_io buf h sz io ht =
    (if \<not> buf \<or> sz = 0 then (Inl EINVAL, None)
     else case nvkvm_handle_get h ht of
       None \<Rightarrow> (Inl EBADF, None)
     | Some hn \<Rightarrow>
         if h_fd hn < 0 \<or> h_type hn \<noteq> NVKVM_HANDLE_TYPE_MEMORY then (Inl EBADF, None)
         else ((case io of Inl e \<Rightarrow> Inl e | Inr n \<Rightarrow> if of_nat n \<noteq> sz then Inl EIO else Inr ()), Some (h_fd hn)))"

definition nvkvm_req_write_memory_handle :: "bool \<Rightarrow> u32 \<Rightarrow> u32 \<Rightarrow> nat result \<Rightarrow> device \<Rightarrow> unit result \<times> fd option" where
  "nvkvm_req_write_memory_handle buf h sz os_pwrite d = memory_handle_io buf h sz os_pwrite (d_handles d)"

definition nvkvm_req_read_memory_handle :: "bool \<Rightarrow> u32 \<Rightarrow> u32 \<Rightarrow> nat result \<Rightarrow> device \<Rightarrow> unit result \<times> fd option" where
  "nvkvm_req_read_memory_handle buf h sz os_pread d = memory_handle_io buf h sz os_pread (d_handles d)"


section \<open>What each request keeps\<close>

definition d_base :: "device \<Rightarrow> nat" where
  "d_base d = sparse_gpa_base (ms_win (d_mm d))"

text \<open>\<open>K\<close> are the extents of the window that neither a mapping token nor a ring accounts for.\<close>

definition dev_own :: "device \<Rightarrow> extent multiset \<Rightarrow> bool" where
  "dev_own d K \<longleftrightarrow> iso_ok (d_base d) (d_iso d) \<and> mmap_inv (d_mm d) (rings (d_base d) (d_iso d) + K)"

definition sess_inv :: "(u32 \<rightharpoonup> u32) \<Rightarrow> nvkvm_session list \<Rightarrow> bool" where
  "sess_inv lv ss \<longleftrightarrow> distinct (map ss_id ss)
     \<and> (\<forall>s \<in> set ss. \<forall>i \<in> set (ss_isolates s). i \<noteq> 0 \<longrightarrow> lv i = Some (ss_id s))"

definition dev_inv :: "device \<Rightarrow> extent multiset \<Rightarrow> bool" where
  "dev_inv d K \<longleftrightarrow> dev_own d K \<and> handle_inv (d_handles d) \<and> sess_inv (iso_live (d_iso d)) (d_sessions d)"

named_theorems handle_keeps

lemma inv_abort [handle_keeps]: "handle_inv t \<Longrightarrow> handle_inv (nvkvm_handle_abort_open h t)"
  by (auto simp: nvkvm_handle_abort_open_def upd_slot_good slot_of_good intro!: handle_inv_upd)

lemma inv_ref [handle_keeps]: "handle_inv t \<Longrightarrow> handle_inv (snd (nvkvm_handle_ref_isolate h t))"
  by (auto simp: nvkvm_handle_ref_isolate_def upd_slot_good intro!: handle_inv_upd)
    (auto simp: stale_def slot_of_good)

lemma inv_unref [handle_keeps]: "handle_inv t \<Longrightarrow> handle_inv (snd (nvkvm_handle_unref_isolate h t))"
  by (auto simp: nvkvm_handle_unref_isolate_def upd_slot_good intro!: handle_inv_upd)
    (auto simp: stale_def slot_of_good split: if_splits)

lemma inv_attach [handle_keeps]:
  "handle_inv t \<Longrightarrow> nvkvm_handle_attach_fd h fd t = (r, t') \<Longrightarrow> handle_inv t'"
  by (auto simp: nvkvm_handle_attach_fd_def upd_slot_good stale_def slot_of_good split: if_splits intro!: handle_inv_upd)

lemma inv_close [handle_keeps]:
  "handle_inv t \<Longrightarrow> nvkvm_handle_close h t = (r, t', cl) \<Longrightarrow> handle_inv t'"
  by (cases r) (auto simp: nvkvm_handle_close_def split: if_splits dest: close_inv)

lemma inv_pending [handle_keeps]:
  "handle_inv t \<Longrightarrow> nvkvm_handle_alloc_pending s dev t = (r, t') \<Longrightarrow> handle_inv t'"
  by (erule pending_cases) (auto dest: open_handles(4) alloc_slot_None)

lemma inv_fill [handle_keeps]:
  "handle_inv t \<Longrightarrow> alloc_slot t = (Some h, t1) \<Longrightarrow> handle_inv (fill_slot h ty fd s dev t1)"
  using open_handles(4) [of t ty fd s dev h "fill_slot h ty fd s dev t1"] by (simp add: handle_open_def)

lemma inv_memory [handle_keeps]:
  "handle_inv t \<Longrightarrow> nvkvm_handle_open_memory s sz m trunc t = (r, t', cl) \<Longrightarrow> handle_inv t'"
  unfolding nvkvm_handle_open_memory_def
  by (auto split: prod.splits option.splits if_splits sum.splits dest: alloc_slot_None intro: inv_fill)

lemma inv_open [handle_keeps]:
  "handle_inv t \<Longrightarrow> nvkvm_handle_open_nvidia s dev m t = (r, t', cl) \<Longrightarrow> handle_inv t'"
  unfolding nvkvm_handle_open_nvidia_def
  by (auto split: prod.splits option.splits if_splits sum.splits dest: alloc_slot_None intro: inv_fill)

lemma inv_send [handle_keeps]:
  "handle_inv ht \<Longrightarrow> handle_inv (snd (nvkvm_isolate_send_handle ans i h t ht))"
  by (simp add: nvkvm_isolate_send_handle_def inv_ref split: option.splits sum.splits)

lemma inv_close_on [handle_keeps]:
  "handle_inv ht \<Longrightarrow> handle_inv (snd (nvkvm_isolate_close_handle ans i h t ht))"
  by (simp add: nvkvm_isolate_close_handle_def inv_unref split: sum.splits)


lemma set_handles_sel [simp]:
  "d_handles (set_handles t d) = t" "d_iso (set_handles t d) = d_iso d" "d_sessions (set_handles t d) = d_sessions d"
  "d_uvm (set_handles t d) = d_uvm d" "ms_tbl (d_mm (set_handles t d)) = ms_tbl (d_mm d)"
  "ms_win (d_mm (set_handles t d)) = ms_win (d_mm d)" "d_base (set_handles t d) = d_base d"
  "dev_own (set_handles t d) K = dev_own d K"
  by (simp_all add: set_handles_def d_base_def dev_own_def mmap_inv_def)

lemma dev_own_frame [simp]:
  "dev_own (d\<lparr>d_sessions := ss\<rparr>) K = dev_own d K" "dev_own (d\<lparr>d_uvm := u\<rparr>) K = dev_own d K"
  by (simp_all add: dev_own_def d_base_def)

lemma dev_inv_handles:
  assumes "dev_inv d K" and "handle_inv t"
  shows "dev_inv (set_handles t d) K"
  using assms by (simp add: dev_inv_def)

text \<open>Only the transaction counter of an isolate changes.\<close>

definition same_isolates :: "isolate_table \<Rightarrow> isolate_table \<Rightarrow> bool" where
  "same_isolates t t' \<longleftrightarrow> iso_live t' = iso_live t \<and> (\<forall>base. (iso_ok base t \<longrightarrow> iso_ok base t') \<and> rings base t' = rings base t)"

lemma same_isolates_refl [simp]: "same_isolates t t"
  by (simp add: same_isolates_def)

lemma take_txn_same: "\<not> bad_isolate i \<Longrightarrow> same_isolates t (take_txn i t)"
proof -
  assume b: "\<not> bad_isolate i"
  have "iso_live (take_txn i t) j = iso_live t j" for j
    by (simp add: iso_live_def iso_at_def take_txn_def iso_upd_def)
  moreover have "iso_ok base (take_txn i t)" if "iso_ok base t" for base
    unfolding take_txn_def by (rule iso_ok_upd [OF that b])
      (use that b in \<open>auto simp: iso_ok_def iso_inv_def ring_ok_def\<close>)
  moreover have "rings base (take_txn i t) = rings base t" for base
    unfolding take_txn_def by (rule rings_upd_same [OF b]) (simp add: ring_extent_def)
  ultimately show ?thesis by (auto simp: same_isolates_def)
qed

lemma fd_call_same: "isolate_fd_call ans i t = (r, t', cl) \<Longrightarrow> same_isolates t t'"
  using take_txn_same [of i t] by (auto simp: isolate_fd_call_def split: prod.splits option.splits if_splits)

lemma xiso_same: "nvkvm_isolate_xiso_import ans fd i t = (r, t') \<Longrightarrow> same_isolates t t'"
  using take_txn_same [of i t] by (auto simp: nvkvm_isolate_xiso_import_def split: prod.splits sum.splits if_splits)

lemma same_isolates_trans: "same_isolates t t' \<Longrightarrow> same_isolates t' t'' \<Longrightarrow> same_isolates t t''"
  by (simp add: same_isolates_def)

lemma dev_inv_same:
  assumes "dev_inv d K" and "same_isolates (d_iso d) it"
  shows "dev_inv (d\<lparr>d_iso := it\<rparr>) K"
  using assms by (simp add: dev_inv_def dev_own_def same_isolates_def d_base_def)


lemma open_in_stub_keeps:
  assumes inv: "dev_inv d K" and r: "open_in_stub oe session dev i d = (r, d', cl)"
  shows "dev_inv d' K"
proof -
  obtain p ht where p: "nvkvm_handle_alloc_pending session dev (d_handles d) = (p, ht)" by fastforce
  have ht: "handle_inv ht" using inv_pending p inv by (auto simp: dev_inv_def)
  show ?thesis
  proof (cases p)
    case (Inl e)
    then show ?thesis using r p dev_inv_handles [OF inv ht] by (simp add: open_in_stub_def)
  next
    case (Inr h)
    obtain q it c where q: "isolate_fd_call (oe_stub oe) i (d_iso d) = (q, it, c)" using prod_cases3 by blast
    note I = dev_inv_handles [OF dev_inv_same [OF inv fd_call_same [OF q]]]
    show ?thesis
    proof (cases q)
      case (Inl e)
      then show ?thesis using r p q Inr I [OF inv_abort [OF ht, of h]]
        by (simp add: open_in_stub_def nvkvm_isolate_open_device_def)
    next
      case q': (Inr fd)
      obtain a ht1 where a: "nvkvm_handle_attach_fd h fd ht = (a, ht1)" by fastforce
      note ht1 = inv_attach [OF ht a]
      from I [OF inv_abort [OF ht1, of h]] I [OF inv_ref [OF ht1, of h]] show ?thesis
        using r p q Inr q' a by (cases a) (simp_all add: open_in_stub_def nvkvm_isolate_open_device_def)
    qed
  qed
qed

lemma open_nvidia_keeps:
  assumes inv: "dev_inv d K" and r: "nvkvm_req_open_nvidia_handle oe session dev d = (r, d', cl)"
  shows "dev_inv d' K"
proof -
  obtain p ht c where p: "nvkvm_handle_open_nvidia session dev (oe_open oe) (d_handles d) = (p, ht, c)"
    using prod_cases3 by blast
  have ht: "handle_inv ht" using inv_open p inv by (auto simp: dev_inv_def)
  note I = dev_inv_handles [OF inv ht] dev_inv_handles [OF inv inv_send [OF ht]]
  from r show ?thesis using inv p I open_in_stub_keeps [OF inv]
    by (cases p) (auto simp: nvkvm_req_open_nvidia_handle_def Let_def split: if_splits)
qed

lemma handle_requests_keep:
  assumes inv: "dev_inv d K"
  shows "nvkvm_req_open_memory_handle os_memfd os_trunc session sz d = (r1, d', cl) \<Longrightarrow> dev_inv d' K"
    and "nvkvm_req_close_handle h d = (r2, d', cl) \<Longrightarrow> dev_inv d' K"
    and "nvkvm_req_copy_handle_to_isolate ans i h d = (r3, d') \<Longrightarrow> dev_inv d' K"
    and "nvkvm_req_close_handle_on_isolate ans i h d = (r3, d') \<Longrightarrow> dev_inv d' K"
proof -
  have h: "handle_inv (d_handles d)" using inv by (simp add: dev_inv_def)
  have u: "dev_inv (d\<lparr>d_uvm := u\<rparr>) K" for u using inv by (simp add: dev_inv_def)
  show "dev_inv d' K" if "nvkvm_req_open_memory_handle os_memfd os_trunc session sz d = (r1, d', cl)"
    using that dev_inv_handles [OF inv inv_memory [OF h]]
    by (auto simp: nvkvm_req_open_memory_handle_def split: prod.splits)
  show "dev_inv d' K" if "nvkvm_req_close_handle h d = (r2, d', cl)"
    using that dev_inv_handles [OF u inv_close [OF h]]
    by (auto simp: nvkvm_req_close_handle_def Let_def split: prod.splits)
  show "dev_inv d' K" if "nvkvm_req_copy_handle_to_isolate ans i h d = (r3, d')"
    using that dev_inv_handles [OF inv inv_send [OF h, of ans i]]
    by (auto simp: nvkvm_req_copy_handle_to_isolate_def split_beta)
  show "dev_inv d' K" if "nvkvm_req_close_handle_on_isolate ans i h d = (r3, d')"
    using that dev_inv_handles [OF u inv_close_on [OF h, of ans i]]
    by (auto simp: nvkvm_req_close_handle_on_isolate_def Let_def split_beta)
qed

lemma share_requests_keep:
  assumes inv: "dev_inv d K"
  shows "nvkvm_req_present ans submit preq d = (r1, cs, d', cl) \<Longrightarrow> dev_inv d' K"
    and "nvkvm_req_xiso_import exported imported xreq d = (r2, cs, d', cl) \<Longrightarrow> dev_inv d' K"
proof -
  note S = dev_inv_same [OF inv]
  show "dev_inv d' K" if "nvkvm_req_present ans submit preq d = (r1, cs, d', cl)"
    using that inv
    by (auto simp: nvkvm_req_present_def nvkvm_isolate_present_export_def Let_def
      split: if_splits option.splits prod.splits sum.splits intro!: S dest: fd_call_same)
  show "dev_inv d' K" if "nvkvm_req_xiso_import exported imported xreq d = (r2, cs, d', cl)"
    using that inv
    by (auto simp: nvkvm_req_xiso_import_def nvkvm_isolate_present_export_def
      split: if_splits option.splits prod.splits sum.splits intro!: S dest: fd_call_same xiso_same intro: same_isolates_trans)
qed

section \<open>Sessions and isolates\<close>

lemma find_session: "distinct (map ss_id ss) \<Longrightarrow> nvkvm_session_find session ss = Some s \<longleftrightarrow> s \<in> set ss \<and> ss_id s = session"
  unfolding nvkvm_session_find_def by (induction ss) (auto simp: image_iff)

lemma find_session_None: "nvkvm_session_find session ss = None \<longleftrightarrow> session \<notin> ss_id ` set ss"
  by (auto simp: nvkvm_session_find_def find_None_iff)

lemma session_update_ids: "(\<And>s. ss_id (f s) = ss_id s) \<Longrightarrow> map ss_id (session_update session f ss) = map ss_id ss"
  by (induction ss) auto

lemma session_update_set:
  "s \<in> set (session_update session f ss) \<Longrightarrow> s \<in> set ss \<or> (\<exists>s0 \<in> set ss. ss_id s0 = session \<and> s = f s0)"
  by (induction ss) (auto split: if_splits)

lemma sess_inv_create:
  assumes inv: "sess_inv lv ss" and "i \<noteq> 0 \<Longrightarrow> lv' i = Some session" and "\<And>j. j \<noteq> 0 \<Longrightarrow> lv j \<noteq> None \<Longrightarrow> lv' j = lv j"
  defines "ss' \<equiv> if nvkvm_session_find session ss = None then nvkvm_session_create session ss else ss"
  shows "sess_inv lv' (session_update session (session_add_isolate i) ss')"
proof -
  have d: "distinct (map ss_id ss')"
    using inv by (auto simp: ss'_def sess_inv_def nvkvm_session_create_def find_session_None)
  have mem: "ss_isolates s = [] \<or> s \<in> set ss" if "s \<in> set ss'" for s
    using that by (auto simp: ss'_def nvkvm_session_create_def split: if_splits)
  have old: "lv' j = Some (ss_id s)" if "s \<in> set ss'" "j \<in> set (ss_isolates s)" "j \<noteq> 0" for s j
    using mem [OF that(1)] that assms(3) [OF that(3)] inv unfolding sess_inv_def by fastforce
  have id: "ss_id (session_add_isolate i s) = ss_id s" for s by (simp add: session_add_isolate_def)
  have "lv' j = Some (ss_id s)"
    if s: "s \<in> set (session_update session (session_add_isolate i) ss')" and j: "j \<in> set (ss_isolates s)" "j \<noteq> 0" for s j
    using session_update_set [OF s]
  proof
    assume "s \<in> set ss'"
    then show ?thesis using old j by blast
  next
    assume "\<exists>s0 \<in> set ss'. ss_id s0 = session \<and> s = session_add_isolate i s0"
    then obtain s0 where s0: "s0 \<in> set ss'" "ss_id s0 = session" "s = session_add_isolate i s0" by blast
    then have "j \<in> set (ss_isolates s0) \<or> j = i" using j by (auto simp: session_add_isolate_def split: if_splits)
    then show ?thesis using old [OF s0(1)] j s0 id assms(2) by auto
  qed
  then show ?thesis using d session_update_ids [of "session_add_isolate i", OF id] by (auto simp: sess_inv_def)
qed


lemma set_table_sel [simp]:
  "d_iso (set_table (t, w, p) d) = t" "ms_win (d_mm (set_table (t, w, p) d)) = w" "d_handles (set_table st d) = d_handles d"
  "ms_tbl (d_mm (set_table st d)) = ms_tbl (d_mm d)" "d_sessions (set_table st d) = d_sessions d"
  "d_uvm (set_table st d) = d_uvm d"
  by (simp_all add: set_table_def split_beta)

lemma dev_own_iff:
  "dev_own d K \<longleftrightarrow> iso_ok (d_base d) (d_iso d) \<and> tok_inv (ms_tbl (d_mm d))
     \<and> win_owns (ms_win (d_mm d)) (rings (d_base d) (d_iso d) + (held (d_base d) (tok_live (ms_tbl (d_mm d))) + K))
     \<and> (\<forall>k e. tok_live (ms_tbl (d_mm d)) k = Some e \<longrightarrow> entry_ok (d_base d) e)"
  by (auto simp: dev_own_def mmap_inv_def d_base_def ac_simps)

lemma create_isolate_keeps:
  assumes inv: "dev_inv d K" and r: "nvkvm_req_create_isolate env ce re session d = (r, d', cl)"
  shows "\<exists>K'. K \<subseteq># K' \<and> dev_inv d' K'"
proof -
  let ?H = "held (d_base d) (tok_live (ms_tbl (d_mm d)))"
  obtain e i t w p c where c: "nvkvm_isolate_create env ce re session (d_iso d, ms_win (d_mm d), ms_pool (d_mm d))
      = (e, i, (t, w, p), c)" by (metis prod.collapse)
  have own: "iso_ok (d_base d) (d_iso d)" "win_owns (ms_win (d_mm d)) (rings (d_base d) (d_iso d) + (?H + K))"
    using inv by (simp_all add: dev_inv_def dev_own_iff)
  obtain M where M: "?H + K \<subseteq># M" "iso_ok (d_base d) t" "win_owns w (rings (d_base d) t + M)" "sparse_gpa_base w = d_base d"
    and lv: "if i = 0 then iso_live t = iso_live (d_iso d)
        else e = None \<and> iso_live (d_iso d) i = None \<and> iso_live t = (iso_live (d_iso d))(i \<mapsto> session)"
    using create_keeps [OF own d_base_def c] by blast
  obtain C where "M = ?H + K + C" using M(1) by (auto simp: mset_subset_eq_exists_conv)
  then have own': "dev_own (set_table (t, w, p) d) (K + C)"
    using inv M by (simp add: dev_inv_def dev_own_iff d_base_def ac_simps)
  have s: "sess_inv (iso_live (d_iso d)) (d_sessions d)" using inv by (simp add: dev_inv_def)
  have lv': "iso_live t j = iso_live (d_iso d) j" if "iso_live (d_iso d) j \<noteq> None" for j
    using lv that by (auto split: if_splits)
  have "sess_inv (iso_live t) (d_sessions d')"
  proof (cases e)
    case None
    have "sess_inv (iso_live t) (session_update session (session_add_isolate i)
      (if nvkvm_session_find session (d_sessions d) = None then nvkvm_session_create session (d_sessions d) else d_sessions d))"
      by (rule sess_inv_create [OF s]) (use lv lv' in \<open>auto split: if_splits\<close>)
    then show ?thesis using r c None by (auto simp: nvkvm_req_create_isolate_def d_table_def Let_def)
  next
    case (Some e')
    then show ?thesis using r c s lv' unfolding sess_inv_def
      by (fastforce simp: nvkvm_req_create_isolate_def d_table_def Let_def)
  qed
  moreover have "dev_own d' (K + C)" "d_iso d' = t" "d_handles d' = d_handles d"
    using r c own' by (auto simp: nvkvm_req_create_isolate_def d_table_def Let_def split: option.splits)
  ultimately show ?thesis using inv by (intro exI [of _ "K + C"]) (simp add: dev_inv_def)
qed

lemma reap_handles:
  assumes "nvkvm_iso_mmap_reap_isolate env i s = (n, s', ops)"
  shows "ms_handles s' = ms_handles s"
proof -
  have "ms_handles (fst (snd (fold (reap_step env i) ks st))) = ms_handles (fst (snd st))" for ks st
  proof (induction ks arbitrary: st)
    case (Cons k ks)
    have "ms_handles (fst (snd (reap_step env i k st))) = ms_handles (fst (snd st))"
      by (auto simp: reap_step_def drop_entry_def Let_def split: prod.splits option.splits if_splits)
    then show ?case using Cons.IH by simp
  qed simp
  from this [of "[1..<NVKVM_ISO_MMAP_MAX]" "(0, s, [])"] show ?thesis
    using assms by (simp add: nvkvm_iso_mmap_reap_isolate_def)
qed

definition closed_live :: "u32 set \<Rightarrow> (u32 \<rightharpoonup> handle_info) \<Rightarrow> u32 \<rightharpoonup> handle_info" where
  "closed_live S f h = (case f h of Some (ty, fd, s, dev) \<Rightarrow> if s \<in> S then None else f h | None \<Rightarrow> None)"

lemma closed_live_simps: "closed_live {} f = f" "closed_live S (closed_live T f) = closed_live (S \<union> T) f"
  by (auto simp: closed_live_def fun_eq_iff split: option.split)

lemma destroy_all_spec:
  assumes "handle_inv (d_handles d)" and "destroy_all ss d cl = (d', cl')"
  shows "handle_inv (d_handles d') \<and> d_iso d' = d_iso d \<and> d_uvm d' = d_uvm d \<and> d_base d' = d_base d
    \<and> ms_tbl (d_mm d') = ms_tbl (d_mm d) \<and> (\<forall>K. dev_own d' K = dev_own d K)
    \<and> d_sessions d' = fold remove1 ss (d_sessions d)
    \<and> handle_live (d_handles d') = closed_live (ss_id ` set ss) (handle_live (d_handles d))"
  using assms
proof (induction ss arbitrary: d cl)
  case Nil
  then show ?case by (simp add: closed_live_simps)
next
  case (Cons s ss)
  obtain t c where c: "nvkvm_handle_close_session (ss_id s) (d_handles d) = (t, c)" by fastforce
  let ?d = "set_handles t (d\<lparr>d_sessions := remove1 s (d_sessions d)\<rparr>)"
  have d: "destroy_all ss ?d (cl @ c) = (d', cl')" using Cons.prems c by (simp add: nvkvm_session_destroy_def)
  have "handle_live t = closed_live {ss_id s} (handle_live (d_handles d))"
    using close_session_live [OF Cons.prems(1) c] by (auto simp: closed_live_def fun_eq_iff split: option.split)
  then show ?case using Cons.IH [OF _ d] close_session_inv [OF Cons.prems(1) c]
    by (simp add: closed_live_simps d_base_def)
qed

lemma sess_inv_remove:
  assumes "sess_inv lv ss"
  shows "sess_inv lv (fold remove1 dead ss)"
  using assms
proof (induction dead arbitrary: ss)
  case (Cons s dead)
  have "distinct (map ss_id (remove1 s ss))"
    using Cons.prems unfolding sess_inv_def distinct_map by (meson distinct_remove1 inj_on_subset set_remove1_subset)
  then have "sess_inv lv (remove1 s ss)"
    using Cons.prems set_remove1_subset [of s ss] unfolding sess_inv_def by blast
  then show ?case using Cons.IH by simp
qed simp

lemma sess_inv_prune:
  assumes "sess_inv lv ss"
  shows "sess_inv (lv(i := None)) (map (prune_session i) ss)"
proof -
  have "ss_id \<circ> prune_session i = ss_id" by (auto simp: prune_session_def)
  then show ?thesis using assms unfolding sess_inv_def by (simp add: prune_session_def)
qed

lemma kill_isolate_keeps:
  assumes inv: "dev_inv d K" and r: "nvkvm_req_kill_isolate env i d = (r, d', cl)"
  defines "dead \<equiv> take 16 (map (prune_session i) (filter (became_empty i) (d_sessions d)))"
  shows "dev_inv d' K \<and> iso_live (d_iso d') = (iso_live (d_iso d))(i := None)
    \<and> tok_live (ms_tbl (d_mm d')) = reaped_live i UNIV (tok_live (ms_tbl (d_mm d)))
    \<and> d_sessions d' = fold remove1 dead (map (prune_session i) (d_sessions d))
    \<and> handle_live (d_handles d') = closed_live (ss_id ` set dead) (handle_live (d_handles d)) \<and> d_uvm d' = d_uvm d"
proof -
  let ?H = "held (d_base d) (tok_live (ms_tbl (d_mm d)))"
  obtain e t w p c where c: "nvkvm_isolate_kill i (d_iso d, ms_win (d_mm d), ms_pool (d_mm d)) = (e, (t, w, p), c)"
    by (metis prod.collapse)
  have own: "iso_ok (d_base d) (d_iso d)" "win_owns (ms_win (d_mm d)) (rings (d_base d) (d_iso d) + (?H + K))"
    using inv by (simp_all add: dev_inv_def dev_own_iff)
  note k = kill_keeps [OF own d_base_def c]
  let ?d1 = "set_table (t, w, p) d"
  have b1: "d_base (set_table (t, w, q) d) = d_base d" for q using k by (simp add: d_base_def)
  have own1: "dev_own ?d1 K" using inv k by (simp add: dev_inv_def dev_own_iff b1)
  obtain n mm ops where m: "nvkvm_iso_mmap_reap_isolate env i (d_mm ?d1) = (n, mm, ops)" using prod_cases3 by blast
  note rk = reap_keeps [OF own1 [unfolded dev_own_def, THEN conjunct2] m]
  let ?d2 = "?d1\<lparr>d_mm := mm, d_sessions := map (prune_session i) (d_sessions d)\<rparr>"
  have b2: "d_base ?d2 = d_base d" using rk(4) b1 by (simp add: d_base_def)
  have own2: "dev_own ?d2 K" using own1 rk(1) b2 b1 by (simp add: dev_own_def)
  have h2: "d_handles ?d2 = d_handles d" using reap_handles [OF m] by simp
  have hi: "handle_inv (d_handles ?d2)" using inv h2 by (simp add: dev_inv_def)
  have d: "destroy_all dead ?d2 c = (d', cl)" "r = e"
    using r c m by (auto simp: nvkvm_req_kill_isolate_def d_table_def Let_def dead_def split: prod.splits)
  note ds = destroy_all_spec [OF hi d(1)]
  have "sess_inv (iso_live t) (d_sessions d')"
    using ds k sess_inv_remove [OF sess_inv_prune, of "iso_live (d_iso d)" "d_sessions d"] inv by (simp add: dev_inv_def)
  then show ?thesis using ds own2 k rk(2) h2 by (simp add: dev_inv_def)
qed


section \<open>Reachable devices\<close>

text \<open>The requests in any order, with any answers of the host and the stubs.  Forwarded ioctls change the
  table of UVM ranges.\<close>

inductive dev_step :: "device \<Rightarrow> device \<Rightarrow> bool" where
  dev_open: "nvkvm_req_open_nvidia_handle oe session dev d = (r, d', cl) \<Longrightarrow> dev_step d d'"
| dev_open_memory: "nvkvm_req_open_memory_handle os_memfd os_trunc session sz d = (r, d', cl) \<Longrightarrow> dev_step d d'"
| dev_close: "nvkvm_req_close_handle h d = (u, d', cl) \<Longrightarrow> dev_step d d'"
| dev_copy: "nvkvm_req_copy_handle_to_isolate ans i h d = (u, d') \<Longrightarrow> dev_step d d'"
| dev_close_on: "nvkvm_req_close_handle_on_isolate ans i h d = (u, d') \<Longrightarrow> dev_step d d'"
| dev_create: "nvkvm_req_create_isolate env ce re session d = (r, d', cl) \<Longrightarrow> dev_step d d'"
| dev_kill: "nvkvm_req_kill_isolate env i d = (e, d', cl) \<Longrightarrow> dev_step d d'"
| dev_mmap: "mmap_on_isolate env os_mmap ans mreq d = (m, d', ops) \<Longrightarrow> dev_step d d'"
| dev_munmap: "nvkvm_req_munmap_on_isolate env token (d_mm d) = (u, mm, ops) \<Longrightarrow> dev_step d (d\<lparr>d_mm := mm\<rparr>)"
| dev_realize: "nvkvm_req_realize_uvm_mapping env rans rreq bufs (d_mm d) = (resp, mm) \<Longrightarrow> dev_step d (d\<lparr>d_mm := mm\<rparr>)"
| dev_present: "nvkvm_req_present eans submit preq d = (u, cs, d', cl) \<Longrightarrow> dev_step d d'"
| dev_xiso: "nvkvm_req_xiso_import exported imported xreq d = (r, cs, d', cl) \<Longrightarrow> dev_step d d'"
| dev_ioctl: "dev_step d (d\<lparr>d_uvm := u\<rparr>)"

inductive dev_reach :: "device \<Rightarrow> bool" where
  dev_start: "win_inv (ms_win (d_mm d)) [] \<Longrightarrow> ms_tbl (d_mm d) = iso_mmap_init \<Longrightarrow> d_handles d = nvkvm_handle_table_init \<Longrightarrow>
    d_iso d = nvkvm_isolate_table_init \<Longrightarrow> d_sessions d = [] \<Longrightarrow> dev_reach d"
| dev_next: "dev_reach d \<Longrightarrow> dev_step d d' \<Longrightarrow> dev_reach d'"

lemma mmap_request_handles:
  "nvkvm_req_mmap_on_isolate env os_mmap ans req s = (m, s', ops) \<Longrightarrow> ms_handles s' = ms_handles s"
  "nvkvm_req_munmap_on_isolate env token s = (u, s', ops) \<Longrightarrow> ms_handles s' = ms_handles s"
  "nvkvm_req_realize_uvm_mapping env rans rreq bufs s = (resp, s') \<Longrightarrow> ms_handles s' = ms_handles s"
  by (auto simp: nvkvm_req_mmap_on_isolate_def mmap_record_def nvkvm_req_munmap_on_isolate_def
    nvkvm_req_realize_uvm_mapping_def drop_entry_def Let_def split: prod.splits option.splits sum.splits if_splits)

lemma dev_inv_mmap:
  assumes inv: "dev_inv d K" and m: "mmap_inv mm K'" "rings (d_base d) (d_iso d) + K \<subseteq># K'"
    "sparse_gpa_base (ms_win mm) = d_base d" "ms_handles mm = d_handles d"
  shows "\<exists>K. dev_inv (d\<lparr>d_mm := mm\<rparr>) K"
proof -
  obtain C where "K' = rings (d_base d) (d_iso d) + (K + C)"
    using m(2) by (auto simp: mset_subset_eq_exists_conv add.assoc)
  then show ?thesis using inv m by (intro exI [of _ "K + C"]) (simp add: dev_inv_def dev_own_def d_base_def)
qed

lemma dev_step_inv:
  assumes "dev_step d d'" and inv: "dev_inv d K"
  shows "\<exists>K. dev_inv d' K"
proof -
  have I: "mmap_inv (d_mm d) (rings (d_base d) (d_iso d) + K)" using inv by (simp add: dev_inv_def dev_own_def)
  have M: "\<exists>K. dev_inv (d\<lparr>d_mm := mm\<rparr>) K"
    if "\<exists>K'. mmap_inv mm K' \<and> rings (d_base d) (d_iso d) + K \<subseteq># K' \<and> sparse_gpa_base (ms_win mm) = sparse_gpa_base (ms_win (d_mm d))"
      "ms_handles mm = d_handles d" for mm
    using that dev_inv_mmap [OF inv, of mm] by (auto simp: d_base_def)
  from assms(1) show ?thesis
  proof cases
    case dev_open
    then show ?thesis using open_nvidia_keeps [OF inv] by blast
  next
    case dev_create
    then show ?thesis using create_isolate_keeps [OF inv] by blast
  next
    case dev_kill
    then show ?thesis using kill_isolate_keeps [OF inv] by blast
  next
    case (dev_mmap env os_mmap ans mreq m ops)
    then obtain mm where mm: "nvkvm_req_mmap_on_isolate env os_mmap (nvkvm_isolate_mmap ans (mm_isolate mreq) (d_iso d)) mreq (d_mm d)
      = (m, mm, ops)" "d' = d\<lparr>d_mm := mm\<rparr>" by (auto simp: mmap_on_isolate_def split: prod.splits)
    then show ?thesis using M [OF mmap_keeps [OF I mm(1)] mmap_request_handles(1) [OF mm(1)]] by simp
  next
    case (dev_munmap env token u mm ops)
    then show ?thesis using M [OF _ mmap_request_handles(2) [OF dev_munmap(2)]] munmap_keeps [OF I dev_munmap(2)]
        munmap_base [OF dev_munmap(2)] by auto
  next
    case (dev_realize env rans rreq bufs resp mm)
    then show ?thesis using M [OF realize_keeps [OF I dev_realize(2)] mmap_request_handles(3) [OF dev_realize(2)]] by simp
  next
    case dev_ioctl
    then show ?thesis using inv by (auto simp: dev_inv_def)
  next
    case dev_open_memory
    then show ?thesis using handle_requests_keep(1) [OF inv] by blast
  next
    case dev_close
    then show ?thesis using handle_requests_keep(2) [OF inv] by blast
  next
    case dev_copy
    then show ?thesis using handle_requests_keep(3) [OF inv] by blast
  next
    case dev_close_on
    then show ?thesis using handle_requests_keep(4) [OF inv] by blast
  next
    case dev_present
    then show ?thesis using share_requests_keep(1) [OF inv] by blast
  next
    case dev_xiso
    then show ?thesis using share_requests_keep(2) [OF inv] by blast
  qed
qed

lemma dev_reach_inv: "dev_reach d \<Longrightarrow> \<exists>K. dev_inv d K"
proof (induction rule: dev_reach.induct)
  case (dev_start d)
  have "rings base nvkvm_isolate_table_init = {#}" for base
    by (simp add: rings_def nvkvm_isolate_table_init_def ring_extent_def zero_isolate_def)
  moreover have "iso_ok base nvkvm_isolate_table_init" for base
    using iso_inv_init by (simp add: iso_ok_def ring_ok_def nvkvm_isolate_table_init_def zero_isolate_def)
  ultimately have "dev_inv d {#}"
    using dev_start mmap_start_inv handle_inv_init by (simp add: dev_inv_def dev_own_def sess_inv_def)
  then show ?case by blast
next
  case (dev_next d d')
  then show ?case using dev_step_inv by blast
qed


section \<open>Properties\<close>

lemma rings_member:
  assumes "1 \<le> n" "n < NVKVM_ISOLATE_MAX"
  shows "ring_extent base (isolates t n) \<subseteq># rings base t"
  unfolding rings_def by (subst sum.remove [of _ n]) (use assms in auto)

lemma rings_pair:
  assumes "1 \<le> n" "n < NVKVM_ISOLATE_MAX" "1 \<le> m" "m < NVKVM_ISOLATE_MAX" "n \<noteq> m"
  shows "ring_extent base (isolates t n) + ring_extent base (isolates t m) \<subseteq># rings base t"
proof -
  have "rings base t = ring_extent base (isolates t n) + (ring_extent base (isolates t m)
      + (\<Sum>k \<in> {1..<NVKVM_ISOLATE_MAX} - {n} - {m}. ring_extent base (isolates t k)))"
    unfolding rings_def using assms by (simp add: sum.remove [of _ n] sum.remove [of _ m])
  then show ?thesis by (simp add: add.assoc [symmetric])
qed

text \<open>The ring of a session is that of a live isolate of the session.\<close>

lemma setup_ring_isolate:
  assumes inv: "dev_inv d K" and r: "nvkvm_req_setup_ring s d = Inr (gpa, region, rest)"
  obtains n where "1 \<le> n" "n < NVKVM_ISOLATE_MAX" "is_in_use (isolates (d_iso d) n)" "is_session (isolates (d_iso d) n) = s"
    "ring_extent (d_base d) (isolates (d_iso d) n) = {#(gpa - d_base d, unat region)#}" "d_base d \<le> gpa"
proof -
  let ?i = "session_first_isolate s (d_sessions d)"
  have i: "?i \<noteq> 0" "iso_valid ?i (d_iso d)" "is_ring_gpa (iso_at ?i (d_iso d)) = gpa" "gpa \<noteq> 0"
    "region = of_nat (is_ring_size (iso_at ?i (d_iso d)))"
    using r by (auto simp: nvkvm_req_setup_ring_def nvkvm_isolate_ring_info_def Let_def split: if_splits sum.splits)
  have b: "1 \<le> unat ?i" "unat ?i < NVKVM_ISOLATE_MAX" "iso_at ?i (d_iso d) = isolates (d_iso d) (unat ?i)"
    using i(2) good_isolate iso_at_good by (auto simp: iso_valid_def)
  have use: "is_in_use (isolates (d_iso d) (unat ?i))" using i(2) b(3) by (simp add: iso_valid_def)
  then have ok: "d_base d \<le> gpa" "is_ring_size (isolates (d_iso d) (unat ?i)) = ring_region"
    using inv i(3,4) b(3) unfolding dev_inv_def dev_own_def iso_ok_def ring_ok_def by auto
  then have "unat region = ring_region" using i(5) b(3) by (simp add: ring_region_val)
  then have ext: "ring_extent (d_base d) (isolates (d_iso d) (unat ?i)) = {#(gpa - d_base d, unat region)#}"
    using use i(3,4) b(3) ok by (simp add: ring_extent_def)
  obtain ss where f: "nvkvm_session_find s (d_sessions d) = Some ss" "?i \<in> set (ss_isolates ss)"
    using i(1) by (auto simp: session_first_isolate_def split: option.splits list.splits)
  then have "ss \<in> set (d_sessions d)" "ss_id ss = s"
    using find_session [of "d_sessions d" s ss] inv by (simp_all add: dev_inv_def sess_inv_def)
  then have "iso_live (d_iso d) ?i = Some s" using inv i(1) f(2) by (auto simp: dev_inv_def sess_inv_def)
  then have "is_session (isolates (d_iso d) (unat ?i)) = s" using b(3) by (auto simp: iso_live_def split: if_splits)
  from that [OF b(1,2) use this ext ok(1)] show thesis .
qed

text \<open>C20: The command ring of a session is private to it.  In every state the requests lead to, the
  guest-physical range that SETUP_RING hands to a session lies inside the sparse window, overlaps no
  mapping that any isolate holds, and does not overlap the ring handed to any other session.\<close>

theorem setup_ring_private:
  assumes reach: "dev_reach d" and r: "nvkvm_req_setup_ring s d = Inr (gpa, region, rest)"
  shows "sparse_gpa_base (ms_win (d_mm d)) \<le> gpa
    \<and> gpa + unat region \<le> sparse_gpa_base (ms_win (d_mm d)) + sparse_size (ms_win (d_mm d))
    \<and> (\<forall>k e. tok_live (ms_tbl (d_mm d)) k = Some e \<longrightarrow> ext_disj (gpa, unat region) (im_gpa e, im_len e))
    \<and> (\<forall>s' gpa' region' rest'. nvkvm_req_setup_ring s' d = Inr (gpa', region', rest') \<and> s' \<noteq> s \<longrightarrow>
         ext_disj (gpa, unat region) (gpa', unat region'))"
proof -
  obtain K where inv: "dev_inv d K" using dev_reach_inv [OF reach] by blast
  let ?R = "rings (d_base d) (d_iso d)" and ?H = "held (d_base d) (tok_live (ms_tbl (d_mm d)))"
  obtain n where n: "1 \<le> n" "n < NVKVM_ISOLATE_MAX" "is_session (isolates (d_iso d) n) = s"
    "ring_extent (d_base d) (isolates (d_iso d) n) = {#(gpa - d_base d, unat region)#}" "d_base d \<le> gpa"
    using setup_ring_isolate [OF inv r] by blast
  have own: "win_owns (ms_win (d_mm d)) (?R + (?H + K))" using inv by (simp add: dev_inv_def dev_own_iff)
  have mem: "{#(gpa - d_base d, unat region)#} \<subseteq># ?R" using rings_member [OF n(1,2), of "d_base d" "d_iso d"] n(4) by simp
  have "(gpa - d_base d, unat region) \<in># ?R + (?H + K)" using mem by simp
  from win_owns_bounded [OF own this] n(5) have
    bd: "gpa + unat region \<le> d_base d + sparse_size (ms_win (d_mm d))" by auto
  have shift: "ext_disj (gpa, unat region) (g, l)"
    if "{#(gpa - d_base d, unat region), (g - d_base d, l)#} \<subseteq># ?R + (?H + K)" "d_base d \<le> g" for g l
    using win_owns_disj [OF own that(1)] that(2) n(5) by (auto simp: ext_disj_def)
  have tok: "ext_disj (gpa, unat region) (im_gpa e, im_len e)" if e: "tok_live (ms_tbl (d_mm d)) k = Some e" for k e
  proof (rule shift)
    show "d_base d \<le> im_gpa e" using inv e by (auto simp: dev_inv_def dev_own_iff entry_ok_def)
    have "{#entry_ext (d_base d) e#} \<subseteq># ?H + K"
      using held_split [OF tok_live_range [OF e], of "d_base d" "tok_live (ms_tbl (d_mm d))"] e by simp
    from subset_mset.add_mono [OF mem this]
    show "{#(gpa - d_base d, unat region), (im_gpa e - d_base d, im_len e)#} \<subseteq># ?R + (?H + K)"
      by (simp add: entry_ext_def add_mset_commute)
  qed
  have ring: "ext_disj (gpa, unat region) (gpa', unat region')"
    if r': "nvkvm_req_setup_ring s' d = Inr (gpa', region', rest')" and ne: "s' \<noteq> s" for s' gpa' region' rest'
  proof -
    obtain m where m: "1 \<le> m" "m < NVKVM_ISOLATE_MAX" "is_session (isolates (d_iso d) m) = s'"
      "ring_extent (d_base d) (isolates (d_iso d) m) = {#(gpa' - d_base d, unat region')#}" "d_base d \<le> gpa'"
      using setup_ring_isolate [OF inv r'] by blast
    have "n \<noteq> m" using n(3) m(3) ne by auto
    from rings_pair [OF n(1,2) m(1,2) this, of "d_base d" "d_iso d"] show ?thesis
      unfolding n(4) m(4) by (intro shift m(5)) (simp add: subset_mset.add_increasing2 add_mset_commute)
  qed
  show ?thesis using bd tok ring n(5) by (auto simp: d_base_def)
qed


text \<open>At most one session lists a given isolate.\<close>

lemma became_empty_iff: "became_empty i s \<longleftrightarrow> set (ss_isolates s) = {i}"
  by (cases "ss_isolates s") (auto simp: became_empty_def prune_session_def filter_empty_conv)

lemma emptied_sessions:
  assumes inv: "sess_inv lv ss" and "i \<noteq> 0"
  shows "filter (became_empty i) ss = [] \<or> (\<exists>s. filter (became_empty i) ss = [s])"
proof -
  have "length (filter (became_empty i) ss) \<le> 1"
  proof (rule ccontr)
    assume "\<not> ?thesis"
    then obtain s t us where e: "filter (became_empty i) ss = s # t # us"
      by (cases "filter (became_empty i) ss" rule: remdups_adj.cases) auto
    then have "{s, t} \<subseteq> set (filter (became_empty i) ss)" by simp
    then have "s \<in> set ss" "t \<in> set ss" "became_empty i s" "became_empty i t" by auto
    then have "ss_id s = ss_id t" using inv assms(2) unfolding sess_inv_def became_empty_iff
      by (metis insertI1 option.inject)
    moreover have "distinct (map ss_id (filter (became_empty i) ss))"
      using inv by (simp add: sess_inv_def distinct_map_filter)
    ultimately show False using e by simp
  qed
  then show ?thesis by (cases "filter (became_empty i) ss") auto
qed

lemma set_fold_remove1: "distinct ys \<Longrightarrow> set (fold remove1 xs ys) = set ys - set xs"
  by (induction xs arbitrary: ys) (auto simp: set_remove1_eq)

text \<open>C21: Killing an isolate reclaims everything it and its session held.  The isolate is gone and every
  other isolate stays; no mapping token of it is left and every other token stays; the session lists no
  longer name it; a session whose last isolate it was is destroyed, all its handles are closed, and no
  handle of another session is touched; and the window extents that nothing accounts for are the same
  as before, so its ring and its mappings went back to the allocator.\<close>

theorem kill_isolate_reclaims:
  assumes inv: "dev_inv d K" and lv: "iso_live (d_iso d) i = Some session"
    and r: "nvkvm_req_kill_isolate env i d = (e, d', cl)"
  shows "e = None \<and> dev_inv d' K \<and> iso_live (d_iso d') = (iso_live (d_iso d))(i := None)
    \<and> (\<forall>k. tok_live (ms_tbl (d_mm d')) k = (case tok_live (ms_tbl (d_mm d)) k of
         None \<Rightarrow> None | Some t \<Rightarrow> if im_isolate t = i then None else Some t))
    \<and> set (d_sessions d') = {prune_session i s |s. s \<in> set (d_sessions d) \<and> set (ss_isolates s) \<noteq> {i}}
    \<and> (\<forall>h. handle_live (d_handles d') h = (case handle_live (d_handles d) h of
         None \<Rightarrow> None
       | Some (ty, fd, s, dev) \<Rightarrow>
           if \<exists>ss \<in> set (d_sessions d). ss_id ss = s \<and> set (ss_isolates ss) = {i} then None
           else Some (ty, fd, s, dev)))"
proof -
  let ?f = "filter (became_empty i) (d_sessions d)" and ?dead = "take 16 (map (prune_session i) (filter (became_empty i) (d_sessions d)))"
  note k = kill_isolate_keeps [OF inv r]
  have si: "sess_inv (iso_live (d_iso d)) (d_sessions d)" using inv by (simp add: dev_inv_def)
  have i0: "i \<noteq> 0" using lv by (auto simp: iso_live_def bad_isolate_def split: if_splits)
  have e: "e = None" using r lv
    by (auto simp: nvkvm_req_kill_isolate_def nvkvm_isolate_kill_def d_table_def iso_live_def Let_def split: if_splits prod.splits)
  have dead: "?dead = map (prune_session i) ?f" using emptied_sessions [OF si i0] by auto
  have ids: "ss_id (prune_session i s) = ss_id s" for s by (simp add: prune_session_def)
  have "ss_id ` set ?dead = {ss_id s |s. s \<in> set (d_sessions d) \<and> set (ss_isolates s) = {i}}"
    unfolding dead by (auto simp: became_empty_iff ids image_iff)
  moreover have "set (fold remove1 ?dead (map (prune_session i) (d_sessions d)))
      = {prune_session i s |s. s \<in> set (d_sessions d) \<and> set (ss_isolates s) \<noteq> {i}}"
  proof -
    have inj: "inj_on (prune_session i) (set (d_sessions d))"
      using si unfolding sess_inv_def distinct_map by (metis (no_types, lifting) ids inj_onD inj_onI)
    then have d: "distinct (map (prune_session i) (d_sessions d))"
      using si by (auto simp: sess_inv_def distinct_map)
    have "set (fold remove1 ?dead (map (prune_session i) (d_sessions d)))
        = prune_session i ` set (d_sessions d) - prune_session i ` set ?f"
      unfolding set_fold_remove1 [OF d] dead by simp
    also have "\<dots> = prune_session i ` (set (d_sessions d) - set ?f)"
      using inj_on_image_set_diff [OF inj, of "set (d_sessions d)" "set ?f"] by auto
    finally show ?thesis by (auto simp: became_empty_iff)
  qed
  ultimately show ?thesis using k e
    by (auto simp: reaped_live_def closed_live_def split: option.split)
qed

text \<open>C22: A buffer is shared between isolates only on behalf of the sessions that own them.  Whenever
  XISO_IMPORT asks a stub about a handle, graphics is enabled, the handle is an open render-node handle,
  and the isolate asked is a live isolate of the session the handle belongs to.\<close>

theorem xiso_import_pairing:
  assumes reach: "dev_reach d" and r: "nvkvm_req_xiso_import exported imported req d = (r, asked, d', cl)"
    and ih: "(i, h) \<in> set asked"
  shows "d_graphics d \<and> (\<exists>hn. nvkvm_handle_get h (d_handles d) = Some hn \<and> render_node (h_dev hn)
    \<and> iso_live (d_iso d) i = Some (h_session hn))"
proof -
  obtain K where inv: "dev_inv d K" using dev_reach_inv [OF reach] by blast
  have has: "iso_live (d_iso d) j = Some s" if m: "session_has_isolate s j (d_sessions d)" "j \<noteq> 0" for s j
  proof -
    obtain ss where "nvkvm_session_find s (d_sessions d) = Some ss" "j \<in> set (ss_isolates ss)"
      using m(1) by (auto simp: session_has_isolate_def split: option.splits)
    then show ?thesis using find_session [of "d_sessions d" s ss] inv m(2) by (auto simp: dev_inv_def sess_inv_def)
  qed
  have ren: "nvkvm_handle_get j (d_handles d) = Some hn \<and> render_node (h_dev hn)"
    if "render_handle j (d_handles d) = Some hn" for j hn
    using that by (auto simp: render_handle_def split: option.splits if_splits)
  from r ih show ?thesis unfolding nvkvm_req_xiso_import_def
    by (auto simp: has split: if_splits option.splits prod.splits sum.splits dest!: ren)
qed

text \<open>Records of UVM address ranges survive the session that made them.  When the last isolate of a
  session is killed its handles are closed, but the ranges recorded for them stay, and a handle opened
  later, by any session, that gets the same number owns them: the purge that closing a handle performs
  so that a recycled number cannot inherit ranges is missing on this path.\<close>

lemma kill_keeps_uvm_ranges:
  assumes inv: "dev_inv d K" and lv: "iso_live (d_iso d) i = Some session"
    and s: "ss \<in> set (d_sessions d)" "ss_id ss = session" "set (ss_isolates ss) = {i}"
    and h: "handle_live (d_handles d) h = Some (ty, fd, session, dev)" and c: "uvm_va_covers h base len (d_uvm d)"
    and r: "nvkvm_req_kill_isolate env i d = (e, d', cl)" and n: "next_id (d_handles d') = h"
  shows "handle_live (d_handles d') h = None
    \<and> (\<exists>ht. nvkvm_handle_open_nvidia session' NVKVM_DEV_UVM (Inr fd') (d_handles d') = (Inr h, ht, []))
    \<and> uvm_va_covers h base len (d_uvm d')"
proof -
  note k = kill_isolate_keeps [OF inv r]
  have si: "sess_inv (iso_live (d_iso d)) (d_sessions d)" using inv by (simp add: dev_inv_def)
  have i0: "i \<noteq> 0" using lv by (auto simp: iso_live_def bad_isolate_def split: if_splits)
  have "ss \<in> set (filter (became_empty i) (d_sessions d))" using s by (simp add: became_empty_iff)
  then have "filter (became_empty i) (d_sessions d) = [ss]"
    using emptied_sessions [OF si i0] by (auto simp del: set_filter)
  then have dead: "handle_live (d_handles d') h = None"
    using k h s by (simp add: closed_live_def prune_session_def)
  have hi: "handle_inv (d_handles d')" using k by (simp add: dev_inv_def)
  then have b: "1 \<le> unat h" "unat h < 65536" using n by (auto simp: handle_inv_def)
  then have "\<not> bad_id h" by (simp add: bad_id_iff)
  then have "\<not> h_in_use (handles (d_handles d') (unat h))" using dead hi by (auto simp: handle_live_def inv_get)
  then have "\<exists>t. alloc_slot (d_handles d') = (Some h, t)" using alloc_slot_hit [of "d_handles d'"] b n by simp
  moreover have "nvidia_dev_path NVKVM_DEV_UVM \<noteq> None" by (simp add: nvidia_dev_path_def NVKVM_DEV_UVM_def NVKVM_DEV_CTL_def)
  ultimately show ?thesis using dead k c by (auto simp: nvkvm_handle_open_nvidia_def)
qed


text \<open>A concrete device: isolate 1 is created for session 7, with its ring at the start of the window.\<close>

definition exd_start :: device where
  "exd_start = \<lparr>d_graphics = True, d_mm = (exm_ms 0)\<lparr>ms_handles := nvkvm_handle_table_init\<rparr>,
     d_iso = nvkvm_isolate_table_init, d_sessions = [], d_uvm = uvm_va_init\<rparr>"

definition exd_ce :: create_env where
  "exd_ce = \<lparr>ce_socketpair = Inr (20, 21), ce_harden = False, ce_pipe = Inl EIO, ce_embedded = False, ce_memfd = Inl EIO,
     ce_write_ok = False, ce_spawn = Inr 4242, ce_maps_ok = False, ce_thread = None, ce_ring_disable = False\<rparr>"

definition exd_re :: ring_env where
  "exd_re = \<lparr>re_memfd = Inr 22, re_trunc = Inr (), re_map_window = True, re_map_private = Inl ENOMEM, re_answer = None,
     re_echo = ring_probe 1, re_back = ring_probe 1 XOR NVKVM_RING_PROBE_MASK\<rparr>"

definition exd_isolate :: nvkvm_isolate where
  "exd_isolate = \<lparr>is_id = 1, is_session = 7, is_pid = 4242, is_sock = 20, is_alive = True, is_in_use = True,
     is_reader = True, is_next_txn = 1, is_ring_memfd = 22, is_ring_qva = Some 0x7f0000000000, is_ring_size = ring_region,
     is_ring_bytes = NVKVM_RING_DEFAULT_BYTES, is_ring_gpa = NVKVM_SPARSE_GPA_BASE, is_ring_ready = True\<rparr>"

definition exd_up :: device where
  "exd_up = exd_start\<lparr>d_mm := (d_mm exd_start)\<lparr>ms_win := fresh_window\<lparr>sparse_cur := ring_region\<rparr>\<rparr>,
     d_iso := \<lparr>isolates = (isolates nvkvm_isolate_table_init)(1 := exd_isolate), next_isolate = 2\<rparr>,
     d_sessions := [\<lparr>ss_id = 7, ss_isolates = [1], ss_clients = []\<rparr>]\<rparr>"

lemma exd_slot:
  "alloc_isolate_slot nvkvm_isolate_table_init = (Some 1,
     \<lparr>isolates = (isolates nvkvm_isolate_table_init)(1 := reset_isolate 1 zero_isolate), next_isolate = 2\<rparr>)"
proof -
  have "alloc_isolate_slot nvkvm_isolate_table_init = alloc_isolate_loop (Suc 4095) nvkvm_isolate_table_init"
    by (simp add: alloc_isolate_slot_def NVKVM_ISOLATE_MAX_def)
  then show ?thesis
    by (simp only: alloc_isolate_loop.simps) (simp add: nvkvm_isolate_table_init_def zero_isolate_def bump_isolate_def NVKVM_ISOLATE_MAX_def)
qed

lemma exd_ring:
  "ring_place exm_env exd_re (ms_win (exm_ms 0), ms_pool (exm_ms 0))
     = (Inr (NVKVM_SPARSE_GPA_BASE, 0x7f0000000000), fresh_window\<lparr>sparse_cur := ring_region\<rparr>, kvm_pool_init)"
proof -
  have p: "page_round ring_region = ring_region" by (simp add: ring_region_val page_round_def wrap64_def)
  have z: "ring_region \<le> NVKVM_SPARSE_GPA_SIZE" "0 < NVKVM_SPARSE_GPA_SIZE" "NVKVM_SPARSE_GPA_BASE \<noteq> 0"
    by (simp_all add: ring_region_val NVKVM_SPARSE_GPA_SIZE_def NVKVM_SPARSE_GPA_BASE_def)
  note a = exm_alloc [of 0 ring_region, unfolded p]
  show ?thesis using a z by (simp add: ring_place_def Let_def) (simp add: exd_re_def)
qed

lemma exd_create: "nvkvm_req_create_isolate exm_env exd_ce exd_re 7 exd_start = (Inr 1, exd_up, [21])"
proof -
  have w: "ms_win (d_mm exd_start) = ms_win (exm_ms 0)" "ms_pool (d_mm exd_start) = ms_pool (exm_ms 0)"
    "d_iso exd_start = nvkvm_isolate_table_init" "d_sessions exd_start = []" by (simp_all add: exd_start_def)
  let ?s = "exd_isolate\<lparr>is_ring_memfd := -1, is_ring_qva := None, is_ring_size := 0, is_ring_bytes := 0, is_ring_gpa := 0,
    is_ring_ready := False\<rparr>"
  let ?t = "\<lambda>s. \<lparr>isolates = (isolates nvkvm_isolate_table_init)(1 := s), next_isolate = 2\<rparr>"
  have up: "iso_upd 1 f (?t s) = ?t (f s)" for f s by (simp add: iso_upd_def iso_at_def NVKVM_ISOLATE_MAX_def)
  have v: "iso_valid 1 (?t ?s)" "iso_at 1 (?t ?s) = ?s" "\<not> bad_isolate 1"
    by (simp_all add: iso_valid_def iso_at_def bad_isolate_def NVKVM_ISOLATE_MAX_def exd_isolate_def)
  have rs: "nvkvm_isolate_ring_setup exm_env exd_re 1 (?t ?s, ms_win (exm_ms 0), ms_pool (exm_ms 0))
      = (None, (d_iso exd_up, fresh_window\<lparr>sparse_cur := ring_region\<rparr>, kvm_pool_init), [])"
    unfolding nvkvm_isolate_ring_setup_def using v exd_ring
    by (simp add: exd_re_def exd_up_def exd_isolate_def up [simplified])
  have s: "(reset_isolate 1 zero_isolate)\<lparr>is_session := 7, is_pid := 4242, is_sock := 20, is_alive := True, is_reader := True\<rparr> = ?s"
    by (simp add: reset_isolate_def zero_isolate_def exd_isolate_def)
  have "nvkvm_isolate_create exm_env exd_ce exd_re 7 (nvkvm_isolate_table_init, ms_win (exm_ms 0), ms_pool (exm_ms 0))
      = (None, 1, (d_iso exd_up, fresh_window\<lparr>sparse_cur := ring_region\<rparr>, kvm_pool_init), [21])"
    using rs s by (simp add: nvkvm_isolate_create_def exd_slot exd_ce_def create_child_def up [simplified] Let_def)
  then show ?thesis
    by (simp add: nvkvm_req_create_isolate_def d_table_def w nvkvm_session_find_def nvkvm_session_create_def
      session_add_isolate_def NVKVM_SESSION_ISOLATES_def Let_def set_table_def)
      (simp add: exd_up_def exd_start_def exm_ms_def)
qed

lemma exd_reach: "dev_reach exd_start" "dev_reach exd_up"
proof -
  show "dev_reach exd_start"
    by (rule dev_start) (use exm_ready(2) in \<open>simp_all add: exd_start_def\<close>, simp add: exm_ms_def)
  from dev_next [OF this dev_create [OF exd_create]] show "dev_reach exd_up" .
qed

theorem setup_ring_private_witness:
  "dev_reach exd_up \<and> nvkvm_req_setup_ring 7 exd_up = Inr (NVKVM_SPARSE_GPA_BASE, 135168, 0, 65792, 65536)
   \<and> NVKVM_SPARSE_GPA_BASE + 135168 \<le> sparse_gpa_base (ms_win (d_mm exd_up)) + sparse_size (ms_win (d_mm exd_up))"
proof -
  have r: "nvkvm_req_setup_ring 7 exd_up = Inr (NVKVM_SPARSE_GPA_BASE, 135168, 0, 65792, 65536)"
    by (simp add: nvkvm_req_setup_ring_def session_first_isolate_def nvkvm_session_find_def exd_up_def
      nvkvm_isolate_ring_info_def bad_isolate_def NVKVM_ISOLATE_MAX_def iso_valid_def iso_at_def Let_def)
      (simp add: exd_isolate_def NVKVM_SPARSE_GPA_BASE_def ring_region_val NVKVM_RING_DEFAULT_BYTES_def
        nvkvm_ring_resp_off_def sizeof_ring_def)
  then show ?thesis using setup_ring_private [OF exd_reach(2) r] exd_reach(2) by simp
qed


text \<open>Handle 1 of session 7, when the counter of the handle table has come round to 1, with a range
  recorded for it.\<close>

definition exd_ht :: handle_table where
  "exd_ht = \<lparr>handles = (handles nvkvm_handle_table_init)(1 := \<lparr>h_id = 1, h_type = 1, h_fd = 30, h_session = 7,
     h_dev = NVKVM_DEV_UVM, h_refs = 1, h_poll = False, h_in_use = True\<rparr>), next_id = 1\<rparr>"

definition exd_dev :: device where
  "exd_dev = set_handles exd_ht (exd_up\<lparr>d_uvm := \<lparr>uvm_va_tbl = [\<lparr>ve_handle = 1, ve_base = 0x10000, ve_length = 0x2000\<rparr>],
     uvm_va_used = 1\<rparr>\<rparr>)"

lemma exd_dev_facts:
  "\<exists>K. dev_inv exd_dev K" "iso_live (d_iso exd_dev) 1 = Some 7" "handle_live (d_handles exd_dev) 1 = Some (1, 30, 7, 1)"
  "d_sessions exd_dev = [\<lparr>ss_id = 7, ss_isolates = [1], ss_clients = []\<rparr>]"
proof -
  have h: "handle_inv exd_ht" by (simp add: exd_ht_def handle_inv_def nvkvm_handle_table_init_def zero_handle_def)
  have d: "d_iso exd_dev = d_iso exd_up" "d_sessions exd_dev = d_sessions exd_up" "d_handles exd_dev = exd_ht"
    by (simp_all add: exd_dev_def set_handles_def)
  have "dev_own exd_dev K = dev_own exd_up K" for K
    unfolding exd_dev_def by simp
  then show "\<exists>K. dev_inv exd_dev K" using dev_reach_inv [OF exd_reach(2)] h by (auto simp: dev_inv_def d)
  show "iso_live (d_iso exd_dev) 1 = Some 7"
    by (simp add: d exd_up_def iso_live_def bad_isolate_def iso_at_def NVKVM_ISOLATE_MAX_def) (simp add: exd_isolate_def)
  show "handle_live (d_handles exd_dev) 1 = Some (1, 30, 7, 1)"
    by (simp add: d exd_ht_def handle_live_def nvkvm_handle_get_def bad_id_def stale_def slot_of_def NVKVM_DEV_UVM_def)
  show "d_sessions exd_dev = [\<lparr>ss_id = 7, ss_isolates = [1], ss_clients = []\<rparr>]" by (simp add: d exd_up_def)
qed

theorem kill_isolate_reclaims_witness:
  "\<exists>e d' cl. nvkvm_req_kill_isolate exm_env 1 exd_dev = (e, d', cl) \<and> iso_live (d_iso exd_dev) 1 = Some 7
     \<and> e = None \<and> iso_live (d_iso d') 1 = None \<and> d_sessions d' = [] \<and> handle_live (d_handles d') 1 = None"
proof -
  obtain K where K: "dev_inv exd_dev K" using exd_dev_facts(1) by blast
  obtain e d' cl where r: "nvkvm_req_kill_isolate exm_env 1 exd_dev = (e, d', cl)" using prod_cases3 by blast
  show ?thesis using kill_isolate_reclaims [OF K exd_dev_facts(2) r] r by (simp add: exd_dev_facts)
qed

lemma kill_next_id:
  assumes "nvkvm_req_kill_isolate env i d = (e, d', cl)"
  shows "next_id (d_handles d') = next_id (d_handles d)"
proof -
  have da: "next_id (d_handles (fst (destroy_all ss d cl))) = next_id (d_handles d)" for ss d cl
  proof (induction ss arbitrary: d cl)
    case (Cons s ss)
    obtain t c where "nvkvm_handle_close_session (ss_id s) (d_handles d) = (t, c)" by fastforce
    then show ?case using Cons.IH close_session_eq by (simp add: nvkvm_session_destroy_def)
  qed simp
  obtain r st c where k: "nvkvm_isolate_kill i (d_table d) = (r, st, c)" using prod_cases3 by blast
  obtain n mm ops where m: "nvkvm_iso_mmap_reap_isolate env i (d_mm (set_table st d)) = (n, mm, ops)" using prod_cases3 by blast
  have "destroy_all (take 16 (map (prune_session i) (filter (became_empty i) (d_sessions d))))
      (set_table st d\<lparr>d_mm := mm, d_sessions := map (prune_session i) (d_sessions d)\<rparr>) c = (d', cl)"
    using assms k m by (auto simp: nvkvm_req_kill_isolate_def Let_def split_beta)
  from arg_cong [OF this, of "\<lambda>x. next_id (d_handles (fst x))"] show ?thesis
    using reap_handles [OF m] by (simp add: da)
qed

text \<open>Session 7 opens the first render node as handle 1.\<close>

definition exd_drm :: device where
  "exd_drm = fst (snd (nvkvm_req_open_nvidia_handle \<lparr>oe_open = Inr 30, oe_send = Inr (), oe_stub = (None, 31)\<rparr> 7 32 exd_up))"

lemma exd_drm_facts:
  "dev_reach exd_drm" "d_graphics exd_drm" "session_has_isolate 7 1 (d_sessions exd_drm)"
  "\<exists>hn. render_handle 1 (d_handles exd_drm) = Some hn \<and> h_session hn = 7"
proof -
  obtain r cl where "nvkvm_req_open_nvidia_handle \<lparr>oe_open = Inr 30, oe_send = Inr (), oe_stub = (None, 31)\<rparr> 7 32 exd_up
      = (r, exd_drm, cl)" by (metis exd_drm_def prod.collapse)
  from dev_next [OF exd_reach(2) dev_open [OF this]] show "dev_reach exd_drm" .
  let ?h = "\<lparr>h_id = 1, h_type = 1, h_fd = -1, h_session = 7, h_dev = 32, h_refs = 0, h_poll = False, h_in_use = True\<rparr>"
  let ?t = "\<lparr>handles = (handles nvkvm_handle_table_init)(1 := ?h), next_id = 2\<rparr>"
  have a: "nvkvm_handle_alloc_pending 7 32 nvkvm_handle_table_init = (Inr 1, ?t)"
    by (simp add: nvkvm_handle_alloc_pending_def alloc_slot_hit next_pos_def fill_slot_def
      nvkvm_handle_table_init_def zero_handle_def set_slot_def NVKVM_HANDLE_TYPE_NVIDIA_def)
  have f: "session_first_isolate 7 (d_sessions exd_up) = 1" "d_handles exd_up = nvkvm_handle_table_init" "d_graphics exd_up"
    by (simp_all add: exd_up_def exd_start_def session_first_isolate_def nvkvm_session_find_def)
  have v: "\<not> bad_isolate 1" "iso_valid 1 (d_iso exd_up)"
    by (simp_all add: bad_isolate_def iso_valid_def iso_at_def exd_up_def NVKVM_ISOLATE_MAX_def) (simp_all add: exd_isolate_def)
  have e: "exd_drm = set_handles (snd (nvkvm_handle_ref_isolate 1 (upd_slot 1 (\<lambda>h. h\<lparr>h_fd := 31\<rparr>) ?t)))
      (exd_up\<lparr>d_iso := take_txn 1 (d_iso exd_up)\<rparr>)"
    by (simp add: exd_drm_def nvkvm_req_open_nvidia_handle_def f NVKVM_DEV_UVM_def open_in_stub_def a nvkvm_isolate_open_device_def
      isolate_fd_call_def v nvkvm_handle_attach_fd_def bad_id_def stale_def slot_of_def)
  show "d_graphics exd_drm" "session_has_isolate 7 1 (d_sessions exd_drm)"
    by (simp_all add: e set_handles_def f(3) session_has_isolate_def nvkvm_session_find_def) (simp add: exd_up_def)
  show "\<exists>hn. render_handle 1 (d_handles exd_drm) = Some hn \<and> h_session hn = 7"
    by (simp add: e render_handle_def nvkvm_handle_get_def bad_id_def stale_def slot_of_def upd_slot_def set_slot_def
      nvkvm_handle_ref_isolate_def render_node_def NVKVM_DEV_DRM_RD_def)
qed

theorem xiso_import_pairing_witness:
  "\<exists>r asked d' cl. nvkvm_req_xiso_import (Some EIO, -1) (Inr 0) \<lparr>xr_owner_isolate = 1, xr_owner_handle = 1,
       xr_importer_isolate = 1, xr_importer_handle = 1\<rparr> exd_drm = (r, asked, d', cl)
     \<and> (1, 1) \<in> set asked \<and> iso_live (d_iso exd_drm) 1 = Some 7"
proof -
  let ?q = "\<lparr>xr_owner_isolate = 1, xr_owner_handle = 1, xr_importer_isolate = 1, xr_importer_handle = 1\<rparr>"
  obtain r asked d' cl where r: "nvkvm_req_xiso_import (Some EIO, -1) (Inr 0) ?q exd_drm = (r, asked, d', cl)"
    using prod_cases4 by blast
  obtain hn where hn: "render_handle 1 (d_handles exd_drm) = Some hn" "h_session hn = 7" using exd_drm_facts(4) by blast
  have "(1, 1) \<in> set asked" using r hn exd_drm_facts(2,3)
    by (auto simp: nvkvm_req_xiso_import_def split: prod.splits sum.splits)
  moreover from xiso_import_pairing [OF exd_drm_facts(1) r this] have "iso_live (d_iso exd_drm) 1 = Some 7"
    using hn by (auto simp: render_handle_def split: option.splits if_splits)
  ultimately show ?thesis using r by blast
qed

end
