(* ===== verification/HostFile.thy ===== *)
theory HostFile
  imports Prelude "HOL-Library.Char_ord" "HOL-Library.List_Lexorder"
begin

text \<open>
  Reading a driver file of the host (READ_HOST_FILE in \<open>qemu/nvkvm_isolate_handlers.c\<close>): discovering the
  PCI addresses of the host's GPUs, building the path from a file number and a GPU index, and the read loop.
  The directory listing and the answers of \<open>open\<close> and \<open>read\<close> are arguments.  Strings are compared the way
  \<open>strcmp\<close> does, by the lexicographic order on characters.
\<close>

definition NVKVM_MAX_HOST_GPUS :: nat where "NVKVM_MAX_HOST_GPUS = 16"
definition NVKVM_BDF_LEN :: nat where "NVKVM_BDF_LEN = 12"
definition NVKVM_HFILE_MAX_SIZE :: nat where "NVKVM_HFILE_MAX_SIZE = 8192"

section \<open>PCI addresses\<close>

definition hex_char :: "char \<Rightarrow> bool" where
  "hex_char c \<longleftrightarrow> (CHR ''0'' \<le> c \<and> c \<le> CHR ''9'') \<or> (CHR ''a'' \<le> c \<and> c \<le> CHR ''f'') \<or> (CHR ''A'' \<le> c \<and> c \<le> CHR ''F'')"

definition nvkvm_bdf_valid :: "string \<Rightarrow> bool" where
  "nvkvm_bdf_valid s \<longleftrightarrow> length s = NVKVM_BDF_LEN \<and>
    (\<forall>i < NVKVM_BDF_LEN. if i = 4 \<or> i = 7 then s ! i = CHR '':'' else if i = 10 then s ! i = CHR ''.'' else hex_char (s ! i))"

fun discover_loop :: "string list \<Rightarrow> string list \<Rightarrow> string list" where
  "discover_loop [] gpus = gpus"
| "discover_loop (name # names) gpus =
    (if length gpus < NVKVM_MAX_HOST_GPUS
     then discover_loop names (if nvkvm_bdf_valid name then gpus @ [name] else gpus)
     else gpus)"

text \<open>The exchange sort that makes the index stable.\<close>

definition swap_if_less :: "nat \<Rightarrow> nat \<Rightarrow> ('a :: linorder) list \<Rightarrow> 'a list" where
  "swap_if_less i j xs = (if xs ! j < xs ! i then xs[i := xs ! j, j := xs ! i] else xs)"

definition sort_from :: "nat \<Rightarrow> ('a :: linorder) list \<Rightarrow> 'a list" where
  "sort_from i xs = fold (swap_if_less i) [i + 1..<length xs] xs"

definition exchange_sort :: "('a :: linorder) list \<Rightarrow> 'a list" where
  "exchange_sort xs = fold sort_from [0..<length xs] xs"

text \<open>\<open>dir\<close> is the listing of the directory of GPUs, \<open>None\<close> if it cannot be opened.\<close>

definition nvkvm_discover_host_gpus :: "string list option \<Rightarrow> string list" where
  "nvkvm_discover_host_gpus dir = (case dir of None \<Rightarrow> [] | Some names \<Rightarrow> exchange_sort (discover_loop names []))"

section \<open>Paths\<close>

definition hfile_leaf :: "u32 \<Rightarrow> string" where
  "hfile_leaf i = (if i = 4 then ''numa_status'' else if i = 5 then ''information'' else ''registry'')"

text \<open>The discovered GPUs are \<open>None\<close> until the first per-GPU file is asked for.\<close>

definition nvkvm_hfile_path ::
  "string list option \<Rightarrow> u32 \<Rightarrow> u32 \<Rightarrow> nat \<Rightarrow> string list option \<Rightarrow> string option \<times> string list option" where
  "nvkvm_hfile_path dir i gpu_index buflen gpus =
    (let fits = (\<lambda>s. if length s < buflen then Some s else None) in
     if i = 1 then (fits ''/proc/driver/nvidia/params'', gpus)
     else if i = 7 then (fits ''/proc/driver/nvidia/version'', gpus)
     else if i = 2 then (fits ''/sys/module/nvidia/initstate'', gpus)
     else if i = 3 then (fits ''/sys/module/nvidia_uvm/initstate'', gpus)
     else if i = 4 \<or> i = 5 \<or> i = 6 then
       (let gs = (case gpus of None \<Rightarrow> nvkvm_discover_host_gpus dir | Some gs \<Rightarrow> gs) in
        (if unat gpu_index \<ge> length gs then None
         else fits (''/proc/driver/nvidia/gpus/'' @ gs ! unat gpu_index @ ''/'' @ hfile_leaf i), Some gs))
     else (None, gpus))"

section \<open>The read loop\<close>

text \<open>An answer of \<open>read\<close>: the bytes the file still has to offer (the call takes as many as it asked for), or
  an error.  The loop has not returned when the answers run out.\<close>

datatype read_answer = RData "u8 list" | RFail errno

fun read_loop :: "nat \<Rightarrow> read_answer list \<Rightarrow> nat \<Rightarrow> mem \<Rightarrow> (nat result \<times> mem) option" where
  "read_loop max_len answers n buf =
    (if n < max_len then
       (case answers of
          [] \<Rightarrow> None
        | RFail e # rest \<Rightarrow> if e = EINTR then read_loop max_len rest n buf else Some (Inl e, buf)
        | RData bs # rest \<Rightarrow>
            (let got = take (max_len - n) bs in
             if got = [] then Some (Inr n, buf) else read_loop max_len rest (n + length got) (st_bytes buf n got)))
     else Some (Inr n, buf))"

text \<open>The request: the path opened, if any, and the outcome.\<close>

definition nvkvm_req_read_host_file ::
  "string list option \<Rightarrow> (string \<Rightarrow> errno option) \<Rightarrow> read_answer list \<Rightarrow> u32 \<Rightarrow> u32 \<Rightarrow> u32 \<Rightarrow> mem option \<Rightarrow> string list option
     \<Rightarrow> (nat result \<times> mem option \<times> string option \<times> string list option) option" where
  "nvkvm_req_read_host_file dir os_open answers i gpu_index max_len buf gpus =
    (case buf of
       None \<Rightarrow> Some (Inl EINVAL, None, None, gpus)
     | Some b \<Rightarrow>
         if max_len = 0 \<or> unat max_len > NVKVM_HFILE_MAX_SIZE then Some (Inl EINVAL, Some b, None, gpus)
         else case nvkvm_hfile_path dir i gpu_index 256 gpus of
           (None, gpus1) \<Rightarrow> Some (Inl EINVAL, Some b, None, gpus1)
         | (Some path, gpus1) \<Rightarrow>
             (case os_open path of
                Some e \<Rightarrow> Some (Inl e, Some b, Some path, gpus1)
              | None \<Rightarrow> (case read_loop (unat max_len) answers 0 b of
                  None \<Rightarrow> None
                | Some (r, b1) \<Rightarrow> Some (r, Some b1, Some path, gpus1))))"

declare read_loop.simps [simp del]

section \<open>The sort\<close>

lemma mset_swap_if_less: "i < length xs \<Longrightarrow> j < length xs \<Longrightarrow> mset (swap_if_less i j xs) = mset xs"
  using mset_swap [of j xs i] by (simp add: swap_if_less_def)

definition least_from :: "nat \<Rightarrow> nat \<Rightarrow> ('a :: linorder) list \<Rightarrow> 'a list \<Rightarrow> bool" where
  "least_from i m xs ys \<longleftrightarrow> mset ys = mset xs \<and> take i ys = take i xs \<and> (\<forall>k. i \<le> k \<longrightarrow> k < m \<longrightarrow> ys ! i \<le> ys ! k)"

lemma least_from_swap:
  assumes l: "least_from i m xs ys" and "i < m" "m < length xs"
  shows "least_from i (Suc m) xs (swap_if_less i m ys)"
proof (cases "ys ! m < ys ! i")
  case False
  then show ?thesis using l by (auto simp: swap_if_less_def least_from_def less_Suc_eq)
next
  case True
  have len: "length ys = length xs" using l mset_eq_length by (auto simp: least_from_def)
  have s: "swap_if_less i m ys = ys[i := ys ! m, m := ys ! i]" using True by (simp add: swap_if_less_def)
  have "ys ! m \<le> ys[i := ys ! m, m := ys ! i] ! k" if "i \<le> k" "k < Suc m" for k
  proof -
    have "k < m \<Longrightarrow> ys ! i \<le> ys ! k" using l that by (auto simp: least_from_def)
    then show ?thesis using True that assms(2,3) len by (auto simp: nth_list_update less_Suc_eq)
  qed
  moreover have "mset (swap_if_less i m ys) = mset ys" by (rule mset_swap_if_less) (use assms len in auto)
  ultimately show ?thesis using l assms(2,3) len unfolding s least_from_def by simp
qed

lemma sort_from_upto: "i + d < length xs \<Longrightarrow> least_from i (i + 1 + d) xs (fold (swap_if_less i) [i + 1..<i + 1 + d] xs)"
proof (induction d)
  case 0
  then show ?case by (auto simp: least_from_def less_Suc_eq)
next
  case (Suc d)
  then show ?case using least_from_swap [of i "i + 1 + d" xs "fold (swap_if_less i) [i + 1..<i + 1 + d] xs"] by simp
qed

lemma sort_from_least: "i < length xs \<Longrightarrow> least_from i (length xs) xs (sort_from i xs)"
proof -
  assume i: "i < length xs"
  then obtain d where "length xs = i + 1 + d" by (metis add.commute less_natE plus_1_eq_Suc add.left_commute)
  then show ?thesis using sort_from_upto [of i d xs] unfolding sort_from_def by simp
qed

definition sorted_upto :: "nat \<Rightarrow> ('a :: linorder) list \<Rightarrow> 'a list \<Rightarrow> bool" where
  "sorted_upto m xs ys \<longleftrightarrow> mset ys = mset xs \<and> sorted (take m ys) \<and> (\<forall>a \<in> set (take m ys). \<forall>b \<in> set (drop m ys). a \<le> b)"

lemma sorted_upto_step:
  assumes s: "sorted_upto m xs ys" and "m < length xs"
  shows "sorted_upto (Suc m) xs (sort_from m ys)"
proof -
  let ?zs = "sort_from m ys"
  have len: "length ys = length xs" using s mset_eq_length by (auto simp: sorted_upto_def)
  then have l: "least_from m (length ys) ys ?zs" using sort_from_least [of m ys] assms(2) by simp
  then have z: "mset ?zs = mset ys" "take m ?zs = take m ys" and zl: "length ?zs = length ys"
    using mset_eq_length by (auto simp: least_from_def)
  have "mset (take m ?zs) + mset (drop m ?zs) = mset (take m ys) + mset (drop m ys)"
    using z(1) by (metis append_take_drop_id mset_append)
  then have dr: "set (drop m ?zs) = set (drop m ys)" using z(2) by (metis add_left_imp_eq set_mset_mset)
  have t: "take (Suc m) ?zs = take m ys @ [?zs ! m]" using z(2) zl len assms(2) by (simp add: take_Suc_conv_app_nth)
  have d: "drop m ?zs = ?zs ! m # drop (Suc m) ?zs" using zl len assms(2) by (simp add: Cons_nth_drop_Suc)
  have least: "?zs ! m \<le> b" if b: "b \<in> set (drop m ?zs)" for b
  proof -
    obtain k where "k < length ?zs - m" "b = ?zs ! (m + k)" using b by (auto simp: in_set_conv_nth)
    then show ?thesis using l zl by (auto simp: least_from_def)
  qed
  have "sorted (take (Suc m) ?zs)" using s d dr t by (auto simp: sorted_upto_def sorted_append)
  moreover have "a \<le> b" if "a \<in> set (take (Suc m) ?zs)" "b \<in> set (drop (Suc m) ?zs)" for a b
    using that s d dr t least by (auto simp: sorted_upto_def)
  ultimately show ?thesis using z(1) s by (auto simp: sorted_upto_def)
qed

lemma exchange_sort_sorts: "exchange_sort xs = sort xs"
proof -
  have "sorted_upto m xs (fold sort_from [0..<m] xs)" if "m \<le> length xs" for m
    using that
  proof (induction m)
    case 0
    then show ?case by (simp add: sorted_upto_def)
  next
    case (Suc m)
    then show ?case using sorted_upto_step [of m xs] by simp
  qed
  from this [of "length xs"] show ?thesis
    using mset_eq_length [of "exchange_sort xs" xs]
    by (intro properties_for_sort [symmetric]) (auto simp: exchange_sort_def sorted_upto_def)
qed

lemma discover_loop_eq:
  "length gpus \<le> NVKVM_MAX_HOST_GPUS \<Longrightarrow>
    discover_loop names gpus = take NVKVM_MAX_HOST_GPUS (gpus @ filter nvkvm_bdf_valid names)"
  by (induction names arbitrary: gpus) (auto simp: take_Cons' Suc_diff_Suc)

text \<open>Discovering the host's GPUs.  The hand-written exchange sort agrees with the library's sort, so the
  list of GPUs is the sorted list of the first sixteen names in the directory that are PCI addresses.\<close>

lemma discover_host_gpus_sorted:
  "nvkvm_discover_host_gpus (Some names) = sort (take 16 (filter nvkvm_bdf_valid names))"
  using discover_loop_eq [of "[]" names] by (simp add: nvkvm_discover_host_gpus_def exchange_sort_sorts NVKVM_MAX_HOST_GPUS_def)

section \<open>Confinement\<close>

lemma read_loop_eqs:
  "read_loop m [] n b = (if n < m then None else Some (Inr n, b))"
  "read_loop m (RFail e # as) n b =
    (if n < m then if e = EINTR then read_loop m as n b else Some (Inl e, b) else Some (Inr n, b))"
  "read_loop m (RData bs # as) n b = (if n < m \<and> take (m - n) bs \<noteq> []
    then read_loop m as (n + length (take (m - n) bs)) (st_bytes b n (take (m - n) bs)) else Some (Inr n, b))"
  by (subst read_loop.simps, simp add: Let_def)+

lemma read_loop_bounds:
  assumes "read_loop max_len answers n buf = Some (r, buf')" and "n \<le> max_len"
  shows "(\<forall>m. r = Inr m \<longrightarrow> n \<le> m \<and> m \<le> max_len) \<and> (\<forall>i. i < n \<or> max_len \<le> i \<longrightarrow> buf' i = buf i)"
  using assms
proof (induction answers arbitrary: n buf)
  case Nil
  then show ?case by (auto simp: read_loop_eqs split: if_splits)
next
  case (Cons a as)
  show ?case
  proof (cases a)
    case (RFail e)
    show ?thesis
    proof (cases "n < max_len \<and> e = EINTR")
      case True
      then have "read_loop max_len as n buf = Some (r, buf')" using Cons.prems(1) RFail by (simp add: read_loop_eqs)
      then show ?thesis using Cons.IH Cons.prems(2) by blast
    next
      case False
      then show ?thesis using Cons.prems RFail by (auto simp: read_loop_eqs split: if_splits)
    qed
  next
    case (RData bs)
    let ?g = "take (max_len - n) bs"
    show ?thesis
    proof (cases "n < max_len \<and> ?g \<noteq> []")
      case True
      then have r: "read_loop max_len as (n + length ?g) (st_bytes buf n ?g) = Some (r, buf')"
        using Cons.prems(1) RData by (simp add: read_loop_eqs split: if_splits)
      have le: "n + length ?g \<le> max_len" using True by auto
      have "st_bytes buf n ?g i = buf i" if "i < n \<or> max_len \<le> i" for i
        using that le by (intro st_bytes_frame) auto
      then show ?thesis using Cons.IH [OF r le] by auto
    next
      case False
      then show ?thesis using Cons.prems RData
        by (auto simp: read_loop_eqs split: if_splits)
    qed
  qed
qed


lemma read_loop_returns:
  assumes "n \<le> max_len" and "max_len - n < length (filter (\<lambda>a. a \<noteq> RFail EINTR) answers)"
  shows "read_loop max_len answers n buf \<noteq> None"
  using assms
proof (induction answers arbitrary: n buf)
  case (Cons a as)
  show ?case
  proof (cases a)
    case (RFail e)
    then show ?thesis using Cons.IH [of n buf] Cons.prems by (auto simp: read_loop_eqs)
  next
    case (RData bs)
    let ?g = "take (max_len - n) bs"
    show ?thesis
    proof (cases "n < max_len \<and> ?g \<noteq> []")
      case True
      then have "0 < length bs" "n < max_len" by auto
      moreover have "length ?g = min (length bs) (max_len - n)" by simp
      moreover have "max_len - n < length (filter (\<lambda>a. a \<noteq> RFail EINTR) as) + 1" using Cons.prems(2) RData by simp
      ultimately have "max_len - (n + length ?g) < length (filter (\<lambda>a. a \<noteq> RFail EINTR) as)" "n + length ?g \<le> max_len"
        by arith+
      then have "read_loop max_len as (n + length ?g) (st_bytes buf n ?g) \<noteq> None" by (intro Cons.IH)
      then show ?thesis using True RData by (simp add: read_loop_eqs)
    next
      case False
      then show ?thesis using RData by (auto simp: read_loop_eqs)
    qed
  qed
qed simp

definition host_path :: "string \<Rightarrow> bool" where
  "host_path p \<longleftrightarrow> p \<in> {''/proc/driver/nvidia/params'', ''/proc/driver/nvidia/version'',
       ''/sys/module/nvidia/initstate'', ''/sys/module/nvidia_uvm/initstate''}
     \<or> (\<exists>g leaf. nvkvm_bdf_valid g \<and> leaf \<in> {''numa_status'', ''information'', ''registry''}
          \<and> p = ''/proc/driver/nvidia/gpus/'' @ g @ ''/'' @ leaf)"

definition gpus_ok :: "string list option \<Rightarrow> bool" where
  "gpus_ok gpus \<longleftrightarrow> (case gpus of None \<Rightarrow> True | Some gs \<Rightarrow> length gs \<le> 16 \<and> (\<forall>g \<in> set gs. nvkvm_bdf_valid g))"

lemma discover_gpus_ok: "gpus_ok (Some (nvkvm_discover_host_gpus dir))"
proof (cases dir)
  case (Some names)
  have "set (take 16 (filter nvkvm_bdf_valid names)) \<subseteq> Collect nvkvm_bdf_valid" by (auto dest: in_set_takeD)
  then show ?thesis
    using Some discover_loop_eq [of "[]" names]
    by (auto simp: gpus_ok_def nvkvm_discover_host_gpus_def exchange_sort_sorts NVKVM_MAX_HOST_GPUS_def)
qed (simp add: gpus_ok_def nvkvm_discover_host_gpus_def)

lemma hfile_path_host:
  assumes "nvkvm_hfile_path dir i gpu_index buflen gpus = (r, gpus')" and "gpus_ok gpus"
  shows "gpus_ok gpus' \<and> (\<forall>p. r = Some p \<longrightarrow> host_path p)"
proof (cases "i = 4 \<or> i = 5 \<or> i = 6")
  case True
  let ?gs = "case gpus of None \<Rightarrow> nvkvm_discover_host_gpus dir | Some gs \<Rightarrow> gs"
  have i: "i \<noteq> 1" "i \<noteq> 7" "i \<noteq> 2" "i \<noteq> 3" using True by auto
  have ok: "gpus_ok (Some ?gs)" using assms(2) discover_gpus_ok by (auto split: option.splits)
  have g: "gpus' = Some ?gs" using assms(1) True i by (auto simp: nvkvm_hfile_path_def Let_def)
  have "host_path p" if p: "r = Some p" for p
  proof -
    have "unat gpu_index < length ?gs \<and> p = ''/proc/driver/nvidia/gpus/'' @ ?gs ! unat gpu_index @ ''/'' @ hfile_leaf i"
      using p assms(1) True i by (auto simp: nvkvm_hfile_path_def Let_def split: if_splits)
    moreover have "hfile_leaf i \<in> {''numa_status'', ''information'', ''registry''}" by (simp add: hfile_leaf_def)
    ultimately show ?thesis using ok by (auto simp: host_path_def gpus_ok_def simp del: append.simps intro: nth_mem)
  qed
  then show ?thesis using g ok by simp
next
  case False
  then show ?thesis using assms by (auto simp: nvkvm_hfile_path_def Let_def host_path_def split: if_splits)
qed

text \<open>C23: A guest can read only the driver files meant for it.  Whatever file number, GPU index and length the
  guest sends and whatever names the host directory has, a request returns once \<open>read\<close> has given enough
  answers other than interruptions; a file it opens is one of four fixed files or one of three files of a
  directory whose name is a PCI address; and it writes only to the first \<open>max_len\<close> bytes of the guest's
  slot, at most 8192, and never reports more.\<close>

theorem host_file_confined:
  assumes "gpus_ok gpus" and "NVKVM_HFILE_MAX_SIZE < length (filter (\<lambda>a. a \<noteq> RFail EINTR) answers)"
  shows "\<exists>r buf' opened gpus'.
    nvkvm_req_read_host_file dir os_open answers i gpu_index max_len (Some buf) gpus = Some (r, Some buf', opened, gpus')
    \<and> gpus_ok gpus' \<and> (\<forall>p. opened = Some p \<longrightarrow> host_path p)
    \<and> (\<forall>n. r = Inr n \<longrightarrow> n \<le> unat max_len \<and> n \<le> 8192)
    \<and> (\<forall>k. unat max_len \<le> k \<or> 8192 \<le> k \<longrightarrow> buf' k = buf k)"
proof (cases "max_len = 0 \<or> unat max_len > NVKVM_HFILE_MAX_SIZE")
  case True
  then show ?thesis using assms(1) by (simp add: nvkvm_req_read_host_file_def)
next
  case False
  then have m: "max_len \<noteq> 0" "unat max_len \<le> NVKVM_HFILE_MAX_SIZE" by auto
  obtain p g where p: "nvkvm_hfile_path dir i gpu_index 256 gpus = (p, g)" by fastforce
  note h = hfile_path_host [OF p assms(1)]
  show ?thesis
  proof (cases "p = None \<or> (\<exists>q e. p = Some q \<and> os_open q = Some e)")
    case True
    then show ?thesis using False p h by (auto simp: nvkvm_req_read_host_file_def)
  next
    case op: False
    then obtain q where q: "p = Some q" "os_open q = None" by (cases p) auto
    have "read_loop (unat max_len) answers 0 buf \<noteq> None" using m(2) assms(2) by (intro read_loop_returns) auto
    then obtain r b where rl: "read_loop (unat max_len) answers 0 buf = Some (r, b)" by auto
    show ?thesis using False p q rl h read_loop_bounds [OF rl] m(2)
      by (auto simp: nvkvm_req_read_host_file_def NVKVM_HFILE_MAX_SIZE_def)
  qed
qed

theorem host_file_confined_witness:
  "\<exists>r buf'. nvkvm_req_read_host_file (Some [''.'', ''0000:65:00.0'']) (\<lambda>_. None) (replicate 9000 (RData [1])) 5 0 16 (Some (\<lambda>_. 0)) None
     = Some (r, Some buf', Some ''/proc/driver/nvidia/gpus/0000:65:00.0/information'', Some [''0000:65:00.0''])
   \<and> buf' 16 = 0"
proof -
  have "nvkvm_discover_host_gpus (Some [''.'', ''0000:65:00.0'']) = [''0000:65:00.0'']"
    by (simp add: nvkvm_discover_host_gpus_def NVKVM_MAX_HOST_GPUS_def nvkvm_bdf_valid_def NVKVM_BDF_LEN_def
      exchange_sort_sorts numeral_eq_Suc All_less_Suc hex_char_def less_eq_char_def)
  then have p: "nvkvm_hfile_path (Some [''.'', ''0000:65:00.0'']) 5 0 256 None
      = (Some ''/proc/driver/nvidia/gpus/0000:65:00.0/information'', Some [''0000:65:00.0''])"
    by (simp add: nvkvm_hfile_path_def hfile_leaf_def)
  have "gpus_ok None" "NVKVM_HFILE_MAX_SIZE < length (filter (\<lambda>a. a \<noteq> RFail EINTR) (replicate 9000 (RData [1])))"
    by (simp_all add: gpus_ok_def NVKVM_HFILE_MAX_SIZE_def)
  from host_file_confined [OF this, of "Some [''.'', ''0000:65:00.0'']" "\<lambda>_. None" 5 0 16 "\<lambda>_. 0"]
  show ?thesis using p
    by (auto simp: nvkvm_req_read_host_file_def NVKVM_HFILE_MAX_SIZE_def split: option.splits if_splits)
qed

end
