(* ===== verification/Wire.thy ===== *)
theory Wire
  imports Prelude
begin

text \<open>
  The messages between the guest module and the device (\<open>common/nvkvm_proto.h\<close>).  A message is a header (type and
  transaction number) and one C structure of little-endian words, so a structure is its list of field widths
  and a message body a list of fields.  The structures have no implicit padding.  A request that is shorter
  than its structure is read as if zeros followed, because the device clears the structure before copying.
\<close>

section \<open>Fields\<close>

datatype width = W32 | W64
datatype field = F32 u32 | F64 u64

fun width_of :: "field \<Rightarrow> width" where
  "width_of (F32 _) = W32"
| "width_of (F64 _) = W64"

fun wsize :: "width \<Rightarrow> nat" where
  "wsize W32 = 4"
| "wsize W64 = 8"

definition layout_size :: "width list \<Rightarrow> nat" where
  "layout_size ws = sum_list (map wsize ws)"

definition cpu_to_le32 :: "u32 \<Rightarrow> u8 list" where
  "cpu_to_le32 v = [byte32 0 v, byte32 1 v, byte32 2 v, byte32 3 v]"

definition cpu_to_le64 :: "u64 \<Rightarrow> u8 list" where
  "cpu_to_le64 v = cpu_to_le32 (ucast v) @ cpu_to_le32 (ucast (drop_bit 32 v))"

fun enc_field :: "field \<Rightarrow> u8 list" where
  "enc_field (F32 v) = cpu_to_le32 v"
| "enc_field (F64 v) = cpu_to_le64 v"

definition enc :: "field list \<Rightarrow> u8 list" where
  "enc fs = concat (map enc_field fs)"

definition byte_at :: "u8 list \<Rightarrow> nat \<Rightarrow> u8" where
  "byte_at bs i = (if i < length bs then bs ! i else 0)"

definition le32_to_cpu :: "u8 list \<Rightarrow> u32" where
  "le32_to_cpu bs = le32 (byte_at bs 0) (byte_at bs 1) (byte_at bs 2) (byte_at bs 3)"

definition le64_to_cpu :: "u8 list \<Rightarrow> u64" where
  "le64_to_cpu bs = ucast (le32_to_cpu bs) OR push_bit 32 (ucast (le32_to_cpu (drop 4 bs)))"

fun dec :: "width list \<Rightarrow> u8 list \<Rightarrow> field list" where
  "dec [] bs = []"
| "dec (W32 # ws) bs = F32 (le32_to_cpu bs) # dec ws (drop 4 bs)"
| "dec (W64 # ws) bs = F64 (le64_to_cpu bs) # dec ws (drop 8 bs)"

section \<open>Structures\<close>

definition struct_hdr :: "width list" where "struct_hdr = [W32, W32]"

definition struct_list_req :: "width list" where "struct_list_req = [W32]"
definition struct_device_info :: "width list" where "struct_device_info = [W32, W32, W64]"
definition struct_list_resp :: "width list" where
  "struct_list_resp = [W32, W32] @ concat (replicate 32 struct_device_info)"
definition struct_open_req :: "width list" where "struct_open_req = [W32, W32, W32, W32]"
definition struct_open_resp :: "width list" where "struct_open_resp = [W32, W32]"
definition struct_present_req :: "width list" where
  "struct_present_req = [W32, W32, W32, W32, W32, W32, W32, W32, W64]"
definition struct_present_resp :: "width list" where "struct_present_resp = [W32, W32]"
definition struct_xiso_req :: "width list" where "struct_xiso_req = [W32, W32, W32, W32, W32, W32]"
definition struct_xiso_resp :: "width list" where "struct_xiso_resp = [W32, W32]"
definition struct_memory_req :: "width list" where "struct_memory_req = [W64, W32, W32]"
definition struct_memory_resp :: "width list" where "struct_memory_resp = [W32, W32]"
definition struct_close_req :: "width list" where "struct_close_req = [W32, W32]"
definition struct_close_resp :: "width list" where "struct_close_resp = [W32, W32]"
definition struct_create_req :: "width list" where "struct_create_req = [W32, W32]"
definition struct_create_resp :: "width list" where "struct_create_resp = [W32, W32]"
definition struct_kill_req :: "width list" where "struct_kill_req = [W32, W32]"
definition struct_kill_resp :: "width list" where "struct_kill_resp = [W32, W32]"
definition struct_interrupt_req :: "width list" where "struct_interrupt_req = [W32, W32]"
definition struct_interrupt_resp :: "width list" where "struct_interrupt_resp = [W32, W32]"
definition struct_ring_req :: "width list" where "struct_ring_req = [W32, W32]"
definition struct_ring_resp :: "width list" where
  "struct_ring_resp = [W64, W32, W32, W32, W32, W32, W32]"
definition struct_loop_req :: "width list" where "struct_loop_req = [W32, W32]"
definition struct_loop_resp :: "width list" where "struct_loop_resp = [W64, W32, W32]"
definition struct_copy_req :: "width list" where "struct_copy_req = [W32, W32]"
definition struct_copy_resp :: "width list" where "struct_copy_resp = [W32, W32]"
definition struct_close_on_req :: "width list" where "struct_close_on_req = [W32, W32]"
definition struct_close_on_resp :: "width list" where "struct_close_on_resp = [W32, W32]"
definition struct_ioctl_req :: "width list" where 
  "struct_ioctl_req = [W32, W32, W32, W32, W32, W32, W32, W32, W32, W32, W32, W32]"
definition struct_ioctl_resp :: "width list" where "struct_ioctl_resp = [W64, W32, W32, W64]"
definition struct_vma_entry :: "width list" where "struct_vma_entry = [W64, W64, W32, W32]"
definition struct_mmap_req :: "width list" where
  "struct_mmap_req = [W32, W32, W64, W64, W64, W32, W32, W32, W32]"
definition struct_mmap_resp :: "width list" where "struct_mmap_resp = [W64, W64, W32, W32]"
definition struct_munmap_req :: "width list" where "struct_munmap_req = [W32, W32]"
definition struct_munmap_resp :: "width list" where "struct_munmap_resp = [W32, W32]"
definition struct_poll_req :: "width list" where "struct_poll_req = [W32, W32, W32, W32]"
definition struct_poll_resp :: "width list" where "struct_poll_resp = [W32, W32]"
definition struct_unpoll_req :: "width list" where "struct_unpoll_req = [W32, W32]"
definition struct_unpoll_resp :: "width list" where "struct_unpoll_resp = [W32, W32]"
definition struct_evt_poll :: "width list" where "struct_evt_poll = [W32, W32, W32, W32]"
definition struct_write_req :: "width list" where "struct_write_req = [W32, W32, W64, W32, W32]"
definition struct_write_resp :: "width list" where "struct_write_resp = [W32, W32]"
definition struct_read_req :: "width list" where "struct_read_req = [W32, W32, W64, W32, W32]"
definition struct_read_resp :: "width list" where "struct_read_resp = [W32, W32]"
definition struct_realize_req :: "width list" where
  "struct_realize_req = [W32, W32, W32, W32, W64, W64, W64, W32, W32, W32, W32, W32, W32]"
definition struct_realize_resp :: "width list" where "struct_realize_resp = [W64, W64, W64, W32, W32]"
definition struct_hostfile_req :: "width list" where "struct_hostfile_req = [W32, W32, W32, W32]"
definition struct_hostfile_resp :: "width list" where "struct_hostfile_resp = [W32, W32]"

section \<open>Requests\<close>

text \<open>The arguments of a constructor are the fields of the structure in order, without the reserved ones.\<close>

datatype nvkvm_req =
    List_Nvidia_Devices
  | Open_Nvidia_Handle u32 u32 u32
  | Open_Memory_Handle u64 u32 u32
  | Close_Handle u32
  | Create_Isolate u32
  | Kill_Isolate u32
  | Copy_Handle_To_Isolate u32 u32
  | Close_Handle_On_Isolate u32 u32
  | Ioctl_On_Isolate u32 u32 u32 u32 u32 u32 u32 u32 u32 u32 u32
  | Mmap_On_Isolate u32 u32 u64 u64 u64 u32 u32 u32
  | Munmap_On_Isolate u32 u32
  | Poll_On_Isolate u32 u32 u32
  | Unpoll_On_Isolate u32 u32
  | Write_Memory_Handle u32 u32 u64 u32
  | Read_Memory_Handle u32 u32 u64 u32
  | Realize_Uvm_Mapping u32 u32 u32 u32 u64 u64 u64 u32 u32 u32 u32 u32
  | Read_Host_File u32 u32 u32 u32
  | Interrupt u32 u32
  | Setup_Ring u32
  | Enter_Loop u32 u32
  | Present u32 u32 u32 u32 u32 u32 u32 u32 u64
  | Xiso_Import u32 u32 u32 u32 u32

primrec req_type :: "nvkvm_req \<Rightarrow> u32" where
  "req_type List_Nvidia_Devices = 10"
| "req_type (Open_Nvidia_Handle dev fl s) = 11"
| "req_type (Open_Memory_Handle sz s fl) = 12"
| "req_type (Close_Handle h) = 13"
| "req_type (Create_Isolate s) = 14"
| "req_type (Kill_Isolate i) = 15"
| "req_type (Copy_Handle_To_Isolate h i) = 16"
| "req_type (Close_Handle_On_Isolate h i) = 17"
| "req_type (Ioctl_On_Isolate i h cmd ps sl as asl nv vsl fl s) = 18"
| "req_type (Mmap_On_Isolate i h gva off len p fl s) = 19"
| "req_type (Munmap_On_Isolate i tok) = 20"
| "req_type (Poll_On_Isolate i h ev) = 21"
| "req_type (Unpoll_On_Isolate i h) = 22"
| "req_type (Write_Memory_Handle h sl off sz) = 23"
| "req_type (Read_Memory_Handle h sl off sz) = 24"
| "req_type (Realize_Uvm_Mapping i h m s gva len off p fl ss is iz) = 25"
| "req_type (Read_Host_File f sl mx g) = 26"
| "req_type (Interrupt i txn) = 27"
| "req_type (Setup_Ring s) = 28"
| "req_type (Enter_Loop s us) = 29"
| "req_type (Present i h g w ht p f s md) = 30"
| "req_type (Xiso_Import oi oh og ii ih) = 31"

primrec req_fields :: "nvkvm_req \<Rightarrow> field list" where
  "req_fields List_Nvidia_Devices = [F32 0]"
| "req_fields (Open_Nvidia_Handle dev fl s) = [F32 dev, F32 fl, F32 s, F32 0]"
| "req_fields (Open_Memory_Handle sz s fl) = [F64 sz, F32 s, F32 fl]"
| "req_fields (Close_Handle h) = [F32 h, F32 0]"
| "req_fields (Create_Isolate s) = [F32 s, F32 0]"
| "req_fields (Kill_Isolate i) = [F32 i, F32 0]"
| "req_fields (Copy_Handle_To_Isolate h i) = [F32 h, F32 i]"
| "req_fields (Close_Handle_On_Isolate h i) = [F32 h, F32 i]"
| "req_fields (Ioctl_On_Isolate i h cmd ps sl as asl nv vsl fl s) =
     [F32 i, F32 h, F32 cmd, F32 ps, F32 sl, F32 as, F32 asl, F32 nv, F32 vsl, F32 fl, F32 s, F32 0]"
| "req_fields (Mmap_On_Isolate i h gva off len p fl s) =
     [F32 i, F32 h, F64 gva, F64 off, F64 len, F32 p, F32 fl, F32 s, F32 0]"
| "req_fields (Munmap_On_Isolate i tok) = [F32 i, F32 tok]"
| "req_fields (Poll_On_Isolate i h ev) = [F32 i, F32 h, F32 ev, F32 0]"
| "req_fields (Unpoll_On_Isolate i h) = [F32 i, F32 h]"
| "req_fields (Write_Memory_Handle h sl off sz) = [F32 h, F32 sl, F64 off, F32 sz, F32 0]"
| "req_fields (Read_Memory_Handle h sl off sz) = [F32 h, F32 sl, F64 off, F32 sz, F32 0]"
| "req_fields (Realize_Uvm_Mapping i h m s gva len off p fl ss is iz) =
     [F32 i, F32 h, F32 m, F32 s, F64 gva, F64 len, F64 off, F32 p, F32 fl, F32 ss, F32 is, F32 iz, F32 0]"
| "req_fields (Read_Host_File f sl mx g) = [F32 f, F32 sl, F32 mx, F32 g]"
| "req_fields (Interrupt i txn) = [F32 i, F32 txn]"
| "req_fields (Setup_Ring s) = [F32 s, F32 0]"
| "req_fields (Enter_Loop s us) = [F32 s, F32 us]"
| "req_fields (Present i h g w ht p f s md) =
     [F32 i, F32 h, F32 g, F32 w, F32 ht, F32 p, F32 f, F32 s, F64 md]"
| "req_fields (Xiso_Import oi oh og ii ih) = [F32 oi, F32 oh, F32 og, F32 ii, F32 ih, F32 0]"

text \<open>The structure the device reads for a type; \<open>None\<close> for a type it does not know.\<close>

definition req_layout :: "u32 \<Rightarrow> width list option" where
  "req_layout t =
    (if t = 10 then Some struct_list_req else if t = 11 then Some struct_open_req
     else if t = 12 then Some struct_memory_req else if t = 13 then Some struct_close_req
     else if t = 14 then Some struct_create_req else if t = 15 then Some struct_kill_req
     else if t = 16 then Some struct_copy_req else if t = 17 then Some struct_close_on_req
     else if t = 18 then Some struct_ioctl_req else if t = 19 then Some struct_mmap_req
     else if t = 20 then Some struct_munmap_req else if t = 21 then Some struct_poll_req
     else if t = 22 then Some struct_unpoll_req else if t = 23 then Some struct_write_req
     else if t = 24 then Some struct_read_req else if t = 25 then Some struct_realize_req
     else if t = 26 then Some struct_hostfile_req else if t = 27 then Some struct_interrupt_req
     else if t = 28 then Some struct_ring_req else if t = 29 then Some struct_loop_req
     else if t = 30 then Some struct_present_req else if t = 31 then Some struct_xiso_req
     else None)"

fun f32 :: "field \<Rightarrow> u32" where
  "f32 (F32 v) = v"
| "f32 (F64 v) = ucast v"

fun f64 :: "field \<Rightarrow> u64" where
  "f64 (F32 v) = ucast v"
| "f64 (F64 v) = v"

definition req_of :: "u32 \<Rightarrow> field list \<Rightarrow> nvkvm_req option" where
  "req_of t fs =
    (let a = (\<lambda>i. f32 (fs ! i)); q = (\<lambda>i. f64 (fs ! i)) in
     if t = 10 then Some List_Nvidia_Devices
     else if t = 11 then Some (Open_Nvidia_Handle (a 0) (a 1) (a 2))
     else if t = 12 then Some (Open_Memory_Handle (q 0) (a 1) (a 2))
     else if t = 13 then Some (Close_Handle (a 0))
     else if t = 14 then Some (Create_Isolate (a 0))
     else if t = 15 then Some (Kill_Isolate (a 0))
     else if t = 16 then Some (Copy_Handle_To_Isolate (a 0) (a 1))
     else if t = 17 then Some (Close_Handle_On_Isolate (a 0) (a 1))
     else if t = 18 then Some (Ioctl_On_Isolate (a 0) (a 1) (a 2) (a 3) (a 4) (a 5) (a 6) (a 7) (a 8) (a 9) (a 10))
     else if t = 19 then Some (Mmap_On_Isolate (a 0) (a 1) (q 2) (q 3) (q 4) (a 5) (a 6) (a 7))
     else if t = 20 then Some (Munmap_On_Isolate (a 0) (a 1))
     else if t = 21 then Some (Poll_On_Isolate (a 0) (a 1) (a 2))
     else if t = 22 then Some (Unpoll_On_Isolate (a 0) (a 1))
     else if t = 23 then Some (Write_Memory_Handle (a 0) (a 1) (q 2) (a 3))
     else if t = 24 then Some (Read_Memory_Handle (a 0) (a 1) (q 2) (a 3))
     else if t = 25 then Some (Realize_Uvm_Mapping (a 0) (a 1) (a 2) (a 3) (q 4) (q 5) (q 6) (a 7) (a 8) (a 9) (a 10) (a 11))
     else if t = 26 then Some (Read_Host_File (a 0) (a 1) (a 2) (a 3))
     else if t = 27 then Some (Interrupt (a 0) (a 1))
     else if t = 28 then Some (Setup_Ring (a 0))
     else if t = 29 then Some (Enter_Loop (a 0) (a 1))
     else if t = 30 then Some (Present (a 0) (a 1) (a 2) (a 3) (a 4) (a 5) (a 6) (a 7) (q 8))
     else if t = 31 then Some (Xiso_Import (a 0) (a 1) (a 2) (a 3) (a 4))
     else None)"

text \<open>A message as the guest builds it, and as the device reads it.\<close>

definition hdr_bytes :: "u32 \<Rightarrow> u32 \<Rightarrow> u8 list" where
  "hdr_bytes ty txn = enc [F32 ty, F32 txn]"

definition req_bytes :: "u32 \<Rightarrow> nvkvm_req \<Rightarrow> u8 list" where
  "req_bytes txn r = hdr_bytes (req_type r) txn @ enc (req_fields r)"

datatype incoming = Short_Header | Unknown_Type u32 u32 | Request u32 nvkvm_req

definition read_request :: "u8 list \<Rightarrow> incoming" where
  "read_request bs =
    (if length bs < layout_size struct_hdr then Short_Header
     else let ty = le32_to_cpu bs; txn = le32_to_cpu (drop 4 bs) in
       case req_layout ty of
         None \<Rightarrow> Unknown_Type ty txn
       | Some ws \<Rightarrow> (case req_of ty (dec ws (drop 8 bs)) of None \<Rightarrow> Unknown_Type ty txn | Some r \<Rightarrow> Request txn r))"

text \<open>Error numbers travel as words: positive in most answers, \<open>(uint32_t)-errno\<close> in some.\<close>

primrec errno_no :: "errno \<Rightarrow> nat" where
  "errno_no EPERM = 1" | "errno_no ENOENT = 2" | "errno_no ESRCH = 3" | "errno_no EINTR = 4" | "errno_no EIO = 5"
| "errno_no E2BIG = 7" | "errno_no EBADF = 9" | "errno_no EAGAIN = 11" | "errno_no ENOMEM = 12" | "errno_no EACCES = 13"
| "errno_no EFAULT = 14" | "errno_no EBUSY = 16" | "errno_no EEXIST = 17" | "errno_no ENODEV = 19" | "errno_no EINVAL = 22"
| "errno_no ENFILE = 23" | "errno_no EMFILE = 24" | "errno_no ENOTTY = 25" | "errno_no ENOSPC = 28" | "errno_no ESPIPE = 29"
| "errno_no EPIPE = 32" | "errno_no ERANGE = 34" | "errno_no ENOSYS = 38" | "errno_no EPROTO = 71" | "errno_no EOPNOTSUPP = 95"
| "errno_no ECONNRESET = 104" | "errno_no ENOTCONN = 107" | "errno_no ETIMEDOUT = 110" | "errno_no EALREADY = 114"

definition err_word :: "errno \<Rightarrow> u32" where
  "err_word e = of_nat (errno_no e)"

lemma errno_no_bounds: "0 < errno_no e" "errno_no e < 128"
  by (cases e; simp)+

lemma err_word_nonzero [simp]: "err_word e \<noteq> 0"
  by (cases e) (simp_all add: err_word_def)

lemma sint_err_word [simp]: "sint (err_word e) = int (errno_no e)"
  by (cases e) (simp_all add: err_word_def)

section \<open>Reading what was written\<close>

lemma length_le [simp]: "length (cpu_to_le32 v) = 4" "length (cpu_to_le64 w) = 8"
  by (simp_all add: cpu_to_le32_def cpu_to_le64_def)

lemma le32_to_cpu_enc [simp]: "le32_to_cpu (cpu_to_le32 v @ bs) = v"
  using le32_byte32 [of v]
  by (simp add: le32_to_cpu_def cpu_to_le32_def byte_at_def nth_append numeral_2_eq_2 numeral_3_eq_3 del: le32_byte32)

lemma le64_to_cpu_enc [simp]: "le64_to_cpu (cpu_to_le64 v @ bs) = v"
proof -
  have "drop 4 (cpu_to_le64 v @ bs) = cpu_to_le32 (ucast (drop_bit 32 v)) @ bs"
    by (simp add: cpu_to_le64_def)
  then show ?thesis
    by (simp add: le64_to_cpu_def halves_u64) (simp add: cpu_to_le64_def halves_u64)
qed

lemma length_enc_field [simp]: "length (enc_field f) = wsize (width_of f)"
  by (cases f) simp_all

lemma length_enc: "length (enc fs) = layout_size (map width_of fs)"
  by (simp add: enc_def layout_size_def length_concat comp_def)

lemma dec_enc: "map width_of fs = ws \<Longrightarrow> dec ws (enc fs @ bs) = fs"
proof (induction fs arbitrary: ws)
  case (Cons f fs)
  then show ?case by (cases f) (auto simp: enc_def)
qed simp

lemma dec_widths [simp]: "map width_of (dec ws bs) = ws"
  by (induction ws bs rule: dec.induct) simp_all

lemma length_dec [simp]: "length (dec ws bs) = length ws"
  using dec_widths [of ws bs] by (metis length_map)

lemmas struct_defs = struct_hdr_def struct_list_req_def struct_open_req_def struct_memory_req_def struct_close_req_def
  struct_create_req_def struct_kill_req_def struct_copy_req_def struct_close_on_req_def struct_ioctl_req_def
  struct_mmap_req_def struct_munmap_req_def struct_poll_req_def struct_unpoll_req_def struct_write_req_def
  struct_read_req_def struct_realize_req_def struct_hostfile_req_def struct_interrupt_req_def struct_ring_req_def
  struct_loop_req_def struct_present_req_def struct_xiso_req_def

text \<open>The fields of a request have the widths of its structure.\<close>

lemma req_fields_typed: "req_layout (req_type r) = Some (map width_of (req_fields r))"
  by (cases r) (simp_all add: req_layout_def struct_defs)

lemma req_of_fields: "req_of (req_type r) (req_fields r) = Some r"
  by (cases r) (simp_all add: req_of_def)

lemma req_of_layout: "req_layout t = None \<longleftrightarrow> req_of t fs = None"
  by (simp add: req_layout_def req_of_def Let_def)

lemma read_request_extra: "read_request (req_bytes txn r @ rest) = Request txn r"
proof -
  define b where "b = enc (req_fields r) @ rest"
  have all: "req_bytes txn r @ rest = cpu_to_le32 (req_type r) @ cpu_to_le32 txn @ b"
    by (simp add: req_bytes_def hdr_bytes_def enc_def b_def)
  have parts: "drop 8 (req_bytes txn r @ rest) = b" "drop 4 (req_bytes txn r @ rest) = cpu_to_le32 txn @ b"
      "le32_to_cpu (req_bytes txn r @ rest) = req_type r"
    unfolding all by simp_all
  have long: "\<not> length (req_bytes txn r @ rest) < layout_size struct_hdr"
    unfolding all by (simp add: layout_size_def struct_hdr_def)
  have "dec (map width_of (req_fields r)) b = req_fields r"
    unfolding b_def by (rule dec_enc) simp
  then show ?thesis
    unfolding read_request_def Let_def parts req_fields_typed
    by (simp add: req_of_fields long [unfolded length_append])
qed

text \<open>C35: Every request the guest can build has the layout of the structure the device reads for its type, and the
  device reads back exactly that request, with its transaction number, whatever follows it in the buffer.
\<close>

theorem request_round_trip:
  "req_layout (req_type r) = Some (map width_of (req_fields r)) \<and>
   length (req_bytes txn r) = 8 + layout_size (map width_of (req_fields r)) \<and>
   read_request (req_bytes txn r @ rest) = Request txn r"
  using req_fields_typed read_request_extra by (auto simp: req_bytes_def hdr_bytes_def length_enc layout_size_def)

end
