(* ===== verification/Transport.thy ===== *)
theory Transport
  imports Wire Device IoctlGate HostFile
begin

text \<open>
  The queue side of the device (\<open>qemu/virtio_nvgpu.c\<close>): the slots of the shared memory, the handler that
  takes requests off the queue, decodes them and calls the request handlers of the other theories, and the work
  items of the requests that block.  The guest chooses every byte of a request and of the shared memory.  What
  the host and the stubs answer to one request is its \<open>tx_env\<close>.
\<close>

section \<open>State\<close>

record virtio_config =
  cf_shm_base :: u64
  cf_shm_len :: u64
  cf_win_gpa :: u64
  cf_win_len :: u64
  cf_flags :: u64

record nvgpu =
  nd_dev :: device
  nd_abi :: "nvkvm_abi_profile option"
  nd_clients :: "u32 list"
  nd_gpus :: "string list option"
  nd_shm :: mem
  slot_size :: nat
  shm_size :: nat
  config_space :: virtio_config

definition NVKVM_SHM_NSLOTS :: nat where "NVKVM_SHM_NSLOTS = 256"

definition slot_valid :: "u32 \<Rightarrow> bool" where
  "slot_valid slot \<longleftrightarrow> slot \<ge> 1 \<and> unat slot < NVKVM_SHM_NSLOTS"

definition slot_ptr :: "nvgpu \<Rightarrow> u32 \<Rightarrow> nat" where
  "slot_ptr nv slot = unat slot * slot_size nv"

definition slot_blob :: "nvgpu \<Rightarrow> u32 \<Rightarrow> nat \<Rightarrow> nat option" where
  "slot_blob nv slot sz =
    (if \<not> slot_valid slot then None
     else if sz > slot_size nv then None
     else if unat slot * slot_size nv + sz > shm_size nv then None
     else Some (slot_ptr nv slot))"

text \<open>A private copy of part of the shared memory, and writing a buffer back.\<close>

definition snapshot :: "mem \<Rightarrow> nat \<Rightarrow> nat \<Rightarrow> mem" where
  "snapshot shm b n = (\<lambda>i. if i < n then shm (b + i) else 0)"

section \<open>Blocking requests\<close>

record nvkvm_ioctl_work =
  iw_txn :: u32
  iw_req :: ioctl_req
  iw_param :: "nat option"
  iw_aux :: "nat option"

definition make_ioctl_work ::
  "nvgpu \<Rightarrow> u32 \<Rightarrow> u32 \<Rightarrow> u32 \<Rightarrow> u32 \<Rightarrow> u32 \<Rightarrow> u32 \<Rightarrow> u32 \<Rightarrow> u32 \<Rightarrow> u32 \<Rightarrow> nvkvm_ioctl_work" where
  "make_ioctl_work nv txn i h cmd ps sl as asl fl =
    (let pb = (if ps > 0 then slot_blob nv sl (unat ps) else None);
         ab = (if as > 0 then slot_blob nv asl (unat as) else None)
     in \<lparr>iw_txn = txn,
         iw_req = \<lparr>rq_isolate = i, rq_handle = h, rq_cmd = cmd,
           rq_param_size = (if pb = None then 0 else unat ps), rq_aux_size = (if ab = None then 0 else unat as),
           rq_flags = fl\<rparr>,
         iw_param = pb, iw_aux = ab\<rparr>)"

definition nv_view :: "nvgpu \<Rightarrow> nv_dev" where
  "nv_view nv = \<lparr>nv_handles = d_handles (nd_dev nv), nv_abi = nd_abi nv, nv_graphics = d_graphics (nd_dev nv),
     client_allow = nd_clients nv, nv_uvm = d_uvm (nd_dev nv)\<rparr>"

definition write_back :: "nat option \<Rightarrow> mem option \<Rightarrow> nat \<Rightarrow> mem \<Rightarrow> mem" where
  "write_back dst src n shm =
    (case (dst, src) of (Some b, Some p) \<Rightarrow> st_bytes shm b (ld_bytes p 0 n) | _ \<Rightarrow> shm)"

definition ioctl_reply :: "ioctl_resp \<Rightarrow> field list" where
  "ioctl_reply r =
    [F64 (case rs_retval r of Inl e \<Rightarrow> - of_nat (errno_no e) | Inr v \<Rightarrow> v),
     F32 (case rs_status r of None \<Rightarrow> 0 | Some e \<Rightarrow> err_word e), F32 (rs_nvstatus r), F64 (rs_fault r)]"

text \<open>The worker: \<open>shm0\<close> is the shared memory when the buffers are copied, the shared memory of \<open>nv\<close> the one
  that the guest has made of it when the results are copied back.\<close>

definition nvkvm_ioctl_work_fn :: "ioctl_env \<Rightarrow> mem \<Rightarrow> nvkvm_ioctl_work \<Rightarrow> nvgpu \<Rightarrow> ioctl_out \<times> nvgpu" where
  "nvkvm_ioctl_work_fn env shm0 w nv =
    (let n = rq_param_size (iw_req w); m = rq_aux_size (iw_req w);
         out = nvkvm_req_ioctl_on_isolate env (nv_view nv) (iw_req w)
           (map_option (\<lambda>b. snapshot shm0 b n) (iw_param w)) (map_option (\<lambda>b. snapshot shm0 b m) (iw_aux w));
         shm = write_back (iw_aux w) (io_aux out) m (write_back (iw_param w) (io_param out) n (nd_shm nv))
     in (out, nv\<lparr>nd_shm := shm, nd_clients := client_allow (io_nv out),
              nd_dev := (nd_dev nv)\<lparr>d_uvm := nv_uvm (io_nv out)\<rparr>\<rparr>))"

datatype tx_event =
    Push "u8 list" nat bool
  | Submit_Ioctl nvkvm_ioctl_work
  | Submit_Loop u32 u32 u32

text \<open>Answering an element: what fits of the answer goes into the guest's buffer, the length given to the queue
  is that of the whole answer, and the guest is notified.\<close>

definition push_reply :: "u32 \<Rightarrow> u32 \<Rightarrow> nat \<Rightarrow> field list \<Rightarrow> tx_event" where
  "push_reply ty txn cap fs = (let out = hdr_bytes ty txn @ enc fs in Push (take cap out) (length out) True)"

definition nvkvm_ioctl_work_done :: "nat \<Rightarrow> nvkvm_ioctl_work \<Rightarrow> ioctl_out \<Rightarrow> tx_event" where
  "nvkvm_ioctl_work_done cap w out = push_reply 18 (iw_txn w) cap (ioctl_reply (io_resp out))"

definition nvkvm_enter_loop_work_fn :: "u64 result \<Rightarrow> u32 \<Rightarrow> nvgpu \<Rightarrow> field list" where
  "nvkvm_enter_loop_work_fn ans session nv =
    (case nvkvm_req_enter_loop ans session (nd_dev nv) of
       Inl e \<Rightarrow> [F64 0, F32 (err_word e), F32 0]
     | Inr processed \<Rightarrow> [F64 processed, F32 0, F32 0])"

definition nvkvm_enter_loop_work_done :: "nat \<Rightarrow> u32 \<Rightarrow> field list \<Rightarrow> tx_event" where
  "nvkvm_enter_loop_work_done cap txn fs = push_reply 29 txn cap fs"

text \<open>An asynchronous event goes into the next buffer the guest has posted; without one it is dropped.\<close>

definition nvkvm_evt_push_bh :: "u32 \<Rightarrow> u32 \<Rightarrow> u32 \<Rightarrow> nat list \<Rightarrow> tx_event option \<times> nat list" where
  "nvkvm_evt_push_bh i h revents posted =
    (case posted of
       [] \<Rightarrow> (None, [])
     | cap # rest \<Rightarrow>
         (let msg = enc [F32 i, F32 h, F32 revents, F32 0] in (Some (Push (take cap msg) (length msg) True), rest)))"

section \<open>Requests answered at once\<close>

record tx_env =
  te_exists :: "dev_path \<Rightarrow> bool"
  te_open :: open_env
  te_memfd :: "fd result"
  te_trunc :: "unit result"
  te_win :: win_env
  te_create :: create_env
  te_ring :: ring_env
  te_stub :: "unit result"
  te_export :: "errno option \<times> fd"
  te_submit :: bool
  te_gem :: "u32 result"
  te_mmap :: "nat result"
  te_realize :: realize_answer
  te_pwrite :: "nat result"
  te_pread :: "u8 list result"
  te_dir :: "string list option"
  te_file :: "string \<Rightarrow> errno option"
  te_read :: "read_answer list"

definition status_reply :: "'a result \<Rightarrow> field list" where
  "status_reply r = [F32 (case r of Inl e \<Rightarrow> err_word e | Inr _ \<Rightarrow> 0), F32 0]"

definition id_reply :: "u32 result \<Rightarrow> field list" where
  "id_reply r = (case r of Inl e \<Rightarrow> [F32 0, F32 (err_word e)] | Inr h \<Rightarrow> [F32 h, F32 0])"

definition list_reply :: "int list \<Rightarrow> field list" where
  "list_reply devs = [F32 (of_nat (length devs)), F32 0]
     @ concat (map (\<lambda>dev. [F32 (of_int dev), F32 0, F64 0]) devs)
     @ concat (replicate (NVKVM_MAX_DEVICES - length devs) [F32 0, F32 0, F64 0])"

definition ring_reply :: "(nat \<times> u32 \<times> u32 \<times> u32 \<times> u32) result \<Rightarrow> field list" where
  "ring_reply r = (case r of
     Inl e \<Rightarrow> [F64 0, F32 0, F32 0, F32 0, F32 0, F32 (err_word e), F32 0]
   | Inr (gpa, region, req_off, resp_off, bytes) \<Rightarrow>
       [F64 (of_nat gpa), F32 region, F32 req_off, F32 resp_off, F32 bytes, F32 0, F32 0])"

definition mmap_reply :: "(nat \<times> nat \<times> nat) result \<Rightarrow> field list" where
  "mmap_reply r = (case r of
     Inl e \<Rightarrow> [F64 0, F64 0, F32 0, F32 (err_word e)]
   | Inr (token, gpa, len) \<Rightarrow> [F64 (of_nat gpa), F64 (of_nat len), F32 (of_nat token), F32 0])"

fun rl_word :: "rl_status \<Rightarrow> u32" where
  "rl_word RlOk = 0"
| "rl_word (RlErr e) = err_word e"
| "rl_word (RlNegErr e) = - err_word e"

definition realize_reply :: "realize_resp \<Rightarrow> field list" where
  "realize_reply r = [F64 (of_nat (rr_gpa r)), F64 (of_nat (rr_length r)), F64 (of_nat (rr_token r)),
     F32 (rr_rm_status r), F32 (rl_word (rr_status r))]"

definition set_dev :: "device \<Rightarrow> nvgpu \<Rightarrow> nvgpu" where
  "set_dev d nv = nv\<lparr>nd_dev := d\<rparr>"

text \<open>The realize request reads the snapshot and the intent where they are, in the shared memory, and clears
  the intent's status word when the range matches.\<close>

definition realize_bufs_at :: "mem \<Rightarrow> nat option \<Rightarrow> nat option \<Rightarrow> realize_bufs option" where
  "realize_bufs_at shm sb ib =
    (case (sb, ib) of
       (Some s, Some t) \<Rightarrow>
         Some \<lparr>rb_n_gpus = unat (ld32 shm (s + 8)), rb_n_va_spaces = unat (ld32 shm (s + 12)),
               rb_n_range_groups = unat (ld32 shm (s + 16)), rb_base = unat (ld64 shm t), rb_length = unat (ld64 shm (t + 8))\<rparr>
     | _ \<Rightarrow> None)"

definition realize_clears_status :: "realize_req \<Rightarrow> realize_bufs option \<Rightarrow> bool" where
  "realize_clears_status req bufs \<longleftrightarrow> (case bufs of
     None \<Rightarrow> False
   | Some b \<Rightarrow> rb_n_gpus b \<le> 16 \<and> rb_n_va_spaces b \<le> 16 \<and> rb_n_range_groups b \<le> 16 \<and> rl_mode req = 1
       \<and> rl_intent_size req = 9248 \<and> rb_length b = rl_length req \<and> rb_base b = rl_gva req)"

definition realize_request ::
  "tx_env \<Rightarrow> realize_req \<Rightarrow> nat option \<Rightarrow> nat option \<Rightarrow> nvgpu \<Rightarrow> field list \<times> nvgpu" where
  "realize_request env req sb ib nv =
    (let bufs = realize_bufs_at (nd_shm nv) sb ib;
         shm = (case ib of Some t \<Rightarrow> if realize_clears_status req bufs then st32 (nd_shm nv) (t + 9240) 0 else nd_shm nv
                | None \<Rightarrow> nd_shm nv)
     in case nvkvm_req_realize_uvm_mapping (te_win env) (te_realize env) req bufs (d_mm (nd_dev nv)) of
          (resp, mm) \<Rightarrow> (realize_reply resp, nv\<lparr>nd_shm := shm, nd_dev := (nd_dev nv)\<lparr>d_mm := mm\<rparr>\<rparr>))"

definition data_slot :: "nvgpu \<Rightarrow> u32 \<Rightarrow> u32 \<Rightarrow> nat option" where
  "data_slot nv sl sz = (if sz > 0 then slot_blob nv sl (unat sz) else None)"

definition read_memory_request :: "tx_env \<Rightarrow> u32 \<Rightarrow> u32 \<Rightarrow> u32 \<Rightarrow> nvgpu \<Rightarrow> field list \<times> nvgpu" where
  "read_memory_request env h sl sz nv =
    (let db = data_slot nv sl sz;
         got = map_sum id (take (unat sz)) (te_pread env);
         (r, used) = nvkvm_req_read_memory_handle (db \<noteq> None) h sz (map_sum id length got) (nd_dev nv)
     in (status_reply r,
         case (db, used, got) of (Some b, Some _, Inr bs) \<Rightarrow> nv\<lparr>nd_shm := st_bytes (nd_shm nv) b bs\<rparr> | _ \<Rightarrow> nv))"

definition host_file_request :: "tx_env \<Rightarrow> u32 \<Rightarrow> u32 \<Rightarrow> u32 \<Rightarrow> u32 \<Rightarrow> nvgpu \<Rightarrow> (field list \<times> nvgpu) option" where
  "host_file_request env f sl mx g nv =
    (let db = slot_blob nv sl (unat mx);
         buf = map_option (\<lambda>b. snapshot (nd_shm nv) b (unat mx)) db in
     case nvkvm_req_read_host_file (te_dir env) (te_file env) (te_read env) f g mx buf (nd_gpus nv) of
       None \<Rightarrow> None
     | Some (r, buf1, path, gpus) \<Rightarrow>
         Some ([F32 (case r of Inl e \<Rightarrow> err_word e | Inr _ \<Rightarrow> 0), F32 (case r of Inl e \<Rightarrow> 0 | Inr n \<Rightarrow> of_nat n)],
               nv\<lparr>nd_shm := write_back db buf1 (unat mx) (nd_shm nv), nd_gpus := gpus\<rparr>))"

text \<open>\<open>None\<close> for the two requests that are handed to a worker (and while a file read does not return).\<close>

primrec handle_request :: "tx_env \<Rightarrow> nvkvm_req \<Rightarrow> nvgpu \<Rightarrow> (field list \<times> nvgpu) option" where
  "handle_request env List_Nvidia_Devices nv = Some (list_reply (nvkvm_req_list_nvidia_devices (te_exists env)), nv)"
| "handle_request env (Open_Nvidia_Handle dev fl s) nv =
    (case nvkvm_req_open_nvidia_handle (te_open env) s (sint dev) (nd_dev nv) of (r, d, _) \<Rightarrow> Some (id_reply r, set_dev d nv))"
| "handle_request env (Open_Memory_Handle sz s fl) nv =
    (case nvkvm_req_open_memory_handle (te_memfd env) (te_trunc env) s sz (nd_dev nv) of
       (r, d, _) \<Rightarrow> Some (id_reply r, set_dev d nv))"
| "handle_request env (Close_Handle h) nv =
    (case nvkvm_req_close_handle h (nd_dev nv) of (r, d, _) \<Rightarrow> Some (status_reply r, set_dev d nv))"
| "handle_request env (Create_Isolate s) nv =
    (case nvkvm_req_create_isolate (te_win env) (te_create env) (te_ring env) s (nd_dev nv) of
       (r, d, _) \<Rightarrow> Some (id_reply r, set_dev d nv))"
| "handle_request env (Kill_Isolate i) nv =
    (case nvkvm_req_kill_isolate (te_win env) i (nd_dev nv) of
       (r, d, _) \<Rightarrow> Some (status_reply (case r of None \<Rightarrow> Inr () | Some e \<Rightarrow> Inl e), set_dev d nv))"
| "handle_request env (Copy_Handle_To_Isolate h i) nv =
    (case nvkvm_req_copy_handle_to_isolate (te_stub env) i h (nd_dev nv) of (r, d) \<Rightarrow> Some (status_reply r, set_dev d nv))"
| "handle_request env (Close_Handle_On_Isolate h i) nv =
    (case nvkvm_req_close_handle_on_isolate (te_stub env) i h (nd_dev nv) of (r, d) \<Rightarrow> Some (status_reply r, set_dev d nv))"
| "handle_request env (Ioctl_On_Isolate i h cmd ps sl as asl n vsl fl s) nv = None"
| "handle_request env (Mmap_On_Isolate i h gva off len p fl s) nv =
    (case mmap_on_isolate (te_win env) (te_mmap env) (te_stub env)
            \<lparr>mm_isolate = i, mm_handle = h, mm_gva = unat gva, mm_offset = unat off, mm_length = unat len,
             mm_prot = p, mm_flags = fl\<rparr> (nd_dev nv) of
       (r, d, _) \<Rightarrow> Some (mmap_reply r, set_dev d nv))"
| "handle_request env (Munmap_On_Isolate i tok) nv =
    (case nvkvm_req_munmap_on_isolate (te_win env) (unat tok) (d_mm (nd_dev nv)) of
       (r, mm, _) \<Rightarrow> Some (status_reply r, set_dev ((nd_dev nv)\<lparr>d_mm := mm\<rparr>) nv))"
| "handle_request env (Poll_On_Isolate i h ev) nv =
    Some (status_reply (nvkvm_isolate_poll (te_stub env) i (d_iso (nd_dev nv))), nv)"
| "handle_request env (Unpoll_On_Isolate i h) nv =
    Some (status_reply (nvkvm_isolate_unpoll (te_stub env) i (d_iso (nd_dev nv))), nv)"
| "handle_request env (Write_Memory_Handle h sl off sz) nv =
    Some (status_reply (fst (nvkvm_req_write_memory_handle (data_slot nv sl sz \<noteq> None) h sz (te_pwrite env) (nd_dev nv))), nv)"
| "handle_request env (Read_Memory_Handle h sl off sz) nv = Some (read_memory_request env h sl sz nv)"
| "handle_request env (Realize_Uvm_Mapping i h m s gva len off p fl ss is iz) nv =
    Some (realize_request env
      \<lparr>rl_isolate = i, rl_mode = m, rl_gva = unat gva, rl_length = unat len, rl_prot = p, rl_flags = fl,
       rl_intent_size = unat iz\<rparr> (slot_blob nv ss (slot_size nv)) (data_slot nv is iz) nv)"
| "handle_request env (Read_Host_File f sl mx g) nv = host_file_request env f sl mx g nv"
| "handle_request env (Interrupt i txn) nv =
    Some (status_reply (nvkvm_isolate_interrupt (te_stub env) i (d_iso (nd_dev nv))), nv)"
| "handle_request env (Setup_Ring s) nv = Some (ring_reply (nvkvm_req_setup_ring s (nd_dev nv)), nv)"
| "handle_request env (Enter_Loop s us) nv = None"
| "handle_request env (Present i h g w ht p f s md) nv =
    (case nvkvm_req_present (te_export env) (te_submit env) \<lparr>pr_session = s, pr_isolate = i, pr_handle = h\<rparr> (nd_dev nv) of
       (r, _, d, _) \<Rightarrow> Some (status_reply r, set_dev d nv))"
| "handle_request env (Xiso_Import oi oh og ii ih) nv =
    (case nvkvm_req_xiso_import (te_export env) (te_gem env)
            \<lparr>xr_owner_isolate = oi, xr_owner_handle = oh, xr_importer_isolate = ii, xr_importer_handle = ih\<rparr> (nd_dev nv) of
       (r, _, d, _) \<Rightarrow>
         Some ([F32 (case r of Inl e \<Rightarrow> err_word e | Inr _ \<Rightarrow> 0), F32 (case r of Inl e \<Rightarrow> 0 | Inr gem \<Rightarrow> gem)], set_dev d nv))"

section \<open>The queue handler\<close>

text \<open>An element is the bytes the guest sends and the room it leaves for the answer.\<close>

definition handle_element :: "tx_env \<Rightarrow> u8 list \<Rightarrow> nat \<Rightarrow> nvgpu \<Rightarrow> (tx_event \<times> nvgpu) option" where
  "handle_element env bs cap nv =
    (case read_request bs of
       Short_Header \<Rightarrow> Some (Push [] 0 False, nv)
     | Unknown_Type ty txn \<Rightarrow> Some (Push [] 0 False, nv)
     | Request txn r \<Rightarrow>
        (case r of
           Ioctl_On_Isolate i h cmd ps sl as asl n vsl fl s \<Rightarrow>
             Some (Submit_Ioctl (make_ioctl_work nv txn i h cmd ps sl as asl fl), nv)
         | Enter_Loop s us \<Rightarrow> Some (Submit_Loop txn s us, nv)
         | _ \<Rightarrow> map_option (\<lambda>(fs, nv1). (push_reply (req_type r) txn cap fs, nv1)) (handle_request env r nv)))"

fun nvkvm_tx_handler :: "(tx_env \<times> u8 list \<times> nat) list \<Rightarrow> nvgpu \<Rightarrow> (tx_event list \<times> nvgpu) option" where
  "nvkvm_tx_handler [] nv = Some ([], nv)"
| "nvkvm_tx_handler ((env, bs, cap) # elems) nv =
    (case handle_element env bs cap nv of
       None \<Rightarrow> None
     | Some (ev, nv1) \<Rightarrow>
        (case nvkvm_tx_handler elems nv1 of
           None \<Rightarrow> None
         | Some (evs, nv2) \<Rightarrow> Some (ev # evs, nv2)))"


section \<open>Slots\<close>

text \<open>The address is in the slot, inside the shared memory.\<close>

definition in_slot :: "nvgpu \<Rightarrow> u32 \<Rightarrow> nat \<Rightarrow> bool" where
  "in_slot nv slot a \<longleftrightarrow> slot_valid slot \<and> unat slot * slot_size nv \<le> a \<and> a < (unat slot + 1) * slot_size nv \<and> a < shm_size nv"

lemma slot_blob_in:
  assumes "slot_blob nv slot sz = Some b" and "b \<le> a" and "a < b + sz"
  shows "in_slot nv slot a"
  using assms by (auto simp: slot_blob_def slot_ptr_def in_slot_def algebra_simps split: if_splits)

lemma slot_blob_ctrl:
  assumes "slot_blob nv slot sz = Some b"
  shows "slot_size nv \<le> b"
proof -
  have "1 \<le> unat slot" using assms by (auto simp: slot_blob_def slot_valid_def word_le_nat_alt split: if_splits)
  then show ?thesis using assms mult_le_mono1 [of 1 "unat slot" "slot_size nv"]
    by (auto simp: slot_blob_def slot_ptr_def split: if_splits)
qed

text \<open>The slots a request may have the device write.\<close>

primrec write_slots :: "nvkvm_req \<Rightarrow> u32 list" where
  "write_slots List_Nvidia_Devices = []"
| "write_slots (Open_Nvidia_Handle dev fl s) = []"
| "write_slots (Open_Memory_Handle sz s fl) = []"
| "write_slots (Close_Handle h) = []"
| "write_slots (Create_Isolate s) = []"
| "write_slots (Kill_Isolate i) = []"
| "write_slots (Copy_Handle_To_Isolate h i) = []"
| "write_slots (Close_Handle_On_Isolate h i) = []"
| "write_slots (Ioctl_On_Isolate i h cmd ps sl as asl nv vsl fl s) = []"
| "write_slots (Mmap_On_Isolate i h gva off len p fl s) = []"
| "write_slots (Munmap_On_Isolate i tok) = []"
| "write_slots (Poll_On_Isolate i h ev) = []"
| "write_slots (Unpoll_On_Isolate i h) = []"
| "write_slots (Write_Memory_Handle h sl off sz) = []"
| "write_slots (Read_Memory_Handle h sl off sz) = [sl]"
| "write_slots (Realize_Uvm_Mapping i h m s gva len off p fl ss is iz) = [is]"
| "write_slots (Read_Host_File f sl mx g) = [sl]"
| "write_slots (Interrupt i txn) = []"
| "write_slots (Setup_Ring s) = []"
| "write_slots (Enter_Loop s us) = []"
| "write_slots (Present i h g w ht p f s md) = []"
| "write_slots (Xiso_Import oi oh og ii ih) = []"

definition same_geometry :: "nvgpu \<Rightarrow> nvgpu \<Rightarrow> bool" where
  "same_geometry nv nv' \<longleftrightarrow> slot_size nv' = slot_size nv \<and> shm_size nv' = shm_size nv"

lemma same_geometry_simps [simp]:
  "same_geometry nv nv" "same_geometry nv (set_dev d nv)" "same_geometry nv (nv\<lparr>nd_dev := d\<rparr>)" "same_geometry nv (nv\<lparr>nd_shm := m\<rparr>)"
  "same_geometry nv (nv\<lparr>nd_shm := m, nd_gpus := g\<rparr>)" "same_geometry nv (nv\<lparr>nd_shm := m, nd_dev := d\<rparr>)"
  "nd_shm (set_dev d nv) = nd_shm nv" "nd_dev (set_dev d nv) = d"
  by (simp_all add: same_geometry_def set_dev_def)

lemma write_back_frame:
  assumes "write_back dst src n shm a \<noteq> shm a"
  shows "\<exists>b. dst = Some b \<and> b \<le> a \<and> a < b + n"
  using assms by (auto simp: write_back_def st_bytes_def split: option.splits if_splits)

text \<open>A request writes at most in its slots.\<close>

definition confined :: "u32 list \<Rightarrow> nvgpu \<Rightarrow> nvgpu \<Rightarrow> bool" where
  "confined ss nv nv' \<longleftrightarrow> same_geometry nv nv' \<and> (\<forall>a. nd_shm nv' a \<noteq> nd_shm nv a \<longrightarrow> (\<exists>s \<in> set ss. in_slot nv s a))"

lemma confined_same [simp]: "confined ss nv nv" "confined ss nv (set_dev d nv)"
  by (simp_all add: confined_def)

lemma confined_read_memory: "read_memory_request env h sl sz nv = (fs, nv') \<Longrightarrow> confined [sl] nv nv'"
proof -
  assume r: "read_memory_request env h sl sz nv = (fs, nv')"
  have "in_slot nv sl a"
    if "data_slot nv sl sz = Some b" "st_bytes (nd_shm nv) b (take (unat sz) bs) a \<noteq> nd_shm nv a" for b bs a
    using that slot_blob_in [of nv sl "unat sz" b a]
    by (auto simp: data_slot_def st_bytes_def split: if_splits)
  then show ?thesis using r
    by (cases "te_pread env")
      (auto simp: read_memory_request_def confined_def Let_def split: prod.splits option.splits)
qed

lemma confined_host_file: "host_file_request env f sl mx g nv = Some (fs, nv') \<Longrightarrow> confined [sl] nv nv'"
  by (auto simp: host_file_request_def confined_def Let_def split: option.splits
    dest!: write_back_frame intro: slot_blob_in)

lemma confined_realize:
  assumes "realize_request env req sb (data_slot nv is iz) nv = (fs, nv')" and "rl_intent_size req = unat iz"
  shows "confined [is] nv nv'"
proof -
  have "in_slot nv is a"
    if t: "data_slot nv is iz = Some t" and c: "realize_clears_status req bufs" "st32 (nd_shm nv) (t + 9240) 0 a \<noteq> nd_shm nv a" for t bufs a
  proof -
    have "\<not> (a < t + 9240 \<or> t + 9240 + 4 \<le> a)" using c(2) st32_frame [of a "t + 9240" "nd_shm nv" 0] by blast
    then have "t + 9240 \<le> a" "a < t + 9244" by simp_all
    moreover have "unat iz = 9248" using c(1) assms(2) by (auto simp: realize_clears_status_def split: option.splits)
    ultimately show ?thesis using t slot_blob_in [of nv "is" "unat iz" t a] by (simp add: data_slot_def split: if_splits)
  qed
  then show ?thesis using assms(1)
    by (auto simp: realize_request_def confined_def Let_def split: prod.splits option.splits if_splits)
qed

lemma handle_request_confined:
  assumes "handle_request env r nv = Some (fs, nv')"
  shows "confined (write_slots r) nv nv'"
  using assms
  by (cases r) (auto split: prod.splits dest: confined_read_memory confined_host_file confined_realize)

section \<open>Every request is a step of the device\<close>

lemma handle_request_reach:
  assumes "dev_reach (nd_dev nv)" and "handle_request env r nv = Some (fs, nv')"
  shows "dev_reach (nd_dev nv')"
proof -
  note N = dev_next [OF assms(1)]
  show ?thesis using assms(2)
  proof (cases r)
    case (Open_Nvidia_Handle dev fl s)
    then show ?thesis using assms(2) by (auto split: prod.splits dest: N [OF dev_open])
  next
    case (Open_Memory_Handle sz s fl)
    then show ?thesis using assms(2) by (auto split: prod.splits dest: N [OF dev_open_memory])
  next
    case (Close_Handle h)
    then show ?thesis using assms(2) by (auto split: prod.splits dest: N [OF dev_close])
  next
    case (Create_Isolate s)
    then show ?thesis using assms(2) by (auto split: prod.splits dest: N [OF dev_create])
  next
    case (Kill_Isolate i)
    then show ?thesis using assms(2) by (auto split: prod.splits dest: N [OF dev_kill])
  next
    case (Copy_Handle_To_Isolate h i)
    then show ?thesis using assms(2) by (auto split: prod.splits dest: N [OF dev_copy])
  next
    case (Close_Handle_On_Isolate h i)
    then show ?thesis using assms(2) by (auto split: prod.splits dest: N [OF dev_close_on])
  next
    case (Mmap_On_Isolate i h gva off len p fl s)
    then show ?thesis using assms(2) by (auto split: prod.splits dest: N [OF dev_mmap])
  next
    case (Munmap_On_Isolate i tok)
    then show ?thesis using assms(2) by (auto split: prod.splits dest: N [OF dev_munmap])
  next
    case (Realize_Uvm_Mapping i h m s gva len off p fl ss ins iz)
    then show ?thesis using assms(2)
      by (auto simp: realize_request_def Let_def split: prod.splits dest: N [OF dev_realize])
  next
    case (Present i h g w ht p f s md)
    then show ?thesis using assms(2) by (auto split: prod.splits dest: N [OF dev_present])
  next
    case (Xiso_Import oi oh og ii ih)
    then show ?thesis using assms(2) by (auto split: prod.splits dest: N [OF dev_xiso])
  qed (use assms in \<open>auto simp: read_memory_request_def host_file_request_def Let_def
      split: prod.splits option.splits sum.splits\<close>)
qed

section \<open>Graphics never changes\<close>

lemma set_handles_graphics [simp]: "d_graphics (set_handles t d) = d_graphics d"
  by (simp add: set_handles_def)

lemma set_table_graphics [simp]: "d_graphics (set_table st d) = d_graphics d"
  by (simp add: set_table_def split_beta)

lemma destroy_all_graphics: "destroy_all ss d cl = (d', cl') \<Longrightarrow> d_graphics d' = d_graphics d"
proof (induction ss arbitrary: d cl)
  case (Cons s ss)
  obtain t c where t: "nvkvm_handle_close_session (ss_id s) (d_handles d) = (t, c)" by fastforce
  then show ?case using Cons.prems Cons.IH by (auto simp: nvkvm_session_destroy_def)
qed simp

lemma open_graphics:
  "open_in_stub oe s dev i d = (r, d', cl) \<Longrightarrow> d_graphics d' = d_graphics d"
  "nvkvm_req_open_nvidia_handle oe s dev d = (r, d', cl) \<Longrightarrow> d_graphics d' = d_graphics d"
proof -
  show stub: "open_in_stub oe s dev i d = (r, d', cl) \<Longrightarrow> d_graphics d' = d_graphics d" for i
    by (auto simp: open_in_stub_def split: prod.splits sum.splits)
  show "nvkvm_req_open_nvidia_handle oe s dev d = (r, d', cl) \<Longrightarrow> d_graphics d' = d_graphics d"
    by (auto simp: nvkvm_req_open_nvidia_handle_def Let_def stub split: prod.splits sum.splits if_splits)
qed

lemma kill_graphics: "nvkvm_req_kill_isolate env i d = (r, d', cl) \<Longrightarrow> d_graphics d' = d_graphics d"
  by (auto simp: nvkvm_req_kill_isolate_def Let_def split: prod.splits dest!: destroy_all_graphics)

lemma handle_request_graphics:
  assumes "handle_request env r nv = Some (fs, nv')"
  shows "d_graphics (nd_dev nv') = d_graphics (nd_dev nv)"
  using assms
proof (cases r)
  case (Kill_Isolate i)
  then show ?thesis using assms by (auto split: prod.splits dest: kill_graphics)
next
  case (Open_Nvidia_Handle dev fl s)
  then show ?thesis using assms by (auto split: prod.splits dest: open_graphics)
next
  case (Present i h g w ht p f s md)
  then show ?thesis using assms
    by (auto simp: nvkvm_req_present_def Let_def split: prod.splits if_splits option.splits sum.splits)
next
  case (Xiso_Import oi oh og ii ih)
  then show ?thesis using assms
    by (auto simp: nvkvm_req_xiso_import_def split: prod.splits if_splits option.splits sum.splits)
qed (auto simp: nvkvm_req_open_memory_handle_def nvkvm_req_close_handle_def nvkvm_req_create_isolate_def
  nvkvm_req_copy_handle_to_isolate_def nvkvm_req_close_handle_on_isolate_def mmap_on_isolate_def realize_request_def
  read_memory_request_def host_file_request_def Let_def split: prod.splits option.splits sum.splits)

section \<open>The queue handler on arbitrary bytes\<close>

definition work_ok :: "nvgpu \<Rightarrow> nvkvm_ioctl_work \<Rightarrow> bool" where
  "work_ok nv w \<longleftrightarrow>
    (\<forall>b. iw_param w = Some b \<longrightarrow> (\<exists>s. \<forall>a. b \<le> a \<and> a < b + rq_param_size (iw_req w) \<longrightarrow> in_slot nv s a)) \<and>
    (\<forall>b. iw_aux w = Some b \<longrightarrow> (\<exists>s. \<forall>a. b \<le> a \<and> a < b + rq_aux_size (iw_req w) \<longrightarrow> in_slot nv s a)) \<and>
    (iw_param w = None \<longrightarrow> rq_param_size (iw_req w) = 0) \<and> (iw_aux w = None \<longrightarrow> rq_aux_size (iw_req w) = 0)"

lemma make_work_ok: "work_ok nv (make_ioctl_work nv txn i h cmd ps sl as asl fl)"
  using slot_blob_in unfolding work_ok_def make_ioctl_work_def Let_def by auto metis+

lemma in_slot_geometry: "same_geometry nv nv' \<Longrightarrow> in_slot nv' s a = in_slot nv s a"
  by (simp add: same_geometry_def in_slot_def)

lemma work_ok_geometry: "same_geometry nv nv' \<Longrightarrow> work_ok nv' w = work_ok nv w"
  by (simp add: work_ok_def in_slot_geometry)

text \<open>What holds between the state before and after some host activity.\<close>

definition elem_slots :: "u8 list \<Rightarrow> u32 list" where
  "elem_slots bs = (case read_request bs of Request txn r \<Rightarrow> write_slots r | _ \<Rightarrow> [])"

definition tx_safe :: "u32 list \<Rightarrow> nvgpu \<Rightarrow> tx_event list \<Rightarrow> nvgpu \<Rightarrow> bool" where
  "tx_safe ss nv evs nv' \<longleftrightarrow> confined ss nv nv' \<and> (dev_reach (nd_dev nv) \<longrightarrow> dev_reach (nd_dev nv'))
     \<and> d_graphics (nd_dev nv') = d_graphics (nd_dev nv) \<and> (\<forall>w. Submit_Ioctl w \<in> set evs \<longrightarrow> work_ok nv w)"

lemma handle_element_safe:
  assumes "handle_element env bs cap nv = Some (ev, nv')"
  shows "tx_safe (elem_slots bs) nv [ev] nv'"
proof (cases "read_request bs")
  case (Request txn r)
  have sync: "tx_safe (write_slots r) nv [push_reply (req_type r) txn cap fs] nv''"
    if "handle_request env r nv = Some (fs, nv'')" for fs nv''
    using handle_request_confined [OF that] handle_request_reach [OF _ that] handle_request_graphics [OF that]
    by (auto simp: tx_safe_def push_reply_def Let_def)
  have work: "tx_safe (write_slots r) nv [Submit_Ioctl (make_ioctl_work nv txn i h cmd ps sl as asl fl)] nv" for i h cmd ps sl as asl fl
    using make_work_ok by (simp add: tx_safe_def)
  have loop: "tx_safe (write_slots r) nv [Submit_Loop txn s us] nv" for s us
    by (simp add: tx_safe_def)
  have "tx_safe (write_slots r) nv [ev] nv'"
    using assms Request sync work loop by (cases r) (auto simp: handle_element_def simp del: handle_request.simps)
  then show ?thesis by (simp add: elem_slots_def Request)
qed (use assms in \<open>auto simp: handle_element_def tx_safe_def\<close>)

lemma tx_safe_seq:
  assumes "tx_safe ss nv evs nv1" and "tx_safe ss' nv1 evs' nv2"
  shows "tx_safe (ss @ ss') nv (evs @ evs') nv2"
proof -
  have g: "same_geometry nv nv1" using assms(1) by (simp add: tx_safe_def confined_def)
  have "\<exists>s \<in> set (ss @ ss'). in_slot nv s a" if "nd_shm nv2 a \<noteq> nd_shm nv a" for a
  proof (cases "nd_shm nv1 a = nd_shm nv a")
    case True
    then have "nd_shm nv2 a \<noteq> nd_shm nv1 a" using that by simp
    then obtain s where "s \<in> set ss'" "in_slot nv1 s a" using assms(2) unfolding tx_safe_def confined_def by blast
    then show ?thesis using in_slot_geometry [OF g] by auto
  next
    case False
    then show ?thesis using assms(1) by (auto simp: tx_safe_def confined_def)
  qed
  moreover have "same_geometry nv nv2" using assms by (auto simp: tx_safe_def confined_def same_geometry_def)
  ultimately show ?thesis using assms work_ok_geometry [OF g] by (auto simp: tx_safe_def confined_def)
qed

lemma tx_handler_inv:
  "nvkvm_tx_handler elems nv = Some (evs, nv') \<Longrightarrow>
   tx_safe (concat (map (\<lambda>(env, bs, cap). elem_slots bs) elems)) nv evs nv' \<and> length evs = length elems"
proof (induction elems arbitrary: nv evs)
  case Nil
  then show ?case by (auto simp: tx_safe_def)
next
  case (Cons el elems)
  obtain env bs cap where el: "el = (env, bs, cap)" by (cases el)
  from Cons.prems obtain ev nv1 evs1 where h: "handle_element env bs cap nv = Some (ev, nv1)"
      "nvkvm_tx_handler elems nv1 = Some (evs1, nv')" "evs = ev # evs1"
    by (auto simp: el split: option.splits prod.splits)
  show ?case using tx_safe_seq [OF handle_element_safe [OF h(1)]] Cons.IH [OF h(2)] h(3) el by force
qed

text \<open>The handler returns unless a file read goes on for ever.\<close>

definition reads_end :: "tx_env \<Rightarrow> bool" where
  "reads_end env \<longleftrightarrow> length (filter (\<lambda>a. a \<noteq> RFail EINTR) (te_read env)) > NVKVM_HFILE_MAX_SIZE"

lemma read_host_file_returns:
  assumes "length (filter (\<lambda>a. a \<noteq> RFail EINTR) answers) > NVKVM_HFILE_MAX_SIZE"
  shows "nvkvm_req_read_host_file dir os_open answers i g mx buf gpus \<noteq> None"
proof -
  have "read_loop (unat mx) answers 0 b \<noteq> None" if "unat mx \<le> NVKVM_HFILE_MAX_SIZE" for b
    using that assms by (intro read_loop_returns) auto
  then show ?thesis
    by (auto simp: nvkvm_req_read_host_file_def simp del: not_None_eq split: option.splits prod.splits if_splits)
qed

lemma host_file_request_returns: "reads_end env \<Longrightarrow> host_file_request env f sl mx g nv \<noteq> None"
  using read_host_file_returns by (auto simp: host_file_request_def reads_end_def Let_def split: option.splits)

lemma handle_element_returns:
  assumes "reads_end env"
  shows "handle_element env bs cap nv \<noteq> None"
proof -
  have "handle_request env r nv \<noteq> None"
    if "req_type r \<noteq> 18" "req_type r \<noteq> 29" for r
    using that host_file_request_returns [OF assms] by (cases r) (auto split: prod.splits)
  note sync = this
  show ?thesis
  proof (cases "read_request bs")
    case (Request txn r)
    show ?thesis
    proof (cases "req_type r = 18 \<or> req_type r = 29")
      case True
      then show ?thesis using Request by (cases r) (auto simp: handle_element_def)
    next
      case False
      then obtain fs nv1 where "handle_request env r nv = Some (fs, nv1)" using sync [of r] by auto
      then show ?thesis using Request False by (cases r) (auto simp: handle_element_def simp del: handle_request.simps)
    qed
  qed (simp_all add: handle_element_def)
qed

lemma tx_handler_returns: "\<forall>(env, bs, cap) \<in> set elems. reads_end env \<Longrightarrow> nvkvm_tx_handler elems nv \<noteq> None"
proof (induction elems arbitrary: nv)
  case (Cons el elems)
  obtain env bs cap where el: "el = (env, bs, cap)" by (cases el)
  obtain ev nv1 where h: "handle_element env bs cap nv = Some (ev, nv1)"
    using handle_element_returns [of env bs cap nv] Cons.prems el by auto
  have "nvkvm_tx_handler elems nv1 \<noteq> None" using Cons by simp
  then show ?case using h el by auto
qed simp

section \<open>The device, its workers and the guest\<close>

text \<open>
  A state of the running system: the device, the work items submitted and not yet started, those that have copied
  their buffers (with the copy), and the calls forwarded to stubs so far.  The guest writes the shared memory at any
  time, also while a worker copies, so a copy may contain any bytes.
\<close>

record system =
  sy_nv :: nvgpu
  sy_queue :: "nvkvm_ioctl_work list"
  sy_running :: "(nvkvm_ioctl_work \<times> mem) list"
  sy_forwarded :: "iso_call list"

fun submitted :: "tx_event \<Rightarrow> nvkvm_ioctl_work list" where
  "submitted (Submit_Ioctl w) = [w]"
| "submitted _ = []"

inductive host_step :: "system \<Rightarrow> system \<Rightarrow> bool" where
  host_queue: "nvkvm_tx_handler elems (sy_nv s) = Some (evs, nv') \<Longrightarrow>
    host_step s (s\<lparr>sy_nv := nv', sy_queue := sy_queue s @ concat (map submitted evs)\<rparr>)"
| host_start: "w \<in> set (sy_queue s) \<Longrightarrow>
    host_step s (s\<lparr>sy_queue := remove1 w (sy_queue s), sy_running := (w, copy) # sy_running s\<rparr>)"
| host_finish: "(w, copy) \<in> set (sy_running s) \<Longrightarrow> nvkvm_ioctl_work_fn env copy w (sy_nv s) = (out, nv') \<Longrightarrow>
    host_step s (s\<lparr>sy_nv := nv', sy_running := remove1 (w, copy) (sy_running s),
      sy_forwarded := sy_forwarded s @ io_fwd out\<rparr>)"

inductive sys_reach :: "nvgpu \<Rightarrow> system \<Rightarrow> bool" for nv0 :: nvgpu where
  sys_start: "sys_reach nv0 \<lparr>sy_nv = nv0, sy_queue = [], sy_running = [], sy_forwarded = []\<rparr>"
| sys_host: "sys_reach nv0 s \<Longrightarrow> host_step s s' \<Longrightarrow> sys_reach nv0 s'"
| sys_guest: "sys_reach nv0 s \<Longrightarrow> sys_reach nv0 (s\<lparr>sy_nv := (sy_nv s)\<lparr>nd_shm := m\<rparr>\<rparr>)"

lemma forwarded_policy:
  assumes "c \<in> set (io_fwd (nvkvm_req_ioctl_on_isolate env nv req pb ab))"
  shows "static_policy (nv_graphics nv) c"
proof -
  have same: "static_policy g (req_call req pb ab1) = static_policy g (req_call req pb ab)" for g ab1
    by (simp add: static_policy_def req_call_def)
  have "io_fwd (nvkvm_req_ioctl_on_isolate env nv req pb ab) = io_fwd (forward_ioctl env nv req pb ab)"
      "ioctl_gates nv req pb = None"
    using assms by (auto simp: nvkvm_req_ioctl_on_isolate_def Let_def split: if_splits option.splits)
  then show ?thesis using assms gates_pass_iff [of nv req pb ab] forward_calls [of env nv req pb ab]
    by auto (metis same)
qed

lemma work_fn_effect:
  assumes w: "nvkvm_ioctl_work_fn env copy w nv = (out, nv')"
  shows "same_geometry nv nv'" and "dev_reach (nd_dev nv) \<Longrightarrow> dev_reach (nd_dev nv')"
    and "d_graphics (nd_dev nv') = d_graphics (nd_dev nv)"
    and "work_ok nv w \<Longrightarrow> nd_shm nv' a \<noteq> nd_shm nv a \<Longrightarrow> \<exists>s. in_slot nv s a"
    and "c \<in> set (io_fwd out) \<Longrightarrow> static_policy (d_graphics (nd_dev nv)) c"
proof -
  have nv': "nv' = nv\<lparr>nd_shm := nd_shm nv', nd_clients := nd_clients nv', nd_dev := (nd_dev nv)\<lparr>d_uvm := d_uvm (nd_dev nv')\<rparr>\<rparr>"
    using w by (auto simp: nvkvm_ioctl_work_fn_def Let_def)
  show "same_geometry nv nv'" by (subst nv') (simp add: same_geometry_def)
  show "dev_reach (nd_dev nv')" if "dev_reach (nd_dev nv)"
    by (subst nv') (simp add: dev_next [OF that dev_ioctl])
  show "d_graphics (nd_dev nv') = d_graphics (nd_dev nv)" by (subst nv') simp
  show "\<exists>s. in_slot nv s a" if ok: "work_ok nv w" and d: "nd_shm nv' a \<noteq> nd_shm nv a"
  proof -
    have "\<exists>n src. write_back (iw_aux w) (io_aux out) (rq_aux_size (iw_req w))
        (write_back (iw_param w) (io_param out) (rq_param_size (iw_req w)) (nd_shm nv)) a \<noteq> nd_shm nv a"
      using w d by (auto simp: nvkvm_ioctl_work_fn_def Let_def)
    then have "(\<exists>b. iw_aux w = Some b \<and> b \<le> a \<and> a < b + rq_aux_size (iw_req w))
      \<or> (\<exists>b. iw_param w = Some b \<and> b \<le> a \<and> a < b + rq_param_size (iw_req w))"
      using write_back_frame by metis
    then show ?thesis using ok unfolding work_ok_def by blast
  qed
  show "static_policy (d_graphics (nd_dev nv)) c" if "c \<in> set (io_fwd out)"
    using that w by (auto simp: nvkvm_ioctl_work_fn_def Let_def nv_view_def dest: forwarded_policy)
qed

definition sys_inv :: "nvgpu \<Rightarrow> system \<Rightarrow> bool" where
  "sys_inv nv0 s \<longleftrightarrow> same_geometry nv0 (sy_nv s) \<and> dev_reach (nd_dev (sy_nv s))
     \<and> d_graphics (nd_dev (sy_nv s)) = d_graphics (nd_dev nv0)
     \<and> (\<forall>w \<in> set (sy_queue s). work_ok nv0 w) \<and> (\<forall>(w, copy) \<in> set (sy_running s). work_ok nv0 w)
     \<and> (\<forall>c \<in> set (sy_forwarded s). static_policy (d_graphics (nd_dev nv0)) c)"

lemma submitted_set: "w \<in> set (concat (map submitted evs)) \<Longrightarrow> Submit_Ioctl w \<in> set evs"
proof (induction evs)
  case (Cons e evs)
  then show ?case by (cases e) auto
qed simp

lemma host_step_inv:
  assumes "host_step s s'" and inv: "sys_inv nv0 s"
  shows "sys_inv nv0 s' \<and> (\<forall>a. nd_shm (sy_nv s') a \<noteq> nd_shm (sy_nv s) a \<longrightarrow> (\<exists>slot. in_slot nv0 slot a))"
proof -
  have g: "same_geometry nv0 (sy_nv s)" using inv by (simp add: sys_inv_def)
  note geo = in_slot_geometry [OF g] work_ok_geometry [OF g]
  from assms(1) show ?thesis
  proof cases
    case (host_queue elems evs nv')
    from tx_handler_inv [OF host_queue(2)] have t:
      "tx_safe (concat (map (\<lambda>(env, bs, cap). elem_slots bs) elems)) (sy_nv s) evs nv'" by simp
    have "\<forall>w. Submit_Ioctl w \<in> set evs \<longrightarrow> work_ok nv0 w" using t geo(2) by (simp add: tx_safe_def)
    then have "\<forall>w \<in> set (concat (map submitted evs)). work_ok nv0 w" using submitted_set by blast
    moreover have "\<forall>a. nd_shm nv' a \<noteq> nd_shm (sy_nv s) a \<longrightarrow> (\<exists>slot. in_slot nv0 slot a)"
      using t geo(1) unfolding tx_safe_def confined_def by metis
    moreover have "same_geometry nv0 nv'" "dev_reach (nd_dev nv')" "d_graphics (nd_dev nv') = d_graphics (nd_dev nv0)"
      using t inv by (simp_all add: tx_safe_def confined_def sys_inv_def same_geometry_def)
    ultimately show ?thesis using inv host_queue(1) by (auto simp: sys_inv_def)
  next
    case (host_start w copy)
    then show ?thesis using inv by (auto simp: sys_inv_def dest: notin_set_remove1 set_mp [OF set_remove1_subset])
  next
    case (host_finish w copy env out nv')
    have "work_ok nv0 w" using inv host_finish(2) by (auto simp: sys_inv_def)
    then have ok: "work_ok (sy_nv s) w" using geo(2) by simp
    note e = work_fn_effect [OF host_finish(3)]
    have "\<forall>a. nd_shm nv' a \<noteq> nd_shm (sy_nv s) a \<longrightarrow> (\<exists>slot. in_slot nv0 slot a)"
      using e(4) [OF ok] geo(1) by metis
    moreover have "same_geometry nv0 nv'" "dev_reach (nd_dev nv')" "d_graphics (nd_dev nv') = d_graphics (nd_dev nv0)"
      using e(1,2,3) inv by (simp_all add: sys_inv_def same_geometry_def)
    moreover have "\<forall>c \<in> set (io_fwd out). static_policy (d_graphics (nd_dev nv0)) c"
      using e(5) inv by (auto simp: sys_inv_def)
    ultimately show ?thesis using inv host_finish(1)
      by (auto simp: sys_inv_def dest: notin_set_remove1 set_mp [OF set_remove1_subset])
  qed
qed

lemma sys_reach_inv: "sys_reach nv0 s \<Longrightarrow> dev_reach (nd_dev nv0) \<Longrightarrow> sys_inv nv0 s"
proof (induction rule: sys_reach.induct)
  case sys_start
  then show ?case by (simp add: sys_inv_def)
next
  case (sys_host s s')
  then show ?case using host_step_inv by blast
next
  case (sys_guest s m)
  then show ?case by (simp add: sys_inv_def same_geometry_def)
qed

text \<open>C36: Whatever bytes the guest puts on the queue and however it writes the shared memory while the host works:
  every call a stub has been sent satisfies the static policy, the tables of the device satisfy their
  invariant, and a step of the host changes shared memory only inside one of the slots 1 to 255, never in the
  control block.  Ioctls run in workers, interleaved with the queue and with each other in any order.
\<close>

theorem system_safe:
  assumes "dev_reach (nd_dev nv0)" and "sys_reach nv0 s" and "host_step s s'"
  shows "(\<forall>c \<in> set (sy_forwarded s'). static_policy (d_graphics (nd_dev nv0)) c)
     \<and> (\<exists>K. dev_inv (nd_dev (sy_nv s')) K)
     \<and> (\<forall>a. nd_shm (sy_nv s') a \<noteq> nd_shm (sy_nv s) a \<longrightarrow> (\<exists>slot. in_slot nv0 slot a))
     \<and> (\<forall>a < slot_size nv0. nd_shm (sy_nv s') a = nd_shm (sy_nv s) a)"
proof -
  from host_step_inv [OF assms(3) sys_reach_inv [OF assms(2,1)]]
  have i: "sys_inv nv0 s'" and m: "\<And>a. nd_shm (sy_nv s') a \<noteq> nd_shm (sy_nv s) a \<Longrightarrow> \<exists>slot. in_slot nv0 slot a" by blast+
  have "\<not> in_slot nv0 slot a" if "a < slot_size nv0" for slot a
  proof
    assume s: "in_slot nv0 slot a"
    then have "1 \<le> unat slot" by (auto simp: in_slot_def slot_valid_def word_le_nat_alt)
    then have "slot_size nv0 \<le> unat slot * slot_size nv0" using mult_le_mono1 [of 1 "unat slot" "slot_size nv0"] by linarith
    moreover have "unat slot * slot_size nv0 \<le> a" using s by (simp add: in_slot_def)
    ultimately show False using that by linarith
  qed
  then show ?thesis using i m dev_reach_inv unfolding sys_inv_def by blast
qed

text \<open>A device with one isolate and the default geometry, and an ioctl request on it.\<close>

definition ext_nv :: nvgpu where
  "ext_nv = \<lparr>nd_dev = exd_up, nd_abi = None, nd_clients = [], nd_gpus = None, nd_shm = (\<lambda>_. 0), slot_size = 65536,
     shm_size = 16777216, config_space = \<lparr>cf_shm_base = 0, cf_shm_len = 0, cf_win_gpa = 0, cf_win_len = 0, cf_flags = 0\<rparr>\<rparr>"

definition ext_req :: nvkvm_req where
  "ext_req = Ioctl_On_Isolate 1 2 0xc020462a 32 3 0 0 0 0 0 7"

definition ext_work :: nvkvm_ioctl_work where
  "ext_work = \<lparr>iw_txn = 9, iw_req = \<lparr>rq_isolate = 1, rq_handle = 2, rq_cmd = 0xc020462a, rq_param_size = 32,
     rq_aux_size = 0, rq_flags = 0\<rparr>, iw_param = Some 196608, iw_aux = None\<rparr>"

lemma ext_queue: "nvkvm_tx_handler [(env, req_bytes 9 ext_req, 512)] ext_nv = Some ([Submit_Ioctl ext_work], ext_nv)"
  by (simp add: handle_element_def read_request_extra [of _ _ "[]", simplified] ext_req_def)
    (simp add: make_ioctl_work_def slot_blob_def slot_valid_def slot_ptr_def ext_nv_def ext_work_def NVKVM_SHM_NSLOTS_def)

theorem system_safe_witness:
  "\<exists>s. sys_reach ext_nv s \<and> sy_queue s = [ext_work] \<and>
     (\<forall>c \<in> set (sy_forwarded s). static_policy True c) \<and> (\<exists>K. dev_inv (nd_dev (sy_nv s)) K)"
proof -
  let ?start = "\<lparr>sy_nv = ext_nv, sy_queue = [], sy_running = [], sy_forwarded = []\<rparr> :: system"
  let ?s = "?start\<lparr>sy_nv := ext_nv, sy_queue := sy_queue ?start @ concat (map submitted [Submit_Ioctl ext_work])\<rparr>"
  have st: "host_step ?start ?s" by (rule host_queue) (simp, rule ext_queue)
  have d: "dev_reach (nd_dev ext_nv)" "d_graphics (nd_dev ext_nv)"
    using exd_reach(2) by (simp_all add: ext_nv_def) (simp add: exd_up_def exd_start_def)
  have "sys_reach ext_nv ?s" by (rule sys_host [OF sys_start st])
  moreover note system_safe [OF d(1) sys_start st]
  ultimately show ?thesis using d(2) by (intro exI [of _ ?s]) simp
qed

section \<open>Answers\<close>

definition answered :: "u8 list \<Rightarrow> nat \<Rightarrow> tx_event \<Rightarrow> bool" where
  "answered bs cap ev \<longleftrightarrow> (case read_request bs of
     Request txn r \<Rightarrow>
       if req_type r = 18 then \<exists>w. ev = Submit_Ioctl w \<and> iw_txn w = txn
       else if req_type r = 29 then \<exists>s us. ev = Submit_Loop txn s us
       else \<exists>fs. ev = push_reply (req_type r) txn cap fs
   | _ \<Rightarrow> ev = Push [] 0 False)"

lemma handle_element_answered: "handle_element env bs cap nv = Some (ev, nv') \<Longrightarrow> answered bs cap ev"
proof (cases "read_request bs")
  case (Request txn r)
  moreover assume "handle_element env bs cap nv = Some (ev, nv')"
  ultimately show ?thesis
    by (cases r) (auto simp: handle_element_def answered_def make_ioctl_work_def Let_def simp del: handle_request.simps)
qed (auto simp: handle_element_def answered_def)

lemma tx_handler_answered:
  "nvkvm_tx_handler elems nv = Some (evs, nv') \<Longrightarrow> list_all2 (\<lambda>(env, bs, cap) ev. answered bs cap ev) elems evs"
proof (induction elems arbitrary: nv evs)
  case (Cons el elems)
  then show ?case using handle_element_answered by (cases el) (auto split: option.splits prod.splits)
qed simp


definition ext_env :: tx_env where
  "ext_env = \<lparr>te_exists = (\<lambda>_. True), te_open = \<lparr>oe_open = Inl EIO, oe_send = Inl EIO, oe_stub = (Some EIO, -1)\<rparr>,
     te_memfd = Inl EIO, te_trunc = Inl EIO, te_win = exm_env, te_create = exd_ce, te_ring = exd_re, te_stub = Inr (),
     te_export = (Some EIO, -1), te_submit = False, te_gem = Inl EIO, te_mmap = Inl EIO,
     te_realize = \<lparr>ra_ret = Some EIO, ra_host_va = 0, ra_token = 0, ra_rm_status = 0\<rparr>, te_pwrite = Inl EIO,
     te_pread = Inl EIO, te_dir = None, te_file = (\<lambda>_. Some ENOENT), te_read = replicate 9000 (RFail EIO)\<rparr>"


end
