(* ===== verification/GuestVirtio.thy ===== *)
theory GuestVirtio
  imports Transport
begin

text \<open>
  The guest side of the queue (\<open>guest/nvkvm_virtio.c\<close>): the slot and transaction-number allocators, the callback that
  unpacks an answer, and the functions that build each request, send it and wait.  A function is modelled as one
  thread executes it; what other threads hold shows as slots and numbers already taken in the state.  The answers of
  the allocator and of the queue, a pending signal, and the host are the \<open>send_env\<close> of the call.  C results are
  integers, negative for errors.
\<close>

section \<open>State and allocators\<close>

record nvkvm_inflight =
  if_txn :: u32
  if_retval :: u64
  if_status :: int
  if_fault :: u64
  if_nvstatus :: u32
  if_isolate :: u32

record guest =
  g_next_txn :: u32
  g_txn :: "nat \<Rightarrow> bool"
  g_list :: "u32 list"
  g_slots :: "nat \<Rightarrow> bool"
  g_mapped :: bool
  g_shm :: mem
  g_slot_size :: nat

definition nvkvm_slot_alloc :: "guest \<Rightarrow> nat option \<times> guest" where
  "nvkvm_slot_alloc g =
    (case find (\<lambda>i. \<not> g_slots g i) [1..<NVKVM_SHM_NSLOTS] of
       None \<Rightarrow> (None, g)
     | Some i \<Rightarrow> (Some i, g\<lparr>g_slots := (g_slots g)(i := True)\<rparr>))"

definition nvkvm_slot_free :: "nat \<Rightarrow> guest \<Rightarrow> guest" where
  "nvkvm_slot_free i g = g\<lparr>g_slots := (g_slots g)(i := False)\<rparr>"

definition nvkvm_slot_addr :: "nat \<Rightarrow> guest \<Rightarrow> nat option" where
  "nvkvm_slot_addr i g = (if \<not> g_mapped g \<or> i \<ge> NVKVM_SHM_NSLOTS then None else Some (i * g_slot_size g))"

definition NVKVM_MAX_INFLIGHT :: nat where "NVKVM_MAX_INFLIGHT = 4096"

definition txn_slot :: "u32 \<Rightarrow> nat \<Rightarrow> nat" where
  "txn_slot seed tries = unat (seed + of_nat tries) mod NVKVM_MAX_INFLIGHT"

definition txn_word :: "u32 \<Rightarrow> nat \<Rightarrow> u32" where
  "txn_word seed slot = push_bit 12 (of_nat (unat seed div NVKVM_MAX_INFLIGHT) AND 0xFFFFF) OR (of_nat slot AND 0xFFF)"

definition nvkvm_txn_id_alloc :: "guest \<Rightarrow> u32 \<times> guest" where
  "nvkvm_txn_id_alloc g =
    (let seed = g_next_txn g + 1; g1 = g\<lparr>g_next_txn := seed\<rparr> in
     case find (\<lambda>tries. txn_slot seed tries \<noteq> 0 \<and> \<not> g_txn g (txn_slot seed tries)) [0..<NVKVM_MAX_INFLIGHT] of
       None \<Rightarrow> (0, g1)
     | Some tries \<Rightarrow> (let slot = txn_slot seed tries in (txn_word seed slot, g1\<lparr>g_txn := (g_txn g)(slot := True)\<rparr>)))"

definition nvkvm_txn_id_free :: "u32 \<Rightarrow> guest \<Rightarrow> guest" where
  "nvkvm_txn_id_free txn g =
    (let slot = unat (txn AND 0xFFF) in if slot = 0 then g else g\<lparr>g_txn := (g_txn g)(slot := False)\<rparr>)"

definition inflight_alloc_legacy :: "u32 \<Rightarrow> nvkvm_inflight" where
  "inflight_alloc_legacy txn = \<lparr>if_txn = txn, if_retval = 0, if_status = 0, if_fault = 0, if_nvstatus = 0, if_isolate = 0\<rparr>"

definition inflight_free :: "nvkvm_inflight \<Rightarrow> guest \<Rightarrow> guest" where
  "inflight_free ifl = nvkvm_txn_id_free (if_txn ifl)"

definition inflight_enqueue :: "nvkvm_inflight \<Rightarrow> guest \<Rightarrow> guest" where
  "inflight_enqueue ifl g = g\<lparr>g_list := g_list g @ [if_txn ifl]\<rparr>"

definition inflight_dequeue :: "nvkvm_inflight \<Rightarrow> guest \<Rightarrow> guest" where
  "inflight_dequeue ifl g = g\<lparr>g_list := remove1 (if_txn ifl) (g_list g)\<rparr>"

section \<open>Unpacking an answer\<close>

definition NVKVM_RESP_BUF_SIZE :: nat where "NVKVM_RESP_BUF_SIZE = 512"

definition int_of_le32 :: "field \<Rightarrow> int" where
  "int_of_le32 f = sint (f32 f)"

text \<open>Types 21, 22 and 27 (polling and interrupts) have no case of their own.\<close>

definition nvkvm_tx_done :: "u8 list \<Rightarrow> nvkvm_inflight \<Rightarrow> nvkvm_inflight" where
  "nvkvm_tx_done bs ifl =
    (let ty = le32_to_cpu bs; body = drop 8 bs;
         fs = (\<lambda>ws i. dec ws body ! i) in
     if ty = 11 then ifl\<lparr>if_status := int_of_le32 (fs struct_open_resp 1), if_retval := f64 (fs struct_open_resp 0)\<rparr>
     else if ty = 12 then ifl\<lparr>if_status := int_of_le32 (fs struct_memory_resp 1), if_retval := f64 (fs struct_memory_resp 0)\<rparr>
     else if ty = 31 then ifl\<lparr>if_status := int_of_le32 (fs struct_xiso_resp 0), if_retval := f64 (fs struct_xiso_resp 1)\<rparr>
     else if ty = 13 then ifl\<lparr>if_status := int_of_le32 (fs struct_close_resp 0)\<rparr>
     else if ty = 14 then ifl\<lparr>if_status := int_of_le32 (fs struct_create_resp 1), if_retval := f64 (fs struct_create_resp 0)\<rparr>
     else if ty = 15 then ifl\<lparr>if_status := int_of_le32 (fs struct_kill_resp 0)\<rparr>
     else if ty = 28 then ifl\<lparr>if_status := int_of_le32 (fs struct_ring_resp 5), if_retval := f64 (fs struct_ring_resp 0),
       if_nvstatus := f32 (fs struct_ring_resp 4)\<rparr>
     else if ty = 29 then ifl\<lparr>if_status := int_of_le32 (fs struct_loop_resp 1), if_retval := f64 (fs struct_loop_resp 0)\<rparr>
     else if ty = 30 then ifl\<lparr>if_status := int_of_le32 (fs struct_present_resp 0)\<rparr>
     else if ty = 16 then ifl\<lparr>if_status := int_of_le32 (fs struct_copy_resp 0)\<rparr>
     else if ty = 17 then ifl\<lparr>if_status := int_of_le32 (fs struct_close_on_resp 0)\<rparr>
     else if ty = 18 then ifl\<lparr>if_retval := f64 (fs struct_ioctl_resp 0), if_status := int_of_le32 (fs struct_ioctl_resp 1),
       if_nvstatus := f32 (fs struct_ioctl_resp 2), if_fault := f64 (fs struct_ioctl_resp 3)\<rparr>
     else if ty = 19 then ifl\<lparr>if_retval := f64 (fs struct_mmap_resp 0), if_status := int_of_le32 (fs struct_mmap_resp 3),
       if_nvstatus := f32 (fs struct_mmap_resp 2)\<rparr>
     else if ty = 20 then ifl\<lparr>if_status := int_of_le32 (fs struct_munmap_resp 0)\<rparr>
     else if ty = 23 then ifl\<lparr>if_status := int_of_le32 (fs struct_write_resp 0)\<rparr>
     else if ty = 24 then ifl\<lparr>if_status := int_of_le32 (fs struct_read_resp 0)\<rparr>
     else if ty = 26 then ifl\<lparr>if_status := int_of_le32 (fs struct_hostfile_resp 0), if_retval := f64 (fs struct_hostfile_resp 1)\<rparr>
     else if ty = 25 then ifl\<lparr>if_retval := f64 (fs struct_realize_resp 0), if_status := int_of_le32 (fs struct_realize_resp 4),
       if_nvstatus := f32 (fs struct_realize_resp 3), if_fault := f64 (fs struct_realize_resp 2)\<rparr>
     else ifl\<lparr>if_status := int (errno_no EINVAL)\<rparr>)"

section \<open>Sending\<close>

record send_env =
  sv_msg :: bool
  sv_inf :: bool
  sv_resp :: bool
  sv_add :: "errno option"
  sv_signal :: bool
  sv_host :: "u8 list \<Rightarrow> mem \<Rightarrow> u8 list \<times> mem"

definition neg :: "errno \<Rightarrow> int" where "neg e = - int (errno_no e)"

definition ERESTARTSYS :: int where "ERESTARTSYS = 512"

text \<open>Sending and waiting; the wait of a request that names an isolate can be interrupted by a signal.  \<open>interrupt\<close> is
  what the thread then does before it goes on waiting.\<close>

definition send_and_wait ::
  "(nvkvm_inflight \<Rightarrow> guest \<Rightarrow> guest) \<Rightarrow> send_env \<Rightarrow> u8 list \<Rightarrow> nvkvm_inflight \<Rightarrow> guest \<Rightarrow> int \<times> nvkvm_inflight \<times> guest" where
  "send_and_wait interrupt env req ifl g =
    (if \<not> sv_resp env then (neg ENOMEM, ifl, g)
     else let g1 = inflight_enqueue ifl g in
       case sv_add env of
         Some e \<Rightarrow> (neg e, ifl, inflight_dequeue ifl g1)
       | None \<Rightarrow>
          (let broken = if_isolate ifl \<noteq> 0 \<and> sv_signal env;
               g2 = (if broken then interrupt ifl g1 else g1);
               (bs, shm) = sv_host env req (g_shm g2);
               ifl1 = nvkvm_tx_done (take NVKVM_RESP_BUF_SIZE bs) ifl;
               g3 = inflight_dequeue ifl (g2\<lparr>g_shm := shm\<rparr>)
           in (if broken then - ERESTARTSYS else 0, ifl1, g3)))"

definition no_interrupt :: "nvkvm_inflight \<Rightarrow> guest \<Rightarrow> guest" where
  "no_interrupt ifl g = g"

text \<open>What every request function does before and after.  The two flags say whether the function gives the
  transaction number back when the message or the in-flight record cannot be allocated; \<open>extra\<close> is what follows
  the structure in the buffer sent.\<close>

definition issue ::
  "bool \<Rightarrow> bool \<Rightarrow> send_env \<Rightarrow> nvkvm_req \<Rightarrow> u8 list \<Rightarrow> guest \<Rightarrow> int \<times> nvkvm_inflight \<times> guest" where
  "issue free_msg free_inf env r extra g =
    (let (txn, g1) = nvkvm_txn_id_alloc g; ifl = inflight_alloc_legacy txn in
     if txn = 0 then (neg EBUSY, ifl, g1)
     else if \<not> sv_msg env then (neg ENOMEM, ifl, if free_msg then nvkvm_txn_id_free txn g1 else g1)
     else if \<not> sv_inf env then (neg ENOMEM, ifl, if free_inf then nvkvm_txn_id_free txn g1 else g1)
     else case send_and_wait no_interrupt env (req_bytes txn r @ extra) ifl g1 of
       (ret, ifl1, g2) \<Rightarrow>
         (if ret = 0 \<and> if_status ifl1 \<noteq> 0 then - if_status ifl1 else ret, ifl1, inflight_free ifl1 g2))"

definition simple_req :: "send_env \<Rightarrow> nvkvm_req \<Rightarrow> u8 list \<Rightarrow> guest \<Rightarrow> int \<times> u64 \<times> guest" where
  "simple_req env r extra g =
    (case issue False False env r extra g of (ret, ifl, g1) \<Rightarrow> (ret, if ret = 0 then if_retval ifl else 0, g1))"

definition id_result :: "int \<times> u64 \<times> guest \<Rightarrow> int \<times> u32 option \<times> guest" where
  "id_result = (\<lambda>(ret, v, g). (ret, if ret = 0 then Some (ucast v) else None, g))"

definition ret_only :: "int \<times> u64 \<times> guest \<Rightarrow> int \<times> guest" where
  "ret_only = (\<lambda>(ret, v, g). (ret, g))"

definition nvkvm_virtio_open_nvidia_handle :: "send_env \<Rightarrow> u32 \<Rightarrow> u32 \<Rightarrow> u32 \<Rightarrow> guest \<Rightarrow> int \<times> u32 option \<times> guest" where
  "nvkvm_virtio_open_nvidia_handle env dev_id fl session g = id_result (simple_req env (Open_Nvidia_Handle dev_id fl session) [] g)"

definition nvkvm_virtio_create_isolate :: "send_env \<Rightarrow> u32 \<Rightarrow> guest \<Rightarrow> int \<times> u32 option \<times> guest" where
  "nvkvm_virtio_create_isolate env session g = id_result (simple_req env (Create_Isolate session) [] g)"

text \<open>To disarm, the longer structure for arming is sent under the other type; the device reads its first two fields.\<close>

definition nvkvm_virtio_poll_arm :: "send_env \<Rightarrow> u32 \<Rightarrow> u32 \<Rightarrow> bool \<Rightarrow> guest \<Rightarrow> int \<times> guest" where
  "nvkvm_virtio_poll_arm env i h arm g =
    ret_only (if arm then simple_req env (Poll_On_Isolate i h 1) [] g
      else simple_req env (Unpoll_On_Isolate i h) (enc [F32 1, F32 0]) g)"

definition nvkvm_virtio_setup_ring :: "send_env \<Rightarrow> u32 \<Rightarrow> guest \<Rightarrow> int \<times> (u64 \<times> u32) option \<times> guest" where
  "nvkvm_virtio_setup_ring env session g =
    (case issue True False env (Setup_Ring session) [] g of
       (ret, ifl, g1) \<Rightarrow> (ret, if ret = 0 then Some (if_retval ifl, if_nvstatus ifl) else None, g1))"

definition nvkvm_virtio_enter_loop :: "send_env \<Rightarrow> u32 \<Rightarrow> u32 \<Rightarrow> guest \<Rightarrow> int \<times> u64 option \<times> guest" where
  "nvkvm_virtio_enter_loop env session idle_us g =
    (case issue True False env (Enter_Loop session idle_us) [] g of
       (ret, ifl, g1) \<Rightarrow> (ret, if ret = 0 then Some (if_retval ifl) else None, g1))"

text \<open>The context of an open file: its session (with its isolate) and its handle; \<open>None\<close> without a session.\<close>

record fd_ctx =
  fc_session :: u32
  fc_isolate :: u32
  fc_handle :: u32

definition nvkvm_virtio_present ::
  "send_env \<Rightarrow> fd_ctx option \<Rightarrow> u32 \<Rightarrow> u32 \<Rightarrow> u32 \<Rightarrow> u32 \<Rightarrow> u32 \<Rightarrow> u64 \<Rightarrow> guest \<Rightarrow> int \<times> guest" where
  "nvkvm_virtio_present env ctx stub_handle width height pitch format modifier g =
    (case ctx of
       None \<Rightarrow> (neg EBADF, g)
     | Some c \<Rightarrow>
        (case issue True False env (Present (fc_isolate c) (fc_handle c) stub_handle width height pitch format (fc_session c) modifier) [] g of
           (ret, ifl, g1) \<Rightarrow> (ret, g1)))"

definition nvkvm_virtio_xiso_import ::
  "send_env \<Rightarrow> fd_ctx option \<Rightarrow> u32 \<Rightarrow> u32 \<Rightarrow> u32 \<Rightarrow> guest \<Rightarrow> int \<times> u32 option \<times> guest" where
  "nvkvm_virtio_xiso_import env ctx oi oh og g =
    (case ctx of
       None \<Rightarrow> (neg EBADF, None, g)
     | Some c \<Rightarrow>
         if oi = 0 \<or> oh = 0 then (neg EINVAL, None, g)
         else id_result (simple_req env (Xiso_Import oi oh og (fc_isolate c) (fc_handle c)) [] g))"

definition nvkvm_virtio_copy_handle_to_isolate :: "send_env \<Rightarrow> u32 \<Rightarrow> u32 \<Rightarrow> guest \<Rightarrow> int \<times> guest" where
  "nvkvm_virtio_copy_handle_to_isolate env h i g = ret_only (simple_req env (Copy_Handle_To_Isolate h i) [] g)"

definition nvkvm_virtio_close_handle_on_isolate :: "send_env \<Rightarrow> u32 \<Rightarrow> u32 \<Rightarrow> guest \<Rightarrow> int \<times> guest" where
  "nvkvm_virtio_close_handle_on_isolate env h i g = ret_only (simple_req env (Close_Handle_On_Isolate h i) [] g)"

definition nvkvm_virtio_close_handle :: "send_env \<Rightarrow> u32 \<Rightarrow> guest \<Rightarrow> int \<times> guest" where
  "nvkvm_virtio_close_handle env h g = ret_only (simple_req env (Close_Handle h) [] g)"

definition nvkvm_virtio_kill_isolate :: "send_env \<Rightarrow> u32 \<Rightarrow> guest \<Rightarrow> int \<times> guest" where
  "nvkvm_virtio_kill_isolate env i g = ret_only (simple_req env (Kill_Isolate i) [] g)"

definition nvkvm_virtio_interrupt_isolate :: "send_env \<Rightarrow> u32 \<Rightarrow> u32 \<Rightarrow> guest \<Rightarrow> int \<times> guest" where
  "nvkvm_virtio_interrupt_isolate env i txn g = ret_only (simple_req env (Interrupt i txn) [] g)"

definition nvkvm_virtio_munmap_on_isolate :: "send_env \<Rightarrow> u32 \<Rightarrow> u32 \<Rightarrow> guest \<Rightarrow> int \<times> guest" where
  "nvkvm_virtio_munmap_on_isolate env i tok g = ret_only (simple_req env (Munmap_On_Isolate i tok) [] g)"

definition nvkvm_virtio_open_memory_handle :: "send_env \<Rightarrow> u32 \<Rightarrow> u64 \<Rightarrow> guest \<Rightarrow> int \<times> u32 option \<times> guest" where
  "nvkvm_virtio_open_memory_handle env session sz g = id_result (simple_req env (Open_Memory_Handle sz session 0) [] g)"

definition nvkvm_virtio_write_memory_handle :: "send_env \<Rightarrow> u32 \<Rightarrow> u64 \<Rightarrow> u32 \<Rightarrow> u32 \<Rightarrow> guest \<Rightarrow> int \<times> guest" where
  "nvkvm_virtio_write_memory_handle env h off slot sz g =
    (case issue False False env (Write_Memory_Handle h slot off sz) [] g of (ret, ifl, g1) \<Rightarrow> (ret, g1))"

definition nvkvm_virtio_read_memory_handle :: "send_env \<Rightarrow> u32 \<Rightarrow> u64 \<Rightarrow> u32 \<Rightarrow> u32 \<Rightarrow> guest \<Rightarrow> int \<times> guest" where
  "nvkvm_virtio_read_memory_handle env h off slot sz g =
    (case issue False False env (Read_Memory_Handle h slot off sz) [] g of (ret, ifl, g1) \<Rightarrow> (ret, g1))"

definition nvkvm_virtio_mmap_on_isolate ::
  "send_env \<Rightarrow> u32 \<Rightarrow> u32 \<Rightarrow> u64 \<Rightarrow> u64 \<Rightarrow> u64 \<Rightarrow> u32 \<Rightarrow> u32 \<Rightarrow> u32 \<Rightarrow> guest \<Rightarrow> int \<times> (u64 \<times> u32) option \<times> guest" where
  "nvkvm_virtio_mmap_on_isolate env i h gva off len prot flags session g =
    (case issue False False env (Mmap_On_Isolate i h gva off len prot flags session) [] g of
       (ret, ifl, g1) \<Rightarrow> (ret, if ret = 0 then Some (if_retval ifl, if_nvstatus ifl) else None, g1))"

definition nvkvm_virtio_realize_uvm_mapping ::
  "send_env \<Rightarrow> u32 \<Rightarrow> u32 \<Rightarrow> u32 \<Rightarrow> u32 \<Rightarrow> u64 \<Rightarrow> u64 \<Rightarrow> u64 \<Rightarrow> u32 \<Rightarrow> u32 \<Rightarrow> u32 \<Rightarrow> u32 \<Rightarrow> u32 \<Rightarrow> guest
     \<Rightarrow> int \<times> (u64 \<times> u64) option \<times> guest" where
  "nvkvm_virtio_realize_uvm_mapping env i h mode session gva len off prot flags state_slot intent_slot intent_size g =
    (case issue True True env (Realize_Uvm_Mapping i h mode session gva len off prot flags state_slot intent_slot intent_size) [] g of
       (ret, ifl, g1) \<Rightarrow> (ret, if ret = 0 then Some (if_retval ifl, if_fault ifl) else None, g1))"

definition nvkvm_virtio_read_host_file :: "send_env \<Rightarrow> u32 \<Rightarrow> u32 \<Rightarrow> u32 \<Rightarrow> guest \<Rightarrow> int \<times> u32 option \<times> guest" where
  "nvkvm_virtio_read_host_file env file_id slot max_len g =
    (case issue True True env (Read_Host_File file_id slot max_len 0) [] g of
       (ret, ifl, g1) \<Rightarrow> (ret, if ret = 0 then Some (ucast (if_retval ifl)) else None, g1))"

section \<open>Forwarding an ioctl\<close>

definition NVKVM_MAX_VMA_ENTRIES :: nat where "NVKVM_MAX_VMA_ENTRIES = 1024"

definition vma_bytes :: "(u64 \<times> u64 \<times> u32) list \<Rightarrow> u8 list" where
  "vma_bytes vmas = concat (map (\<lambda>(s, e, p). enc [F64 s, F64 e, F32 p, F32 0]) vmas)"

text \<open>Taking a slot and filling it; the slot taken is returned also when its address is not usable.\<close>

definition put_slot :: "u8 list \<Rightarrow> guest \<Rightarrow> errno option \<times> nat option \<times> guest" where
  "put_slot bs g =
    (case nvkvm_slot_alloc g of
       (None, g1) \<Rightarrow> (Some ENOSPC, None, g1)
     | (Some s, g1) \<Rightarrow>
        (case nvkvm_slot_addr s g1 of
           None \<Rightarrow> (Some ENOMEM, Some s, g1)
         | Some b \<Rightarrow> (None, Some s, g1\<lparr>g_shm := st_bytes (g_shm g1) b bs\<rparr>)))"

text \<open>The list of the process's mappings is left out when no slot is free.\<close>

definition fill_vmas :: "(u64 \<times> u64 \<times> u32) list option \<Rightarrow> guest \<Rightarrow> nat \<times> nat option \<times> guest" where
  "fill_vmas mm g =
    (let vmas = (case mm of None \<Rightarrow> [] | Some vs \<Rightarrow> take NVKVM_MAX_VMA_ENTRIES vs) in
     if vmas = [] then (0, None, g)
     else case put_slot (vma_bytes vmas) g of
       (None, s, g1) \<Rightarrow> (length vmas, s, g1)
     | (Some _, s, g1) \<Rightarrow> (0, None, case s of None \<Rightarrow> g1 | Some i \<Rightarrow> nvkvm_slot_free i g1))"

definition free_slot_opt :: "nat option \<Rightarrow> guest \<Rightarrow> guest" where
  "free_slot_opt s g = (case s of None \<Rightarrow> g | Some i \<Rightarrow> nvkvm_slot_free i g)"

definition slot_word :: "nat option \<Rightarrow> u32" where
  "slot_word s = (case s of None \<Rightarrow> 0 | Some i \<Rightarrow> of_nat i)"

definition copy_out :: "nat option \<Rightarrow> u8 list \<Rightarrow> guest \<Rightarrow> u8 list" where
  "copy_out s bs g =
    (case s of None \<Rightarrow> bs
     | Some i \<Rightarrow> (case nvkvm_slot_addr i g of None \<Rightarrow> bs | Some b \<Rightarrow> ld_bytes (g_shm g) b (length bs)))"

text \<open>\<open>se\<close> answers the request itself, \<open>se'\<close> the interrupt that a signal may cause.\<close>

definition signal_interrupt :: "send_env \<Rightarrow> nvkvm_inflight \<Rightarrow> guest \<Rightarrow> guest" where
  "signal_interrupt env ifl g = snd (nvkvm_virtio_interrupt_isolate env (if_isolate ifl) (if_txn ifl) g)"

definition ioctl_slots ::
  "u8 list \<Rightarrow> nat \<Rightarrow> u8 list option \<Rightarrow> (u64 \<times> u64 \<times> u32) list option \<Rightarrow> guest
     \<Rightarrow> errno option \<times> nat option \<times> nat option \<times> nat \<times> nat option \<times> guest" where
  "ioctl_slots params aux_size aux mm g =
    (if length params > g_slot_size g \<or> aux_size > g_slot_size g then (Some EINVAL, None, None, 0, None, g)
     else case (if params \<noteq> [] then put_slot params g else (None, None, g)) of
       (Some e, ps, g1) \<Rightarrow> (Some e, ps, None, 0, None, g1)
     | (None, ps, g1) \<Rightarrow>
        (case (case aux of Some a \<Rightarrow> if aux_size > 0 then put_slot a g1 else (None, None, g1) | None \<Rightarrow> (None, None, g1)) of
           (Some e, as, g2) \<Rightarrow> (Some e, ps, as, 0, None, g2)
         | (None, as, g2) \<Rightarrow> (case fill_vmas mm g2 of (n, vs, g3) \<Rightarrow> (None, ps, as, n, vs, g3))))"

definition nvkvm_virtio_ioctl_on_isolate ::
  "send_env \<Rightarrow> send_env \<Rightarrow> fd_ctx \<Rightarrow> u32 \<Rightarrow> u8 list \<Rightarrow> nat \<Rightarrow> u8 list option \<Rightarrow> u32 \<Rightarrow> (u64 \<times> u64 \<times> u32) list option \<Rightarrow> guest
     \<Rightarrow> int \<times> u8 list \<times> u8 list option \<times> u64 option \<times> guest" where
  "nvkvm_virtio_ioctl_on_isolate se se' c cmd params aux_size aux flags mm g =
    (let (txn, g0) = nvkvm_txn_id_alloc g; ifl = (inflight_alloc_legacy txn)\<lparr>if_isolate := fc_isolate c\<rparr> in
     if txn = 0 then (neg EBUSY, params, aux, None, g0)
     else if \<not> sv_msg se \<or> \<not> sv_inf se then (neg ENOMEM, params, aux, None, g0)
     else case ioctl_slots params aux_size aux mm g0 of
       (err, ps, as, n, vs, g1) \<Rightarrow>
        (let done = (\<lambda>g. inflight_free ifl (free_slot_opt ps (free_slot_opt as (free_slot_opt vs g)))) in
         case err of
           Some e \<Rightarrow> (neg e, params, aux, None, done g1)
         | None \<Rightarrow>
            (let r = Ioctl_On_Isolate (fc_isolate c) (fc_handle c) cmd (of_nat (length params)) (slot_word ps)
                   (of_nat aux_size) (slot_word as) (of_nat n) (slot_word vs) flags (fc_session c) in
             case send_and_wait (signal_interrupt se') se (req_bytes txn r) ifl g1 of
               (ret, ifl1, g2) \<Rightarrow>
                 if ret < 0 then (ret, params, aux, None, done g2)
                 else (if if_status ifl1 \<noteq> 0 then - if_status ifl1 else sint (if_retval ifl1),
                       copy_out ps params g2, map_option (\<lambda>a. copy_out as a g2) aux, Some (if_fault ifl1), done g2))))"

section \<open>Events\<close>

text \<open>A buffer returned on the event queue: delivered if it is long enough, and posted again.\<close>

definition nvkvm_evt_callback :: "(u8 list \<times> nat) list \<Rightarrow> (u32 \<times> u32 \<times> u32) list" where
  "nvkvm_evt_callback used =
    concat (map (\<lambda>(bs, len). if len \<ge> layout_size struct_evt_poll
       then (let fs = dec struct_evt_poll bs in [(f32 (fs ! 0), f32 (fs ! 1), f32 (fs ! 2))]) else []) used)"

section \<open>Transaction numbers\<close>

lemma mask12: "(0xFFF :: u32) = mask 12"
  by (simp add: mask_eq_exp_minus_1)

lemma txn_word_low: "slot < 4096 \<Longrightarrow> unat (txn_word seed slot AND 0xFFF) = slot"
proof -
  assume s: "slot < 4096"
  have "txn_word seed slot AND 0xFFF = take_bit 12 (of_nat slot)"
    unfolding txn_word_def mask12 by (rule bit_word_eqI) (auto simp: bit_simps)
  then show ?thesis using s by (simp add: unsigned_take_bit_eq unsigned_of_nat take_bit_nat_eq_self_iff)
qed

lemma txn_slot_less: "txn_slot seed tries < 4096"
  by (simp add: txn_slot_def NVKVM_MAX_INFLIGHT_def)

text \<open>The slot of a number is its low twelve bits.\<close>

definition txn_key :: "u32 \<Rightarrow> nat" where
  "txn_key txn = unat (txn AND 0xFFF)"

lemma txn_alloc_cases:
  assumes "nvkvm_txn_id_alloc g = (txn, g1)" and "txn \<noteq> 0"
  shows "0 < txn_key txn \<and> txn_key txn < 4096 \<and> \<not> g_txn g (txn_key txn)
     \<and> g1 = g\<lparr>g_next_txn := g_next_txn g + 1, g_txn := (g_txn g)(txn_key txn := True)\<rparr>"
proof -
  obtain t where f: "find (\<lambda>tries. txn_slot (g_next_txn g + 1) tries \<noteq> 0 \<and> \<not> g_txn g (txn_slot (g_next_txn g + 1) tries))
      [0..<NVKVM_MAX_INFLIGHT] = Some t"
    using assms by (auto simp: nvkvm_txn_id_alloc_def Let_def split: option.splits)
  let ?s = "txn_slot (g_next_txn g + 1) t"
  have "?s \<noteq> 0 \<and> \<not> g_txn g ?s" using f by (auto simp: find_Some_iff)
  moreover have "txn = txn_word (g_next_txn g + 1) ?s"
      "g1 = g\<lparr>g_next_txn := g_next_txn g + 1, g_txn := (g_txn g)(?s := True)\<rparr>"
    using assms f by (simp_all add: nvkvm_txn_id_alloc_def Let_def)
  moreover have "txn_key (txn_word (g_next_txn g + 1) ?s) = ?s"
    unfolding txn_key_def by (rule txn_word_low [OF txn_slot_less])
  ultimately show ?thesis using txn_slot_less by simp
qed

lemma txn_free_alloc:
  assumes "nvkvm_txn_id_alloc g = (txn, g1)" and "txn \<noteq> 0" and "g_txn g2 = g_txn g1"
  shows "g_txn (nvkvm_txn_id_free txn g2) = g_txn g"
  using txn_alloc_cases [OF assms(1,2)] assms(3)
  by (auto simp: nvkvm_txn_id_free_def Let_def txn_key_def [symmetric] fun_eq_iff)

definition txn_live :: "guest \<Rightarrow> nat \<rightharpoonup> unit" where
  "txn_live g k = (if 0 < k \<and> k < 4096 \<and> g_txn g k then Some () else None)"

definition txn_take :: "unit \<Rightarrow> guest \<Rightarrow> (nat \<times> guest) option" where
  "txn_take u g = (case nvkvm_txn_id_alloc g of (txn, g1) \<Rightarrow> if txn = 0 then None else Some (txn_key txn, g1))"

definition txn_give :: "nat \<Rightarrow> guest \<Rightarrow> guest option" where
  "txn_give k g = (if txn_live g k = None then None else Some (nvkvm_txn_id_free (of_nat k) g))"

interpretation gt: slot_table "\<lambda>g. True" txn_live txn_take txn_give
proof
  show "True \<and> txn_live g k = None \<and> txn_live g' = (txn_live g)(k \<mapsto> v)" if "txn_take v g = Some (k, g')" for g v k g'
    using that txn_alloc_cases [of g _ g'] by (auto simp: txn_take_def txn_live_def fun_eq_iff split: prod.splits if_splits)
  show "True \<and> txn_live g k \<noteq> None \<and> txn_live g' = (txn_live g)(k := None)" if "txn_give k g = Some g'" for g k g'
  proof -
    have k: "0 < k" "k < 4096" using that by (auto simp: txn_give_def txn_live_def split: if_splits)
    then have "unat (of_nat k AND 0xFFF :: u32) = k"
      unfolding mask12 by (simp add: unsigned_take_bit_eq unsigned_of_nat take_bit_nat_eq_self_iff flip: take_bit_eq_mask)
    then show ?thesis using that k by (auto simp: txn_give_def txn_live_def nvkvm_txn_id_free_def fun_eq_iff split: if_splits)
  qed
qed

section \<open>Slots of the shared memory\<close>

definition gslot_live :: "guest \<Rightarrow> nat \<rightharpoonup> unit" where
  "gslot_live g k = (if 0 < k \<and> k < NVKVM_SHM_NSLOTS \<and> g_slots g k then Some () else None)"

definition gslot_take :: "unit \<Rightarrow> guest \<Rightarrow> (nat \<times> guest) option" where
  "gslot_take u g = (case nvkvm_slot_alloc g of (None, g1) \<Rightarrow> None | (Some k, g1) \<Rightarrow> Some (k, g1))"

definition gslot_give :: "nat \<Rightarrow> guest \<Rightarrow> guest option" where
  "gslot_give k g = (if gslot_live g k = None then None else Some (nvkvm_slot_free k g))"

lemma slot_alloc_cases:
  assumes "nvkvm_slot_alloc g = (Some k, g1)"
  shows "0 < k \<and> k < NVKVM_SHM_NSLOTS \<and> \<not> g_slots g k \<and> g1 = g\<lparr>g_slots := (g_slots g)(k := True)\<rparr>"
  using assms by (auto simp: nvkvm_slot_alloc_def find_Some_iff split: option.splits)

interpretation gs: slot_table "\<lambda>g. True" gslot_live gslot_take gslot_give
proof
  show "True \<and> gslot_live g k = None \<and> gslot_live g' = (gslot_live g)(k \<mapsto> v)" if "gslot_take v g = Some (k, g')" for g v k g'
    using that by (auto simp: gslot_take_def gslot_live_def fun_eq_iff split: prod.splits option.splits if_splits dest!: slot_alloc_cases)
  show "True \<and> gslot_live g k \<noteq> None \<and> gslot_live g' = (gslot_live g)(k := None)" if "gslot_give k g = Some g'" for g k g'
    using that by (auto simp: gslot_give_def gslot_live_def nvkvm_slot_free_def fun_eq_iff split: if_splits)
qed

section \<open>The guest and the device together\<close>

definition device_host :: "tx_env \<Rightarrow> nvgpu \<Rightarrow> u8 list \<Rightarrow> mem \<Rightarrow> u8 list \<times> mem" where
  "device_host te nv bs shm =
    (case handle_element te bs NVKVM_RESP_BUF_SIZE (nv\<lparr>nd_shm := shm\<rparr>) of
       Some (Push out n notified, nv1) \<Rightarrow> (out, nd_shm nv1)
     | _ \<Rightarrow> ([], shm))"

definition on_device :: "tx_env \<Rightarrow> nvgpu \<Rightarrow> send_env" where
  "on_device te nv = \<lparr>sv_msg = True, sv_inf = True, sv_resp = True, sv_add = None, sv_signal = False, sv_host = device_host te nv\<rparr>"

definition ret_of :: "'a result \<Rightarrow> int" where
  "ret_of r = (case r of Inl e \<Rightarrow> neg e | Inr _ \<Rightarrow> 0)"

definition val_of :: "'a result \<Rightarrow> 'a option" where
  "val_of r = (case r of Inl e \<Rightarrow> None | Inr v \<Rightarrow> Some v)"

lemma ret_val_simps [simp]:
  "ret_of (Inl e) = neg e" "ret_of (Inr v) = 0" "val_of (Inl e) = None" "val_of (Inr v) = Some v" "neg e \<noteq> 0"
  using errno_no_bounds(1) [of e] by (simp_all add: ret_of_def val_of_def neg_def)

lemma device_host_sync:
  assumes "handle_request te r (nv\<lparr>nd_shm := shm\<rparr>) = Some (fs, nv1)" and "8 + length (enc fs) \<le> 512"
  shows "device_host te nv (req_bytes txn r @ extra) shm = (hdr_bytes (req_type r) txn @ enc fs, nd_shm nv1)"
proof -
  have "handle_element te (req_bytes txn r @ extra) 512 (nv\<lparr>nd_shm := shm\<rparr>) = Some (push_reply (req_type r) txn 512 fs, nv1)"
    using assms(1) read_request_extra [of txn r extra] handle_request.simps(9,20)
    by (cases r) (auto simp: handle_element_def simp del: handle_request.simps)
  then show ?thesis using assms(2)
    by (simp add: device_host_def NVKVM_RESP_BUF_SIZE_def push_reply_def Let_def hdr_bytes_def length_enc layout_size_def)
qed

text \<open>What a request that the device answers at once comes back as.\<close>

definition answer :: "nvkvm_req \<Rightarrow> u32 \<Rightarrow> field list \<Rightarrow> nvkvm_inflight" where
  "answer r txn fs = nvkvm_tx_done (hdr_bytes (req_type r) txn @ enc fs) (inflight_alloc_legacy txn)"

lemma issue_on_device:
  assumes "handle_request te r (nv\<lparr>nd_shm := g_shm g\<rparr>) = Some (fs, nv1)" and "8 + length (enc fs) \<le> 512"
    and a: "nvkvm_txn_id_alloc g = (txn, g1)" and "txn \<noteq> 0"
  shows "\<exists>g2. issue fm fi (on_device te nv) r extra g
      = (- if_status (answer r txn fs), answer r txn fs, g2) \<and> g_txn g2 = g_txn g"
proof -
  have shm: "g_shm g1 = g_shm g" using txn_alloc_cases [OF a assms(4)] by simp
  note d = device_host_sync [OF assms(1,2), of txn extra]
  have txn: "if_txn (answer r txn fs) = txn"
    by (simp add: answer_def nvkvm_tx_done_def Let_def inflight_alloc_legacy_def)
  have t: "take 512 (hdr_bytes (req_type r) txn @ enc fs) = hdr_bytes (req_type r) txn @ enc fs"
    using assms(2) by (simp add: hdr_bytes_def length_enc layout_size_def)
  show ?thesis
    by (rule exI [of _ "nvkvm_txn_id_free txn (inflight_dequeue (inflight_alloc_legacy txn)
        ((inflight_enqueue (inflight_alloc_legacy txn) g1)\<lparr>g_shm := nd_shm nv1\<rparr>))"])
      (use assms(4) d t txn shm in \<open>simp add: issue_def a send_and_wait_def on_device_def Let_def
        NVKVM_RESP_BUF_SIZE_def answer_def inflight_free_def inflight_enqueue_def no_interrupt_def
        inflight_alloc_legacy_def [of txn, THEN arg_cong, of if_isolate] txn_free_alloc [OF a] inflight_dequeue_def\<close>)
qed

lemma hdr_read [simp]:
  "le32_to_cpu (hdr_bytes ty txn @ bs) = ty" "drop 8 (hdr_bytes ty txn @ bs) = bs"
  by (simp_all add: hdr_bytes_def enc_def)

lemma dec_enc_all [simp]: "map width_of fs = ws \<Longrightarrow> dec ws (enc fs) = fs"
  using dec_enc [of fs ws "[]"] by simp

lemmas resp_defs = struct_open_resp_def struct_memory_resp_def struct_xiso_resp_def struct_close_resp_def struct_create_resp_def
  struct_kill_resp_def struct_ring_resp_def struct_loop_resp_def struct_present_resp_def struct_copy_resp_def
  struct_close_on_resp_def struct_ioctl_resp_def struct_mmap_resp_def struct_munmap_resp_def struct_write_resp_def
  struct_read_resp_def struct_hostfile_resp_def struct_realize_resp_def

lemma widths_reply [simp]:
  "map width_of (id_reply r) = [W32, W32]" "map width_of (status_reply q) = [W32, W32]"
  "map width_of (ring_reply t) = [W64, W32, W32, W32, W32, W32, W32]" "map width_of (mmap_reply m) = [W64, W64, W32, W32]"
  by (auto simp: id_reply_def status_reply_def ring_reply_def mmap_reply_def split: sum.splits)

lemma reply_fits:
  "8 + length (enc (id_reply r)) \<le> 512" "8 + length (enc (status_reply q)) \<le> 512" "8 + length (enc (ring_reply t)) \<le> 512"
  "8 + length (enc (mmap_reply m)) \<le> 512" "8 + length (enc [F32 a, F32 b]) \<le> 512"
  by (simp_all add: length_enc layout_size_def)

lemma answer_id:
  assumes "req_type q \<in> {11, 12, 14}"
  shows "- if_status (answer q txn (id_reply r)) = ret_of r" and "r = Inr h \<Longrightarrow> if_retval (answer q txn (id_reply r)) = ucast h"
  using assms by (auto simp: answer_def nvkvm_tx_done_def Let_def resp_defs int_of_le32_def id_reply_def neg_def
    inflight_alloc_legacy_def simp del: dec.simps drop_append split: sum.splits)

lemma answer_status:
  assumes "req_type q \<in> {13, 15, 16, 17, 20, 23, 24, 30}"
  shows "- if_status (answer q txn (status_reply r)) = ret_of r"
  using assms by (auto simp: answer_def nvkvm_tx_done_def Let_def resp_defs int_of_le32_def status_reply_def neg_def
    inflight_alloc_legacy_def simp del: dec.simps drop_append split: sum.splits)

lemma answer_ring:
  assumes "req_type q = 28"
  shows "- if_status (answer q txn (ring_reply r)) = ret_of r"
    and "r = Inr (gpa, region, req_off, resp_off, bytes) \<Longrightarrow>
      if_retval (answer q txn (ring_reply r)) = of_nat gpa \<and> if_nvstatus (answer q txn (ring_reply r)) = bytes"
  using assms by (auto simp: answer_def nvkvm_tx_done_def Let_def resp_defs int_of_le32_def ring_reply_def neg_def
    inflight_alloc_legacy_def simp del: dec.simps drop_append split: sum.splits)

lemma answer_mmap:
  assumes "req_type q = 19"
  shows "- if_status (answer q txn (mmap_reply r)) = ret_of r"
    and "r = Inr (token, gpa, len) \<Longrightarrow>
      if_retval (answer q txn (mmap_reply r)) = of_nat gpa \<and> if_nvstatus (answer q txn (mmap_reply r)) = of_nat token"
  using assms by (auto simp: answer_def nvkvm_tx_done_def Let_def resp_defs int_of_le32_def mmap_reply_def neg_def
    inflight_alloc_legacy_def simp del: dec.simps drop_append split: sum.splits)

lemma simple_on_device:
  assumes "handle_request te r (nv\<lparr>nd_shm := g_shm g\<rparr>) = Some (fs, nv1)" and "8 + length (enc fs) \<le> 512"
    and "fst (nvkvm_txn_id_alloc g) \<noteq> 0"
  shows "\<exists>txn. fst (simple_req (on_device te nv) r extra g) = - if_status (answer r txn fs)
     \<and> fst (snd (simple_req (on_device te nv) r extra g)) = (if if_status (answer r txn fs) = 0 then if_retval (answer r txn fs) else 0)
     \<and> g_txn (snd (snd (simple_req (on_device te nv) r extra g))) = g_txn g"
proof -
  obtain txn g1 where a: "nvkvm_txn_id_alloc g = (txn, g1)" by fastforce
  with assms(3) have "txn \<noteq> 0" by simp
  from issue_on_device [OF assms(1,2) a this, of False False extra] show ?thesis
    by (intro exI [of _ txn]) (auto simp: simple_req_def)
qed

lemma id_request_on_device:
  assumes "handle_request te q (nv\<lparr>nd_shm := g_shm g\<rparr>) = Some (id_reply r, nv1)" and "req_type q \<in> {11, 12, 14}"
    and "fst (nvkvm_txn_id_alloc g) \<noteq> 0"
  shows "\<exists>g1. id_result (simple_req (on_device te nv) q extra g) = (ret_of r, val_of r, g1) \<and> g_txn g1 = g_txn g"
proof -
  from simple_on_device [OF assms(1) reply_fits(1) assms(3), of extra] answer_id [OF assms(2), where r = r] show ?thesis
    by (cases r) (auto simp: id_result_def split_beta ucast_up_ucast_id is_up)
qed

lemma status_request_on_device:
  assumes "handle_request te q (nv\<lparr>nd_shm := g_shm g\<rparr>) = Some (status_reply r, nv1)"
    and "req_type q \<in> {13, 15, 16, 17, 20, 23, 24, 30}" and "fst (nvkvm_txn_id_alloc g) \<noteq> 0"
  shows "\<exists>g1. ret_only (simple_req (on_device te nv) q extra g) = (ret_of r, g1) \<and> g_txn g1 = g_txn g"
  using simple_on_device [OF assms(1) reply_fits(2) assms(3), of extra] answer_status [OF assms(2), where r = r]
  by (auto simp: ret_only_def split_beta)

lemma issue_ring_on_device:
  assumes "fst (nvkvm_txn_id_alloc g) \<noteq> 0"
  shows "\<exists>g1. nvkvm_virtio_setup_ring (on_device te nv) s g =
      (ret_of (nvkvm_req_setup_ring s (nd_dev nv)),
       map_option (\<lambda>(gpa, _, _, _, bytes). (of_nat gpa, bytes)) (val_of (nvkvm_req_setup_ring s (nd_dev nv))), g1) \<and> g_txn g1 = g_txn g"
proof -
  let ?r = "nvkvm_req_setup_ring s (nd_dev nv)"
  obtain txn g1 where a: "nvkvm_txn_id_alloc g = (txn, g1)" by fastforce
  with assms have t: "txn \<noteq> 0" by simp
  have h: "handle_request te (Setup_Ring s) (nv\<lparr>nd_shm := g_shm g\<rparr>) = Some (ring_reply ?r, nv\<lparr>nd_shm := g_shm g\<rparr>)" by simp
  from issue_on_device [OF h reply_fits(3) a t, of True False "[]"]
    answer_ring [where q = "Setup_Ring s" and txn = txn and r = ?r]
  show ?thesis by (cases ?r) (auto simp: nvkvm_virtio_setup_ring_def)
qed

lemma issue_mmap_on_device:
  assumes "fst (nvkvm_txn_id_alloc g) \<noteq> 0"
    and r: "fst (mmap_on_isolate (te_win te) (te_mmap te) (te_stub te) \<lparr>mm_isolate = i, mm_handle = h, mm_gva = unat gva,
      mm_offset = unat off, mm_length = unat len, mm_prot = p, mm_flags = fl\<rparr> (nd_dev nv)) = r"
  shows "\<exists>g1. nvkvm_virtio_mmap_on_isolate (on_device te nv) i h gva off len p fl s g =
      (ret_of r, map_option (\<lambda>(token, gpa, _). (of_nat gpa, of_nat token)) (val_of r), g1) \<and> g_txn g1 = g_txn g"
proof -
  obtain txn g1 where a: "nvkvm_txn_id_alloc g = (txn, g1)" by fastforce
  with assms have t: "txn \<noteq> 0" by simp
  obtain d ops where m: "mmap_on_isolate (te_win te) (te_mmap te) (te_stub te) \<lparr>mm_isolate = i, mm_handle = h, mm_gva = unat gva,
      mm_offset = unat off, mm_length = unat len, mm_prot = p, mm_flags = fl\<rparr> (nd_dev nv) = (r, d, ops)"
    using r by (metis prod.collapse)
  have h: "handle_request te (Mmap_On_Isolate i h gva off len p fl s) (nv\<lparr>nd_shm := g_shm g\<rparr>)
      = Some (mmap_reply r, set_dev d (nv\<lparr>nd_shm := g_shm g\<rparr>))" by (simp add: m)
  from issue_on_device [OF h reply_fits(4) a t, of False False "[]"]
    answer_mmap [where q = "Mmap_On_Isolate i h gva off len p fl s" and txn = txn and r = r]
  show ?thesis by (cases r) (auto simp: nvkvm_virtio_mmap_on_isolate_def)
qed


definition exg_guest :: guest where
  "exg_guest = \<lparr>g_next_txn = 0, g_txn = (\<lambda>_. False), g_list = [], g_slots = (\<lambda>i. i = 0), g_mapped = True, g_shm = (\<lambda>_. 0),
     g_slot_size = 65536\<rparr>"

lemma txn_alloc_free:
  assumes "txn_slot (g_next_txn g + 1) 0 \<noteq> 0" and "\<not> g_txn g (txn_slot (g_next_txn g + 1) 0)"
  shows "nvkvm_txn_id_alloc g = (txn_word (g_next_txn g + 1) (txn_slot (g_next_txn g + 1) 0),
     g\<lparr>g_next_txn := g_next_txn g + 1, g_txn := (g_txn g)(txn_slot (g_next_txn g + 1) 0 := True)\<rparr>)"
proof -
  have "0 < NVKVM_MAX_INFLIGHT" by (simp add: NVKVM_MAX_INFLIGHT_def)
  from upt_conv_Cons [OF this] show ?thesis using assms by (simp add: nvkvm_txn_id_alloc_def Let_def)
qed

lemma exg_txn: "nvkvm_txn_id_alloc exg_guest = (1, exg_guest\<lparr>g_next_txn := 1, g_txn := (\<lambda>_. False)(1 := True)\<rparr>)"
  using txn_alloc_free [of exg_guest]
  by (simp add: exg_guest_def txn_slot_def NVKVM_MAX_INFLIGHT_def txn_word_def)

lemma exg_ring: "nvkvm_req_setup_ring 7 exd_up = Inr (NVKVM_SPARSE_GPA_BASE, 135168, 0, 65792, 65536)"
  by (simp add: nvkvm_req_setup_ring_def session_first_isolate_def nvkvm_session_find_def exd_up_def
    nvkvm_isolate_ring_info_def bad_isolate_def NVKVM_ISOLATE_MAX_def iso_valid_def iso_at_def Let_def)
    (simp add: exd_isolate_def NVKVM_SPARSE_GPA_BASE_def ring_region_val NVKVM_RING_DEFAULT_BYTES_def
      nvkvm_ring_resp_off_def sizeof_ring_def)

lemma exg_memory: "fst (nvkvm_req_open_memory_handle (te_memfd ext_env) (te_trunc ext_env) 7 4096 exd_up) = Inl EIO"
  by (simp add: nvkvm_req_open_memory_handle_def nvkvm_handle_open_memory_def ext_env_def split: prod.splits option.splits)


section \<open>Polling and interrupts\<close>

lemma answer_other: "req_type q \<in> {21, 22, 27} \<Longrightarrow> if_status (answer q txn fs) = 22"
  by (auto simp: answer_def nvkvm_tx_done_def Let_def)

lemma other_on_device:
  assumes "handle_request te q (nv\<lparr>nd_shm := g_shm g\<rparr>) = Some (status_reply r, nv1)" and "req_type q \<in> {21, 22, 27}"
    and "fst (nvkvm_txn_id_alloc g) \<noteq> 0"
  shows "fst (ret_only (simple_req (on_device te nv) q extra g)) = neg EINVAL"
  using simple_on_device [OF assms(1) reply_fits(2) assms(3), of extra] answer_other [OF assms(2)]
  by (auto simp: ret_only_def split_beta neg_def)

text \<open>Arming or disarming the poll of an event and interrupting an ioctl always fail in the guest.  The callback that
  unpacks the answers has no case for these three requests and sets the status to EINVAL, so the calls return
  -EINVAL also when the device and the stub have done what was asked.
\<close>

lemma poll_and_interrupt_report_failure:
  assumes free: "fst (nvkvm_txn_id_alloc g) \<noteq> 0" and ok: "te_stub te = Inr ()"
    and live: "iso_valid i (d_iso (nd_dev nv))" "is_sock (iso_at i (d_iso (nd_dev nv))) \<ge> 0"
  shows "nvkvm_isolate_poll (te_stub te) i (d_iso (nd_dev nv)) = Inr () \<and> nvkvm_isolate_unpoll (te_stub te) i (d_iso (nd_dev nv)) = Inr ()
     \<and> nvkvm_isolate_interrupt (te_stub te) i (d_iso (nd_dev nv)) = Inr ()
     \<and> fst (nvkvm_virtio_poll_arm (on_device te nv) i h arm g) = neg EINVAL
     \<and> fst (nvkvm_virtio_interrupt_isolate (on_device te nv) i txn g) = neg EINVAL"
proof (intro conjI)
  show "nvkvm_isolate_poll (te_stub te) i (d_iso (nd_dev nv)) = Inr ()" "nvkvm_isolate_unpoll (te_stub te) i (d_iso (nd_dev nv)) = Inr ()"
      "nvkvm_isolate_interrupt (te_stub te) i (d_iso (nd_dev nv)) = Inr ()"
    using ok live by (simp_all add: nvkvm_isolate_poll_def nvkvm_isolate_unpoll_def nvkvm_isolate_interrupt_def isolate_call_def)
  show "fst (nvkvm_virtio_poll_arm (on_device te nv) i h arm g) = neg EINVAL"
    unfolding nvkvm_virtio_poll_arm_def by (cases arm; simp only: if_True if_False; rule other_on_device [OF _ _ free]; simp)
  show "fst (nvkvm_virtio_interrupt_isolate (on_device te nv) i txn g) = neg EINVAL"
    unfolding nvkvm_virtio_interrupt_isolate_def by (rule other_on_device [OF _ _ free]) simp_all
qed

section \<open>A forwarded ioctl, end to end\<close>

text \<open>The worker of the device as the host of an ioctl request.\<close>

definition ioctl_host :: "ioctl_env \<Rightarrow> nvgpu \<Rightarrow> u8 list \<Rightarrow> mem \<Rightarrow> u8 list \<times> mem" where
  "ioctl_host ie nv bs shm =
    (case read_request bs of
       Request txn (Ioctl_On_Isolate i h cmd ps sl as asl n vsl fl s) \<Rightarrow>
        (let nv0 = nv\<lparr>nd_shm := shm\<rparr>;
             w = make_ioctl_work nv0 txn i h cmd ps sl as asl fl;
             (out, nv1) = nvkvm_ioctl_work_fn ie shm w nv0
         in (hdr_bytes 18 txn @ enc (ioctl_reply (io_resp out)), nd_shm nv1))
     | _ \<Rightarrow> ([], shm))"

definition buffer :: "u8 list \<Rightarrow> mem" where
  "buffer bs i = (if i < length bs then bs ! i else 0)"

definition buffer_opt :: "u8 list \<Rightarrow> mem option" where
  "buffer_opt bs = (if bs = [] then None else Some (buffer bs))"

definition resp_ret :: "ioctl_resp \<Rightarrow> int" where
  "resp_ret r = (case rs_status r of Some e \<Rightarrow> neg e
     | None \<Rightarrow> (case rs_retval r of Inl e \<Rightarrow> neg e | Inr v \<Rightarrow> sint v))"

definition written :: "mem option \<Rightarrow> u8 list \<Rightarrow> u8 list" where
  "written p bs = (case p of None \<Rightarrow> bs | Some m \<Rightarrow> ld_bytes m 0 (length bs))"

lemma put_slot_ok:
  assumes "put_slot bs g = (None, s, g1)"
  shows "\<exists>k. s = Some k \<and> 0 < k \<and> k < 256 \<and> \<not> g_slots g k \<and> g_mapped g
     \<and> g1 = g\<lparr>g_slots := (g_slots g)(k := True), g_shm := st_bytes (g_shm g) (k * g_slot_size g) bs\<rparr>"
  using assms by (auto simp: put_slot_def nvkvm_slot_addr_def NVKVM_SHM_NSLOTS_def
    split: prod.splits option.splits if_splits dest!: slot_alloc_cases)

lemma slot_regions_disjoint:
  assumes "k \<noteq> (l :: nat)" and "i < sz" and "j < sz"
  shows "k * sz + i \<noteq> l * sz + j"
proof
  assume "k * sz + i = l * sz + j"
  then have "(k * sz + i) div sz = (l * sz + j) div sz" by simp
  then show False using assms by simp
qed

lemma ld_bytes_st_same: "length bs = n \<Longrightarrow> ld_bytes (st_bytes m b bs) b n = bs"
  using ld_st_bytes_same by blast

lemma ld_bytes_st_other:
  assumes "k \<noteq> l" and "n \<le> sz" and "length bs \<le> sz"
  shows "ld_bytes (st_bytes m (l * sz) bs) (k * sz) n = ld_bytes m (k * sz) n"
proof (rule ld_bytes_cong)
  fix i assume i: "i < n"
  have "\<not> (l * sz \<le> k * sz + i \<and> k * sz + i < l * sz + length bs)"
  proof
    assume *: "l * sz \<le> k * sz + i \<and> k * sz + i < l * sz + length bs"
    then have "k * sz + i = l * sz + (k * sz + i - l * sz)" "k * sz + i - l * sz < sz" using assms(3) by auto
    then show False using slot_regions_disjoint [OF assms(1), of i sz "k * sz + i - l * sz"] i assms(2) by linarith
  qed
  then show "st_bytes m (l * sz) bs (k * sz + i) = m (k * sz + i)" unfolding st_bytes_def by (rule if_not_P)
qed

lemma snapshot_ld: "snapshot m b n = buffer (ld_bytes m b n)"
  by (auto simp: snapshot_def buffer_def)

lemma length_vma_bytes: "length (vma_bytes vmas) = 24 * length vmas"
  by (induction vmas) (auto simp: vma_bytes_def length_enc layout_size_def)

text \<open>The slots that a successful preparation leaves: each is fresh, and the bytes are where they belong.\<close>

definition slot_holds :: "guest \<Rightarrow> nat option \<Rightarrow> u8 list \<Rightarrow> bool" where
  "slot_holds g s bs = (case s of None \<Rightarrow> bs = []
     | Some k \<Rightarrow> bs \<noteq> [] \<and> 0 < k \<and> k < 256 \<and> ld_bytes (g_shm g) (k * g_slot_size g) (length bs) = bs)"

lemma slot_holds_put:
  assumes h: "slot_holds g s bs" "\<And>k. s = Some k \<Longrightarrow> g_slots g k" and p: "put_slot cs g = (None, t, g1)"
    and l: "length bs \<le> g_slot_size g" "length cs \<le> g_slot_size g"
  shows "slot_holds g1 s bs" and "\<And>k. s = Some k \<Longrightarrow> g_slots g1 k" and "s \<noteq> None \<Longrightarrow> t \<noteq> s"
    and "cs \<noteq> [] \<Longrightarrow> slot_holds g1 t cs" and "\<And>k. t = Some k \<Longrightarrow> g_slots g1 k" and "g_slot_size g1 = g_slot_size g"
    and "g_mapped g1"
proof -
  obtain j where j: "t = Some j" "0 < j" "j < 256" "\<not> g_slots g j" "g_mapped g"
      "g1 = g\<lparr>g_slots := (g_slots g)(j := True), g_shm := st_bytes (g_shm g) (j * g_slot_size g) cs\<rparr>"
    using put_slot_ok [OF p] by blast
  show "slot_holds g1 s bs"
  proof (cases s)
    case (Some k)
    then have "k \<noteq> j" using h(2) j(4) by auto
    then show ?thesis using h(1) Some ld_bytes_st_other [of k j "length bs" "g_slot_size g" cs] l
      by (auto simp: slot_holds_def j(6))
  qed (use h in \<open>simp add: slot_holds_def\<close>)
  show "g_slots g1 k" if "s = Some k" for k using h(2) [OF that] by (simp add: j(6))
  show "t \<noteq> s" if "s \<noteq> None" using h(2) j(1,4) by auto
  show "slot_holds g1 t cs" if "cs \<noteq> []" using that j by (simp add: slot_holds_def ld_bytes_st_same)
  show "g_slots g1 k" if "t = Some k" for k using that j by simp
  show "g_slot_size g1 = g_slot_size g" "g_mapped g1" using j by simp_all
qed

lemma fill_vmas_keeps:
  assumes h: "slot_holds g s bs" "\<And>k. s = Some k \<Longrightarrow> g_slots g k" "length bs \<le> g_slot_size g" "24576 \<le> g_slot_size g"
    and f: "fill_vmas mm g = (n, vs, g1)"
  shows "slot_holds g1 s bs" and "g_slot_size g1 = g_slot_size g" and "g_mapped g1 = g_mapped g"
proof -
  define vmas where "vmas = (case mm of None \<Rightarrow> [] | Some vs \<Rightarrow> take NVKVM_MAX_VMA_ENTRIES vs)"
  have "length vmas \<le> 1024" by (auto simp: vmas_def NVKVM_MAX_VMA_ENTRIES_def split: option.splits)
  then have len: "length (vma_bytes vmas) \<le> g_slot_size g" using h(4) by (simp add: length_vma_bytes)
  obtain e t g2 where p: "put_slot (vma_bytes vmas) g = (e, t, g2)" using prod_cases3 by blast
  have "slot_holds g1 s bs \<and> g_slot_size g1 = g_slot_size g \<and> g_mapped g1 = g_mapped g"
  proof (cases "vmas = []")
    case True
    then show ?thesis using f h by (simp add: fill_vmas_def vmas_def [symmetric])
  next
    case ne: False
    show ?thesis
    proof (cases e)
      case None
      then show ?thesis using f p ne slot_holds_put [OF h(1,2) _ h(3) len, of t g2] put_slot_ok [of "vma_bytes vmas" g t g2]
        by (auto simp: fill_vmas_def vmas_def [symmetric])
    next
      case (Some err)
      then have "g_shm g2 = g_shm g" "g_slot_size g2 = g_slot_size g" "g_mapped g2 = g_mapped g"
        using p by (auto simp: put_slot_def nvkvm_slot_alloc_def split: prod.splits option.splits)
      then show ?thesis using f p ne Some h(1)
        by (auto simp: fill_vmas_def vmas_def [symmetric] nvkvm_slot_free_def slot_holds_def split: option.splits)
    qed
  qed
  then show "slot_holds g1 s bs" "g_slot_size g1 = g_slot_size g" "g_mapped g1 = g_mapped g" by auto
qed

definition aux_list :: "u8 list option \<Rightarrow> u8 list" where
  "aux_list aux = (case aux of None \<Rightarrow> [] | Some a \<Rightarrow> a)"

lemma ioctl_slots_ok:
  assumes i: "ioctl_slots params (length (aux_list aux)) aux mm g = (None, ps, as, n, vs, g1)" and sz: "24576 \<le> g_slot_size g"
  shows "length params \<le> g_slot_size g \<and> length (aux_list aux) \<le> g_slot_size g
     \<and> slot_holds g1 ps params \<and> slot_holds g1 as (aux_list aux) \<and> (ps \<noteq> None \<longrightarrow> as \<noteq> ps)
     \<and> g_slot_size g1 = g_slot_size g \<and> (ps \<noteq> None \<or> as \<noteq> None \<longrightarrow> g_mapped g1)"
proof -
  define sp where "sp = (\<lambda>bs g. if bs \<noteq> [] then put_slot bs g else (None, None, g))"
  have l: "length params \<le> g_slot_size g" "length (aux_list aux) \<le> g_slot_size g"
    using i by (auto simp: ioctl_slots_def split: if_splits)
  have aux: "(case aux of Some a \<Rightarrow> if length (aux_list aux) > 0 then put_slot a g' else (None, None, g') | None \<Rightarrow> (None, None, g'))
      = sp (aux_list aux) g'" for g'
    by (auto simp: sp_def aux_list_def split: option.splits)
  obtain g2 g3 where s1: "sp params g = (None, ps, g2)" and s2: "sp (aux_list aux) g2 = (None, as, g3)"
    and s3: "fill_vmas mm g3 = (n, vs, g1)"
    using i l unfolding ioctl_slots_def aux by (auto simp: sp_def split: prod.splits option.splits if_splits)
  have h1: "slot_holds g2 ps params \<and> (\<forall>k. ps = Some k \<longrightarrow> g_slots g2 k) \<and> g_slot_size g2 = g_slot_size g \<and> (ps \<noteq> None \<longrightarrow> g_mapped g2)"
    using s1 slot_holds_put [of g None "[]" params ps g2] l by (auto simp: sp_def slot_holds_def split: if_splits)
  have h2: "slot_holds g3 ps params \<and> slot_holds g3 as (aux_list aux) \<and> (ps \<noteq> None \<longrightarrow> as \<noteq> ps) \<and> g_slot_size g3 = g_slot_size g
      \<and> (\<forall>k. ps = Some k \<longrightarrow> g_slots g3 k) \<and> (\<forall>k. as = Some k \<longrightarrow> g_slots g3 k) \<and> (ps \<noteq> None \<or> as \<noteq> None \<longrightarrow> g_mapped g3)"
  proof (cases "aux_list aux = []")
    case True
    then show ?thesis using s2 h1 by (auto simp: sp_def slot_holds_def)
  next
    case False
    then have "put_slot (aux_list aux) g2 = (None, as, g3)" using s2 by (simp add: sp_def)
    from slot_holds_put [OF _ _ this, of ps params] show ?thesis using h1 l False by auto
  qed
  have f: "slot_holds g1 s bs" "g_slot_size g1 = g_slot_size g3" "g_mapped g1 = g_mapped g3"
    if "slot_holds g3 s bs" "\<And>k. s = Some k \<Longrightarrow> g_slots g3 k" "length bs \<le> g_slot_size g" for s bs
    using fill_vmas_keeps [OF that(1,2) _ _ s3] that(3) h2 sz by auto
  show ?thesis using f [of ps params] f [of "as" "aux_list aux"] h2 l by auto
qed

lemma slot_blob_held:
  assumes "slot_holds g s bs" and "length bs \<le> slot_size nv" and "shm_size nv = 256 * slot_size nv" and "slot_size nv < 2 ^ 32"
  shows "(if (of_nat (length bs) :: u32) > 0 then slot_blob nv (slot_word s) (unat (of_nat (length bs) :: u32)) else None)
      = map_option (\<lambda>k. k * slot_size nv) s"
    and "(if map_option (\<lambda>k. k * slot_size nv) s = None then 0 else unat (of_nat (length bs) :: u32)) = length bs"
proof -
  have u: "unat (of_nat (length bs) :: u32) = length bs" using assms(2,4) by simp
  have pos: "(of_nat (length bs) :: u32) > 0 \<longleftrightarrow> bs \<noteq> []" using u by (simp add: word_less_nat_alt)
  show "(if (of_nat (length bs) :: u32) > 0 then slot_blob nv (slot_word s) (unat (of_nat (length bs) :: u32)) else None)
      = map_option (\<lambda>k. k * slot_size nv) s"
  proof (cases s)
    case None
    then show ?thesis using assms(1) by (simp add: slot_holds_def)
  next
    case (Some k)
    then have k: "bs \<noteq> []" "0 < k" "k < 256" using assms(1) by (auto simp: slot_holds_def)
    have "unat (of_nat k :: u32) = k" using k by simp
    moreover have "k * slot_size nv + length bs \<le> 256 * slot_size nv"
    proof -
      have "Suc k * slot_size nv \<le> 256 * slot_size nv" using k(3) by (intro mult_le_mono1) simp
      then show ?thesis using assms(2) unfolding mult_Suc by linarith
    qed
    ultimately have "slot_blob nv (of_nat k) (length bs) = Some (k * slot_size nv)"
      using assms(2,3) k by (simp add: slot_blob_def slot_valid_def slot_ptr_def NVKVM_SHM_NSLOTS_def word_le_nat_alt)
    then show ?thesis using Some k(1) pos u by (simp add: slot_word_def)
  qed
  show "(if map_option (\<lambda>k. k * slot_size nv) s = None then 0 else unat (of_nat (length bs) :: u32)) = length bs"
    using assms(1) u by (auto simp: slot_holds_def split: option.splits)
qed

lemma snapshot_held:
  assumes "slot_holds g s bs" and "g_slot_size g = sz"
  shows "map_option (\<lambda>b. snapshot (g_shm g) b (length bs)) (map_option (\<lambda>k. k * sz) s) = buffer_opt bs"
  using assms by (auto simp: slot_holds_def buffer_opt_def snapshot_ld split: option.splits)

lemma copy_out_written:
  assumes "slot_holds g1 s bs" and "s \<noteq> None \<longrightarrow> g_mapped g2" and "g_slot_size g2 = g_slot_size g1"
    and m: "\<And>k. s = Some k \<Longrightarrow> ld_bytes (g_shm g2) (k * g_slot_size g1) (length bs)
        = ld_bytes (write_back (Some (k * g_slot_size g1)) p (length bs) (g_shm g1)) (k * g_slot_size g1) (length bs)"
  shows "copy_out s bs g2 = written p bs"
proof (cases s)
  case None
  then show ?thesis using assms(1) by (auto simp: copy_out_def slot_holds_def written_def ld_bytes_def split: option.splits)
next
  case (Some k)
  then show ?thesis using assms(1-3) m [OF Some]
    by (auto simp: copy_out_def slot_holds_def written_def write_back_def nvkvm_slot_addr_def NVKVM_SHM_NSLOTS_def
      ld_bytes_st_same split: option.splits)
qed

lemma ioctl_answer:
  assumes "l = nvkvm_tx_done (hdr_bytes 18 txn @ enc (ioctl_reply r)) l0"
  shows "(if if_status l \<noteq> 0 then - if_status l else sint (if_retval l)) = resp_ret r" and "if_fault l = rs_fault r"
proof -
  have neg64: "sint (- of_nat (errno_no e) :: u64) = neg e" for e by (cases e) (simp_all add: neg_def)
  have nz: "errno_no e \<noteq> 0" for e using errno_no_bounds(1) [of e] by simp
  show "(if if_status l \<noteq> 0 then - if_status l else sint (if_retval l)) = resp_ret r" "if_fault l = rs_fault r"
    unfolding assms
    by (auto simp: nz nvkvm_tx_done_def Let_def resp_defs ioctl_reply_def int_of_le32_def resp_ret_def neg64 neg_def
      simp del: dec.simps drop_append split: option.splits sum.splits)
qed

text \<open>A host that runs the worker of the device, nothing failing in the guest and no signal pending.\<close>

definition ioctl_device :: "ioctl_env \<Rightarrow> nvgpu \<Rightarrow> send_env" where
  "ioctl_device ie nv = \<lparr>sv_msg = True, sv_inf = True, sv_resp = True, sv_add = None, sv_signal = False, sv_host = ioctl_host ie nv\<rparr>"

definition geometry_agrees :: "guest \<Rightarrow> nvgpu \<Rightarrow> bool" where
  "geometry_agrees g nv \<longleftrightarrow> g_slot_size g = slot_size nv \<and> shm_size nv = 256 * slot_size nv \<and> 24576 \<le> slot_size nv
     \<and> slot_size nv < 2 ^ 32"

lemma send_ioctl:
  assumes geo: "geometry_agrees g1 nv" and ps: "slot_holds g1 ps params" "length params \<le> slot_size nv"
    and as: "slot_holds g1 as aux" "length aux \<le> slot_size nv" and ne: "ps \<noteq> None \<longrightarrow> as \<noteq> ps"
    and mp: "ps \<noteq> None \<or> as \<noteq> None \<longrightarrow> g_mapped g1"
    and out: "out = nvkvm_req_ioctl_on_isolate ie (nv_view nv)
      \<lparr>rq_isolate = i, rq_handle = h, rq_cmd = cmd, rq_param_size = length params, rq_aux_size = length aux, rq_flags = fl\<rparr>
      (buffer_opt params) (buffer_opt aux)"
  shows "\<exists>g2 l1. send_and_wait f (ioctl_device ie nv)
      (req_bytes txn (Ioctl_On_Isolate i h cmd (of_nat (length params)) (slot_word ps) (of_nat (length aux)) (slot_word as) n vsl fl s)) l g1
      = (0, l1, g2)
    \<and> l1 = nvkvm_tx_done (hdr_bytes 18 txn @ enc (ioctl_reply (io_resp out))) l
    \<and> copy_out ps params g2 = written (io_param out) params \<and> copy_out as aux g2 = written (io_aux out) aux"
proof -
  let ?sz = "slot_size nv" and ?nv = "nv\<lparr>nd_shm := g_shm g1\<rparr>"
  have sz: "g_slot_size g1 = ?sz" "shm_size nv = 256 * ?sz" "?sz < 2 ^ 32" using geo by (auto simp: geometry_agrees_def)
  let ?w = "\<lparr>iw_txn = txn, iw_req = \<lparr>rq_isolate = i, rq_handle = h, rq_cmd = cmd, rq_param_size = length params,
      rq_aux_size = length aux, rq_flags = fl\<rparr>, iw_param = map_option (\<lambda>k. k * ?sz) ps, iw_aux = map_option (\<lambda>k. k * ?sz) as\<rparr>"
  have w: "make_ioctl_work ?nv txn i h cmd (of_nat (length params)) (slot_word ps) (of_nat (length aux)) (slot_word as) fl = ?w"
    using slot_blob_held [OF ps(1), of ?nv] slot_blob_held [OF as(1), of ?nv] ps(2) as(2) sz
    by (simp add: make_ioctl_work_def Let_def)
  have shm: "nd_shm (snd (nvkvm_ioctl_work_fn ie (g_shm g1) ?w ?nv))
      = write_back (map_option (\<lambda>k. k * ?sz) as) (io_aux out) (length aux)
          (write_back (map_option (\<lambda>k. k * ?sz) ps) (io_param out) (length params) (g_shm g1))"
    and o: "fst (nvkvm_ioctl_work_fn ie (g_shm g1) ?w ?nv) = out"
    using snapshot_held [OF ps(1) sz(1)] snapshot_held [OF as(1) sz(1)]
    by (simp_all add: nvkvm_ioctl_work_fn_def Let_def out nv_view_def)
  define m where "m = nd_shm (snd (nvkvm_ioctl_work_fn ie (g_shm g1) ?w ?nv))"
  define g2 where "g2 = inflight_dequeue l ((inflight_enqueue l g1)\<lparr>g_shm := m\<rparr>)"
  have g2m: "g_shm g2 = write_back (map_option (\<lambda>k. k * ?sz) as) (io_aux out) (length aux)
          (write_back (map_option (\<lambda>k. k * ?sz) ps) (io_param out) (length params) (g_shm g1))"
    by (simp add: g2_def m_def shm inflight_dequeue_def)
  have len: "length (hdr_bytes 18 txn @ enc (ioctl_reply (io_resp out))) \<le> 512"
    by (simp add: hdr_bytes_def length_enc layout_size_def ioctl_reply_def)
  have "send_and_wait f (ioctl_device ie nv)
      (req_bytes txn (Ioctl_On_Isolate i h cmd (of_nat (length params)) (slot_word ps) (of_nat (length aux)) (slot_word as) n vsl fl s)) l g1
      = (0, nvkvm_tx_done (hdr_bytes 18 txn @ enc (ioctl_reply (io_resp out))) l, g2)"
    using read_request_extra [of txn "Ioctl_On_Isolate i h cmd (of_nat (length params)) (slot_word ps) (of_nat (length aux)) (slot_word as) n vsl fl s" "[]"]
      len o w
    by (simp add: send_and_wait_def ioctl_device_def ioctl_host_def g2_def m_def split_beta Let_def NVKVM_RESP_BUF_SIZE_def
        inflight_enqueue_def inflight_dequeue_def)
  moreover have "copy_out ps params g2 = written (io_param out) params"
  proof (rule copy_out_written [OF ps(1)])
    show "ps \<noteq> None \<longrightarrow> g_mapped g2" "g_slot_size g2 = g_slot_size g1"
      using mp by (simp_all add: g2_def inflight_enqueue_def inflight_dequeue_def)
    show "ld_bytes (g_shm g2) (k * g_slot_size g1) (length params)
        = ld_bytes (write_back (Some (k * g_slot_size g1)) (io_param out) (length params) (g_shm g1)) (k * g_slot_size g1) (length params)"
      if "ps = Some k" for k
      using that ne ps(2) as(2) sz(1) ld_bytes_st_other [of k _ "length params" ?sz]
      by (auto simp: g2m write_back_def split: option.splits)
  qed
  moreover have "copy_out as aux g2 = written (io_aux out) aux"
  proof (rule copy_out_written [OF as(1)])
    show "as \<noteq> None \<longrightarrow> g_mapped g2" "g_slot_size g2 = g_slot_size g1"
      using mp by (simp_all add: g2_def inflight_enqueue_def inflight_dequeue_def)
    show "ld_bytes (g_shm g2) (k * g_slot_size g1) (length aux)
        = ld_bytes (write_back (Some (k * g_slot_size g1)) (io_aux out) (length aux) (g_shm g1)) (k * g_slot_size g1) (length aux)"
      if "as = Some k" for k
      using that ne ps(2) as(2) sz(1) ld_bytes_st_other [of k _ "length aux" ?sz]
      by (auto simp: g2m write_back_def ld_bytes_st_same split: option.splits) (metis length_ld_bytes)
  qed
  ultimately show ?thesis by blast
qed

text \<open>C38: A forwarded ioctl is the device's handler applied to the process's own buffers.  When the guest and the device
  agree on the slots, a transaction number and the slots are free and no signal is pending, the ioctl of a guest
  process returns what the handler decides for exactly the parameter and auxiliary bytes of the process, and the
  bytes it gets back in both buffers are those the handler leaves: two copies into shared slots, the copies the worker
  takes, the copies back, the message and the unpacking of the answer are together the identity.
\<close>

theorem ioctl_end_to_end:
  assumes geo: "geometry_agrees g nv" and txn: "nvkvm_txn_id_alloc g = (txn, g0)" "txn \<noteq> 0"
    and slots: "ioctl_slots params (length (aux_list aux)) aux mm g0 = (None, ps, as, n, vs, g1)"
    and out: "out = nvkvm_req_ioctl_on_isolate ie (nv_view nv)
      \<lparr>rq_isolate = fc_isolate c, rq_handle = fc_handle c, rq_cmd = cmd, rq_param_size = length params,
       rq_aux_size = length (aux_list aux), rq_flags = fl\<rparr> (buffer_opt params) (buffer_opt (aux_list aux))"
  shows "\<exists>g'. nvkvm_virtio_ioctl_on_isolate (ioctl_device ie nv) se' c cmd params (length (aux_list aux)) aux fl mm g
    = (resp_ret (io_resp out), written (io_param out) params, map_option (written (io_aux out)) aux, Some (rs_fault (io_resp out)), g')"
proof -
  have g0: "g_slot_size g0 = slot_size nv" "24576 \<le> g_slot_size g0"
    using txn_alloc_cases [OF txn] geo by (simp_all add: geometry_agrees_def)
  note ok = ioctl_slots_ok [OF slots g0(2)]
  have geo1: "geometry_agrees g1 nv" using ok g0 geo by (simp add: geometry_agrees_def)
  let ?l = "(inflight_alloc_legacy txn)\<lparr>if_isolate := fc_isolate c\<rparr>"
  obtain g2 l1 where s: "send_and_wait (signal_interrupt se') (ioctl_device ie nv)
      (req_bytes txn (Ioctl_On_Isolate (fc_isolate c) (fc_handle c) cmd (of_nat (length params)) (slot_word ps)
        (of_nat (length (aux_list aux))) (slot_word as) (of_nat n) (slot_word vs) fl (fc_session c))) ?l g1 = (0, l1, g2)"
    and l1: "l1 = nvkvm_tx_done (hdr_bytes 18 txn @ enc (ioctl_reply (io_resp out))) ?l"
    and c1: "copy_out ps params g2 = written (io_param out) params"
      "copy_out as (aux_list aux) g2 = written (io_aux out) (aux_list aux)"
    using send_ioctl [OF geo1, of ps params "as" "aux_list aux" out ie _ _ cmd fl] ok g0 out by metis
  have "map_option (\<lambda>a. copy_out as a g2) aux = map_option (written (io_aux out)) aux"
    using c1(2) by (auto simp: aux_list_def split: option.splits)
  then show ?thesis
    using txn slots s ioctl_answer [OF l1] c1
    by (simp add: nvkvm_virtio_ioctl_on_isolate_def Let_def) (simp add: ioctl_device_def)
qed

lemma slot_alloc_first: "\<not> g_slots g 1 \<Longrightarrow> nvkvm_slot_alloc g = (Some 1, g\<lparr>g_slots := (g_slots g)(1 := True)\<rparr>)"
  using upt_conv_Cons [of 1 NVKVM_SHM_NSLOTS] by (simp add: nvkvm_slot_alloc_def) (simp add: NVKVM_SHM_NSLOTS_def)

lemma put_slot_first:
  "\<not> g_slots g 1 \<Longrightarrow> g_mapped g \<Longrightarrow>
   put_slot bs g = (None, Some 1, g\<lparr>g_slots := (g_slots g)(1 := True), g_shm := st_bytes (g_shm g) (g_slot_size g) bs\<rparr>)"
  unfolding put_slot_def slot_alloc_first by (simp add: nvkvm_slot_addr_def NVKVM_SHM_NSLOTS_def)

definition exg_fd :: fd_ctx where
  "exg_fd = \<lparr>fc_session = 7, fc_isolate = 1, fc_handle = 2\<rparr>"

lemma exg_denied:
  "nvkvm_req_ioctl_on_isolate ie (nv_view ext_nv)
     \<lparr>rq_isolate = 1, rq_handle = 2, rq_cmd = 0, rq_param_size = n, rq_aux_size = m, rq_flags = 0\<rparr> pb ab
   = \<lparr>io_resp = deny EPERM 0x56, io_param = pb, io_aux = ab, io_nv = nv_view ext_nv, io_fwd = [], io_uvm = None\<rparr>"
proof -
  have "\<not> is_uvm_handle (nv_handles (nv_view ext_nv)) 2"
    by (simp add: is_uvm_handle_def nv_view_def ext_nv_def exd_up_def exd_start_def nvkvm_handle_table_init_def
      nvkvm_handle_get_def stale_def slot_of_def zero_handle_def bad_id_def)
  then show ?thesis
    by (simp add: nvkvm_req_ioctl_on_isolate_def ioctl_gates_def gate_graphics_def gate_type_def IOC_TYPE_def nv_view_def
      ext_nv_def exd_up_def exd_start_def)
qed

theorem ioctl_end_to_end_witness:
  "\<exists>g'. nvkvm_virtio_ioctl_on_isolate (ioctl_device ex_env ext_nv) (ioctl_device ex_env ext_nv) exg_fd 0 [1, 2, 3, 4] 0 None 0 None exg_guest
     = (- 1, [1, 2, 3, 4], None, Some 0, g')"
proof -
  have geo: "geometry_agrees exg_guest ext_nv" by (simp add: geometry_agrees_def exg_guest_def ext_nv_def)
  let ?g = "exg_guest\<lparr>g_next_txn := 1, g_txn := (\<lambda>_. False)(1 := True)\<rparr>"
  have "\<exists>g1. ioctl_slots [1, 2, 3, 4] (length (aux_list None)) None None ?g = (None, Some 1, None, 0, None, g1)"
    using put_slot_first [of ?g "[1, 2, 3, 4]"]
    by (simp add: ioctl_slots_def aux_list_def fill_vmas_def exg_guest_def)
  then obtain g1 where s: "ioctl_slots [1, 2, 3, 4] (length (aux_list None)) None None ?g = (None, Some 1, None, 0, None, g1)" ..
  have w: "written (Some (buffer [1, 2, 3, 4])) [1, 2, 3, 4] = [1, 2, 3, 4]"
    by (simp add: written_def buffer_def ld_bytes_def upt_rec)
  show ?thesis
    using ioctl_end_to_end [OF geo exg_txn _ s refl, where ie = ex_env and c = exg_fd and cmd = 0 and fl = 0] w
    by (simp add: exg_fd_def exg_denied aux_list_def resp_ret_def deny_def neg_def buffer_opt_def)
qed

section \<open>Events\<close>

text \<open>What the device posts the guest delivers, as long as there is a buffer of at least sixteen bytes.\<close>

lemma evt_round_trip:
  assumes "nvkvm_evt_push_bh i h revents posted = (Some (Push bs n notified), rest)" and "hd posted \<ge> 16"
  shows "notified \<and> nvkvm_evt_callback [(bs, n)] = [(i, h, revents)]"
proof -
  obtain cap where p: "posted = cap # rest" using assms(1) by (auto simp: nvkvm_evt_push_bh_def Let_def split: list.splits)
  have "bs = enc [F32 i, F32 h, F32 revents, F32 0]" "n = 16" "notified"
    using assms p by (auto simp: nvkvm_evt_push_bh_def Let_def length_enc layout_size_def)
  then show ?thesis
    by (simp add: nvkvm_evt_callback_def struct_evt_poll_def layout_size_def Let_def del: dec.simps)
qed

text \<open>The same number is handed out twice in a row when the counter passes a multiple of 4096: slot 0 is skipped in
  favour of slot 1, which is the next number's own slot.\<close>

lemma txn_id_repeats:
  assumes "g_txn g = (\<lambda>_. False)" and "g_next_txn g = 4095" and "nvkvm_txn_id_alloc g = (t, g1)"
  shows "fst (nvkvm_txn_id_alloc (nvkvm_txn_id_free t g1)) = t \<and> t = 0x1001"
proof -
  have "0 < NVKVM_MAX_INFLIGHT" "1 < NVKVM_MAX_INFLIGHT" by (simp_all add: NVKVM_MAX_INFLIGHT_def)
  note u = upt_conv_Cons [OF this(1)] upt_conv_Cons [OF this(2)]
  have "txn_slot 4096 0 = 0" "txn_slot 4096 1 = 1" by (simp_all add: txn_slot_def NVKVM_MAX_INFLIGHT_def)
  then have "t = txn_word 4096 1" and g1: "g1 = g\<lparr>g_next_txn := 4096, g_txn := (\<lambda>_. False)(1 := True)\<rparr>"
    using assms u by (simp_all add: nvkvm_txn_id_alloc_def Let_def)
  then have t: "t = 0x1001" by (simp add: txn_word_def NVKVM_MAX_INFLIGHT_def)
  have "fst (nvkvm_txn_id_alloc (nvkvm_txn_id_free t g1)) = txn_word 4097 (txn_slot 4097 0)"
    using txn_alloc_free [of "nvkvm_txn_id_free t g1"]
    by (simp add: g1 t nvkvm_txn_id_free_def txn_slot_def NVKVM_MAX_INFLIGHT_def)
  then show ?thesis using t by (simp add: txn_word_def txn_slot_def NVKVM_MAX_INFLIGHT_def)
qed

end
