(* ===== verification/Startup.thy ===== *)
theory Startup
  imports GuestVirtio
begin

text \<open>
  Bringing up the device and the guest driver: \<open>virtio_nvgpu_device_realize\<close>, the configuration space and the
  features the device offers (\<open>qemu/virtio_nvgpu.c\<close>), and what the guest reads of them
  (\<open>nvkvm_virtio_init\<close> and \<open>nvkvm_negotiate_version\<close> in \<open>guest/nvkvm_virtio.c\<close>).
\<close>

section \<open>The device\<close>

definition NVKVM_PROTO_VERSION :: u32 where "NVKVM_PROTO_VERSION = 2"
definition NVKVM_SHM_SLOT_MIN_SIZE :: nat where "NVKVM_SHM_SLOT_MIN_SIZE = 4096"
definition NVKVM_SHM_SLOT_DEFAULT_SIZE :: nat where "NVKVM_SHM_SLOT_DEFAULT_SIZE = 64 * 1024"
definition NVKVM_SHM_GPA_BASE :: nat where "NVKVM_SHM_GPA_BASE = 0x10000000000"
definition NVKVM_MMAP_WIN_GPA_BASE :: nat where "NVKVM_MMAP_WIN_GPA_BASE = 0x18000000000"

definition struct_virtio_config :: "width list" where "struct_virtio_config = [W64, W64, W64, W64, W64]"
definition struct_shm_ctrl :: "width list" where "struct_shm_ctrl = [W32, W32, W32, W32]"

text \<open>What the host answers: opening the control device, the version string the driver reports (64 bytes), the shared
  memory, the size of guest RAM, and the reservation of the sparse window.\<close>

record realize_env =
  rz_ctl :: "fd result"
  rz_version :: "u8 list"
  rz_shm :: "unit result"
  rz_ram :: nat
  rz_window :: "nat result"

datatype realize_error = No_Driver errno | No_Shared_Memory | Ram_Overlaps_Windows

definition c_string :: "u8 list \<Rightarrow> string" where
  "c_string bs = map (\<lambda>b. char_of (unat b)) (takeWhile (\<lambda>b. b \<noteq> 0) bs)"

definition ctrl_block :: "u8 list \<Rightarrow> mem" where
  "ctrl_block version =
    st_bytes (st_bytes (\<lambda>_. 0) 0 (enc [F32 NVKVM_PROTO_VERSION, F32 (of_nat NVKVM_SHM_SLOT_DEFAULT_SIZE), F32 (of_nat NVKVM_SHM_NSLOTS), F32 0]))
      16 (take 64 version)"

definition unplaced_window :: sparse_win where
  "unplaced_window = \<lparr>sparse_vmm_va = None, sparse_gpa_base = 0, sparse_size = 0, sparse_cur = 0, sparse_kvm_slot = -1, sparse_free = None\<rparr>"

definition virtio_nvgpu_device_realize :: "realize_env \<Rightarrow> bool \<Rightarrow> realize_error + nvgpu" where
  "virtio_nvgpu_device_realize re graphics =
    (case rz_ctl re of
       Inl e \<Rightarrow> Inl (No_Driver e)
     | Inr _ \<Rightarrow>
         if \<not> is_ok (rz_shm re) then Inl No_Shared_Memory
         else if rz_ram re \<ge> NVKVM_SHM_GPA_BASE then Inl Ram_Overlaps_Windows
         else Inr \<lparr>nd_dev = \<lparr>d_graphics = graphics,
                d_mm = \<lparr>ms_handles = nvkvm_handle_table_init, ms_win = snd (nvkvm_sparse_init (rz_window re) unplaced_window),
                        ms_pool = kvm_pool_init, ms_tbl = iso_mmap_init\<rparr>,
                d_iso = nvkvm_isolate_table_init, d_sessions = [], d_uvm = uvm_va_init\<rparr>,
              nd_abi = Some (nvkvm_abi_for_version (Some (c_string (take 64 (rz_version re))))),
              nd_clients = [], nd_gpus = None, nd_shm = ctrl_block (rz_version re),
              slot_size = NVKVM_SHM_SLOT_DEFAULT_SIZE, shm_size = NVKVM_SHM_NSLOTS * NVKVM_SHM_SLOT_DEFAULT_SIZE,
              config_space = \<lparr>cf_shm_base = of_nat NVKVM_SHM_GPA_BASE,
                cf_shm_len = of_nat (NVKVM_SHM_NSLOTS * NVKVM_SHM_SLOT_DEFAULT_SIZE),
                cf_win_gpa = of_nat NVKVM_MMAP_WIN_GPA_BASE,
                cf_win_len = of_nat (NVKVM_SPARSE_GPA_BASE + NVKVM_SPARSE_GPA_SIZE - NVKVM_MMAP_WIN_GPA_BASE),
                cf_flags = (if graphics then 1 else 0)\<rparr>\<rparr>)"

text \<open>Reading the configuration places the window; when that works the window advertised is the sparse one.\<close>

definition nvkvm_get_config :: "win_env \<Rightarrow> nvgpu \<Rightarrow> u8 list \<times> nvgpu" where
  "nvkvm_get_config env nv =
    (let mm = d_mm (nd_dev nv);
         (base, w, p) = nvkvm_sparse_ensure env (ms_win mm, ms_pool mm);
         c = (if base \<noteq> 0 then (config_space nv)\<lparr>cf_win_gpa := of_nat base, cf_win_len := of_nat (sparse_size w)\<rparr> else config_space nv)
     in (enc [F64 (cf_shm_base c), F64 (cf_shm_len c), F64 (cf_win_gpa c), F64 (cf_win_len c), F64 (cf_flags c)],
         nv\<lparr>nd_dev := (nd_dev nv)\<lparr>d_mm := mm\<lparr>ms_win := w, ms_pool := p\<rparr>\<rparr>, config_space := c\<rparr>))"

text \<open>Bit 29 (\<open>VIRTIO_RING_F_EVENT_IDX\<close>) is never offered.\<close>

definition nvkvm_get_features :: "u64 \<Rightarrow> u64" where
  "nvkvm_get_features features = features AND NOT (push_bit 29 1)"

text \<open>Tearing down: isolates, then handles; the descriptors closed.\<close>

definition virtio_nvgpu_device_unrealize :: "nvgpu \<Rightarrow> nvgpu \<times> fd list" where
  "virtio_nvgpu_device_unrealize nv =
    (let (st, cl) = nvkvm_isolate_table_fini (d_table (nd_dev nv));
         d = set_table st (nd_dev nv);
         (ht, cl') = nvkvm_handle_table_fini (d_handles d)
     in (nv\<lparr>nd_dev := set_handles ht d\<rparr>, cl @ cl'))"

section \<open>The guest\<close>

record guest_setup =
  gi_guest :: guest
  gi_shm_base :: nat
  gi_shm_len :: nat
  gi_win_base :: nat
  gi_win_len :: nat
  gi_graphics :: bool
  gi_version :: "u8 list"
  gi_abi :: "nvkvm_abi_profile option"

text \<open>\<open>shm\<close> is the memory at the address the configuration names; \<open>remap\<close> whether it can be mapped.\<close>

definition nvkvm_virtio_init :: "errno option \<Rightarrow> bool \<Rightarrow> u8 list \<Rightarrow> mem \<Rightarrow> guest_setup result" where
  "nvkvm_virtio_init find_vqs remap cfg shm =
    (case find_vqs of
       Some e \<Rightarrow> Inl e
     | None \<Rightarrow>
        (let fs = dec struct_virtio_config cfg; q = (\<lambda>i. f64 (fs ! i)) in
         if unat (q 1) < NVKVM_SHM_SLOT_MIN_SIZE then Inl EINVAL
         else if \<not> remap then Inl ENOMEM
         else Inr \<lparr>gi_guest = \<lparr>g_next_txn = 0, g_txn = (\<lambda>_. False), g_list = [], g_slots = (\<lambda>i. i = 0), g_mapped = True,
                g_shm = shm, g_slot_size = NVKVM_SHM_SLOT_DEFAULT_SIZE\<rparr>,
              gi_shm_base = unat (q 0), gi_shm_len = unat (q 1), gi_win_base = unat (q 2), gi_win_len = unat (q 3),
              gi_graphics = (q 4 AND 1 \<noteq> 0), gi_version = [], gi_abi = None\<rparr>))"

definition power_of_2 :: "nat \<Rightarrow> bool" where
  "power_of_2 n \<longleftrightarrow> n \<noteq> 0 \<and> n AND (n - 1) = 0"

definition nvkvm_negotiate_version :: "guest_setup \<Rightarrow> guest_setup result" where
  "nvkvm_negotiate_version gi =
    (let g = gi_guest gi; fs = dec struct_shm_ctrl (ld_bytes (g_shm g) 0 16) in
     if \<not> g_mapped g then Inl ENODEV
     else if f32 (fs ! 0) \<noteq> NVKVM_PROTO_VERSION then Inl EPROTO
     else let sz = unat (f32 (fs ! 1)) in
       if sz < NVKVM_SHM_SLOT_MIN_SIZE \<or> \<not> power_of_2 sz then Inl EINVAL
       else let v = (ld_bytes (g_shm g) 16 64)[63 := 0] in
         Inr (gi\<lparr>gi_guest := g\<lparr>g_slot_size := sz\<rparr>, gi_version := v, gi_abi := Some (nvkvm_abi_for_version (Some (c_string v)))\<rparr>))"

section \<open>They agree\<close>

text \<open>A window that has been placed where guest RAM is not.\<close>

definition window_placed :: "win_env \<Rightarrow> bool" where
  "window_placed env \<longleftrightarrow> (case window_base_get env of None \<Rightarrow> True | Some b \<Rightarrow> 0 < b \<and> b + NVKVM_SPARSE_GPA_SIZE < 2 ^ 63)"

lemma first_kvm_slot:
  assumes "kvm_vm_fd env \<ge> 0" and "\<forall>slot gpa len. kvm_set_region env slot gpa len = Inr ()"
  shows "\<exists>slot p. kvm_add_memory_region (kvm_vm_fd env) (kvm_set_region env) gpa len kvm_pool_init = (Inr slot, p) \<and> slot \<ge> 0"
  using assms by (simp add: kvm_add_memory_region_def nvkvm_kvm_slot_alloc_def kvm_pool_init_def count_alloc_def Let_def
    NVKVM_KVM_SLOT_BASE_def NVKVM_KVM_SLOT_COUNT_def split: prod.splits)

lemma sparse_window_placed:
  assumes "window_placed env" and "kvm_vm_fd env \<ge> 0" and "\<forall>slot gpa len. kvm_set_region env slot gpa len = Inr ()"
    and w0: "w0 = snd (nvkvm_sparse_init (Inr va) unplaced_window)"
  shows "\<exists>base w p. nvkvm_sparse_ensure env (w0, kvm_pool_init) = (base, w, p) \<and> base \<noteq> 0 \<and> base < 2 ^ 63
     \<and> win_inv w [] \<and> sparse_gpa_base w = base \<and> sparse_size w = NVKVM_SPARSE_GPA_SIZE
     \<and> base = (case window_base_get env of None \<Rightarrow> NVKVM_SPARSE_GPA_BASE | Some b \<Rightarrow> b)"
proof -
  define base where "base = (case window_base_get env of None \<Rightarrow> NVKVM_SPARSE_GPA_BASE | Some b \<Rightarrow> b)"
  have b: "0 < base" "base + NVKVM_SPARSE_GPA_SIZE < 2 ^ 63"
    using assms(1) by (auto simp: base_def window_placed_def NVKVM_SPARSE_GPA_BASE_def NVKVM_SPARSE_GPA_SIZE_def split: option.splits)
  have w0e: "w0 = \<lparr>sparse_vmm_va = Some va, sparse_gpa_base = 0, sparse_size = NVKVM_SPARSE_GPA_SIZE, sparse_cur = 0,
      sparse_kvm_slot = -1, sparse_free = Some []\<rparr>"
    by (simp add: w0 nvkvm_sparse_init_def unplaced_window_def)
  obtain slot p where k: "kvm_add_memory_region (kvm_vm_fd env) (kvm_set_region env) (of_nat base) (of_nat NVKVM_SPARSE_GPA_SIZE) kvm_pool_init
      = (Inr slot, p)" "slot \<ge> 0"
    using first_kvm_slot [OF assms(2,3)] by blast
  let ?w = "w0\<lparr>sparse_gpa_base := base, sparse_kvm_slot := slot\<rparr>"
  have "nvkvm_sparse_ensure env (w0, kvm_pool_init) = (base, ?w, p)"
    using k(1) b(1) by (simp add: nvkvm_sparse_ensure_def w0e base_def [symmetric] Let_def)
  moreover have "win_inv ?w []"
    unfolding win_inv_def by (intro conjI exI [of _ "[]"])
      (use b k(2) in \<open>simp_all add: win_ready_def win_lists_def w0e tiles_def NVKVM_SPARSE_GPA_SIZE_def\<close>)
  ultimately show ?thesis using b by (intro exI [of _ base] exI [of _ ?w] exI [of _ p]) (simp add: w0e base_def)
qed

lemma realize_state:
  assumes "virtio_nvgpu_device_realize re graphics = Inr nv"
  shows "ms_win (d_mm (nd_dev nv)) = snd (nvkvm_sparse_init (rz_window re) unplaced_window) \<and> ms_pool (d_mm (nd_dev nv)) = kvm_pool_init
    \<and> nd_shm nv = ctrl_block (rz_version re) \<and> slot_size nv = 65536 \<and> shm_size nv = 256 * 65536
    \<and> nd_abi nv = Some (nvkvm_abi_for_version (Some (c_string (take 64 (rz_version re))))) \<and> d_graphics (nd_dev nv) = graphics
    \<and> d_handles (nd_dev nv) = nvkvm_handle_table_init \<and> ms_tbl (d_mm (nd_dev nv)) = iso_mmap_init
    \<and> d_iso (nd_dev nv) = nvkvm_isolate_table_init \<and> d_sessions (nd_dev nv) = []
    \<and> cf_shm_base (config_space nv) = 0x10000000000 \<and> cf_shm_len (config_space nv) = 0x1000000
    \<and> cf_flags (config_space nv) = (if graphics then 1 else 0)"
proof -
  obtain fd where fd: "rz_ctl re = Inr fd" using assms by (auto simp: virtio_nvgpu_device_realize_def split: sum.splits)
  have g: "is_ok (rz_shm re)" "\<not> rz_ram re \<ge> NVKVM_SHM_GPA_BASE"
    using assms by (auto simp: virtio_nvgpu_device_realize_def fd split: if_splits)
  show ?thesis
    using assms [unfolded virtio_nvgpu_device_realize_def fd sum.case if_not_P [OF g(2)] if_not_P [OF not_not [THEN iffD2, OF g(1)]] sum.inject, symmetric]
    by (simp add: NVKVM_SHM_SLOT_DEFAULT_SIZE_def NVKVM_SHM_NSLOTS_def NVKVM_SHM_GPA_BASE_def)
qed

lemma ctrl_block_reads:
  assumes "length version = 64"
  shows "ld_bytes (ctrl_block version) 0 16 = enc [F32 NVKVM_PROTO_VERSION, F32 (of_nat NVKVM_SHM_SLOT_DEFAULT_SIZE), F32 (of_nat NVKVM_SHM_NSLOTS), F32 0]"
    and "ld_bytes (ctrl_block version) 16 64 = version"
proof -
  let ?h = "enc [F32 NVKVM_PROTO_VERSION, F32 (of_nat NVKVM_SHM_SLOT_DEFAULT_SIZE), F32 (of_nat NVKVM_SHM_NSLOTS), F32 0]"
  have l: "length ?h = 16" by (simp add: length_enc layout_size_def)
  have "ld_bytes (ctrl_block version) 0 16 = ld_bytes (st_bytes (\<lambda>_. 0) 0 ?h) 0 16"
    by (rule ld_bytes_cong) (simp add: ctrl_block_def st_bytes_frame)
  also have "\<dots> = ?h" using ld_st_bytes_same [of _ 0 ?h] l by simp
  finally show "ld_bytes (ctrl_block version) 0 16 = ?h" .
  show "ld_bytes (ctrl_block version) 16 64 = version"
    using assms ld_st_bytes_same [of _ 16 version] by (simp add: ctrl_block_def)
qed


definition exs_re :: realize_env where
  "exs_re = \<lparr>rz_ctl = Inr 5, rz_version = [0x35, 0x37, 0x30] @ replicate 61 0, rz_shm = Inr (), rz_ram = 0x200000000,
     rz_window = Inr 0x7f0000000000\<rparr>"

definition exs_env :: win_env where
  "exs_env = \<lparr>window_base_get = None, kvm_vm_fd = 10, kvm_set_region = (\<lambda>_ _ _. Inr ())\<rparr>"


section \<open>Teardown\<close>

text \<open>After teardown no isolate is live, and the window still holds the extents of mapping tokens: neither they nor the
  window itself are given back to the host.\<close>

lemma unrealize_complete:
  assumes "dev_reach (nd_dev nv)" and "virtio_nvgpu_device_unrealize nv = (nv', cl)"
  shows "iso_live (d_iso (nd_dev nv')) = (\<lambda>_. None) \<and> ms_tbl (d_mm (nd_dev nv')) = ms_tbl (d_mm (nd_dev nv))
     \<and> (\<exists>K. win_owns (ms_win (d_mm (nd_dev nv'))) (held (d_base (nd_dev nv)) (tok_live (ms_tbl (d_mm (nd_dev nv)))) + K))"
proof -
  let ?d = "nd_dev nv"
  obtain K where K: "dev_inv ?d K" using dev_reach_inv [OF assms(1)] by blast
  let ?M = "held (d_base ?d) (tok_live (ms_tbl (d_mm ?d))) + K"
  have i: "iso_ok (d_base ?d) (d_iso ?d)" "win_owns (ms_win (d_mm ?d)) (rings (d_base ?d) (d_iso ?d) + ?M)"
    using K by (simp_all add: dev_inv_def dev_own_def mmap_inv_def d_base_def ac_simps)
  obtain t w p c where f: "nvkvm_isolate_table_fini (d_iso ?d, ms_win (d_mm ?d), ms_pool (d_mm ?d)) = ((t, w, p), c)"
    by (metis surj_pair)
  have "win_owns w ?M \<and> iso_live t = (\<lambda>_. None)"
    by (rule table_fini_complete [OF i _ f]) (simp add: d_base_def)
  then show ?thesis using assms(2) f
    by (auto simp: virtio_nvgpu_device_unrealize_def d_table_def set_table_def set_handles_def split: prod.splits)
qed

end
