(* ===== verification/StubTable.thy ===== *)
theory StubTable
  imports Allowlists AbiProfile
begin

text \<open>
  The descriptors of an isolate: the table from handle ids to local descriptors, the set of descriptors it polls for
  the guest, the two UVM files it opens for itself, and the commands that change them
  (\<open>stub/nvkvm_stub.c\<close>).

  The kernel's answers (the descriptor a message carries, the results of \<open>openat\<close>, \<open>eventfd2\<close>, \<open>sendmsg\<close> and of
  the PRIME ioctls) are arguments.  An operation returns the descriptors it closes, in order, and its answer.
\<close>

section \<open>The tables\<close>

definition MAX_HANDLES :: nat where "MAX_HANDLES = 65536"
definition NVKVM_POLL_MAX :: nat where "NVKVM_POLL_MAX = 256"
definition NVKVM_STUB_UVM_LOCAL_POOL_SIZE :: nat where "NVKVM_STUB_UVM_LOCAL_POOL_SIZE = 2"

record stub_table =
  handle_fds :: "nat \<Rightarrow> fd"
  poll_set :: "(fd \<times> u32) list"
  uvm_local_fds :: "fd list"
  uvm_local_next_idx :: nat

definition handle_table_init :: "fd list \<Rightarrow> stub_table" where
  "handle_table_init uvm = \<lparr>handle_fds = (\<lambda>_. -1), poll_set = [], uvm_local_fds = uvm, uvm_local_next_idx = 0\<rparr>"

definition handle_lookup :: "stub_table \<Rightarrow> u32 \<Rightarrow> fd" where
  "handle_lookup t i = (if unat i \<ge> MAX_HANDLES then -1 else handle_fds t (unat i))"

definition handle_store :: "u32 \<Rightarrow> fd \<Rightarrow> stub_table \<Rightarrow> stub_table" where
  "handle_store i f t = (if unat i < MAX_HANDLES then t\<lparr>handle_fds := (handle_fds t)(unat i := f)\<rparr> else t)"

definition poll_arm :: "u32 \<Rightarrow> stub_table \<Rightarrow> stub_table" where
  "poll_arm i t =
    (let f = handle_lookup t i in
     if f < 0 then t
     else if list_ex (\<lambda>p. snd p = i) (poll_set t) then t
     else if length (poll_set t) < NVKVM_POLL_MAX then t\<lparr>poll_set := poll_set t @ [(f, i)]\<rparr>
     else t)"

definition poll_disarm :: "u32 \<Rightarrow> stub_table \<Rightarrow> stub_table" where
  "poll_disarm i t =
    (case first_index (\<lambda>p. snd p = i) (poll_set t) of
       None \<Rightarrow> t
     | Some k \<Rightarrow> t\<lparr>poll_set := swap_remove k (poll_set t)\<rparr>)"

definition handle_remove :: "u32 \<Rightarrow> stub_table \<Rightarrow> stub_table \<times> fd list" where
  "handle_remove i t =
    (if unat i < MAX_HANDLES then
       (let t' = poll_disarm i t; f = handle_fds t' (unat i) in
        (t'\<lparr>handle_fds := (handle_fds t')(unat i := -1)\<rparr>, if f \<ge> 0 then [f] else []))
     else (t, []))"

text \<open>Both commands that bring a descriptor close what the id denoted before.\<close>

definition handle_replace :: "u32 \<Rightarrow> fd \<Rightarrow> stub_table \<Rightarrow> stub_table \<times> fd list" where
  "handle_replace i f t =
    (handle_store i f t,
     if unat i < MAX_HANDLES \<and> handle_fds t (unat i) \<ge> 0 then [handle_fds t (unat i)] else [])"

section \<open>Commands\<close>

abbreviation minus_EBADF :: int where "minus_EBADF \<equiv> - 9"
abbreviation minus_ENOMEM :: int where "minus_ENOMEM \<equiv> - 12"
abbreviation minus_EINVAL :: int where "minus_EINVAL \<equiv> - 22"

text \<open>
  \<open>RECEIVE_FD\<close>: for the UVM device one of the isolate's own files takes the place of the one received.  The
  message must be complete for its device field to count.
\<close>

definition receive_fd :: "fd option \<Rightarrow> bool \<Rightarrow> u32 \<Rightarrow> u32 \<Rightarrow> stub_table \<Rightarrow> unit result \<times> stub_table \<times> fd list" where
  "receive_fd cmsg complete i dev t =
    (case cmsg of
       None \<Rightarrow> (Inl EINVAL, t, [])
     | Some f \<Rightarrow>
         let pooled = complete \<and> dev = 1 \<and> uvm_local_next_idx t < NVKVM_STUB_UVM_LOCAL_POOL_SIZE;
             own = (if pooled then uvm_local_fds t ! uvm_local_next_idx t else -1);
             t1 = (if pooled then t\<lparr>uvm_local_next_idx := uvm_local_next_idx t + 1\<rparr> else t);
             (f', cl) = (if own \<ge> 0 then (own, [f]) else (f, []));
             (t2, cl') = handle_replace i f' t1
         in (Inr (), t2, cl @ cl'))"

definition handle_close_fd :: "u32 \<Rightarrow> stub_table \<Rightarrow> stub_table \<times> fd list" where
  "handle_close_fd i t = handle_remove i t"

text \<open>Device nodes, relative to \<open>/dev\<close>.\<close>

definition digit :: "nat \<Rightarrow> char" where
  "digit n = char_of (48 + n)"

definition dev_id_to_path :: "u32 \<Rightarrow> string option" where
  "dev_id_to_path dev =
    (if dev = 0 then Some ''nvidiactl''
     else if 16 \<le> dev \<and> dev < 32 then
       (let n = unat dev - 16 in
        Some (''nvidia'' @ (if n < 10 then [digit n] else [digit (n div 10), digit (n mod 10)])))
     else if dev = 48 then Some ''nvidia-modeset''
     else if 32 \<le> dev \<and> dev < 48 then
       (let minor = 128 + (unat dev - 32) in
        Some (''dri/renderD'' @ [digit (minor div 100), digit (minor div 10 mod 10), digit (minor mod 10)]))
     else None)"

text \<open>In an empty mount namespace the name is opened relative to the directory QEMU passed, otherwise below \<open>/dev\<close>.\<close>

definition stub_open_dev :: "bool \<Rightarrow> string \<Rightarrow> string" where
  "stub_open_dev dirfd name = (if dirfd then name else take 39 (''/dev/'' @ name))"

datatype open_what = Open_Eventfd u32 | Open_Path string u32

definition open_target :: "bool \<Rightarrow> u32 \<Rightarrow> u32 \<Rightarrow> open_what option" where
  "open_target dirfd dev flags =
    (if dev = 0xFF then Some (Open_Eventfd (0x800 OR 0x80000))
     else if dev = 1 then None
     else map_option (\<lambda>name. Open_Path (stub_open_dev dirfd name) (flags OR 0x80000)) (dev_id_to_path dev))"

text \<open>
  \<open>OPEN_DEVICE\<close>: \<open>open\<close> is the kernel's answer for what is opened, \<open>sent\<close> whether the answer could be sent.
  The result is the value and, on success, the descriptor sent along.
\<close>

definition handle_open_device ::
  "(open_what \<Rightarrow> int) \<Rightarrow> bool \<Rightarrow> bool \<Rightarrow> u32 \<Rightarrow> u32 \<Rightarrow> u32 \<Rightarrow> stub_table
     \<Rightarrow> (int \<times> fd option) \<times> stub_table \<times> fd list" where
  "handle_open_device open dirfd sent i dev flags t =
    (case open_target dirfd dev flags of
       None \<Rightarrow> ((minus_EINVAL, None), t, [])
     | Some w \<Rightarrow>
         let f = open w in
         if f < 0 then ((f, None), t, [])
         else let (t1, cl) = handle_replace i f t in
              if sent then ((0, Some f), t1, cl)
              else let (t2, cl') = handle_remove i t1 in ((0, Some f), t2, cl @ cl'))"

text \<open>Exporting and importing a buffer use a descriptor of the table and leave the table alone.\<close>

definition handle_present_export :: "(fd \<Rightarrow> u32 \<Rightarrow> int \<times> fd) \<Rightarrow> u32 \<Rightarrow> u32 \<Rightarrow> stub_table \<Rightarrow> (int \<times> fd option) \<times> fd list" where
  "handle_present_export prime i gem t =
    (let rfd = handle_lookup t i in
     if rfd < 0 then ((minus_EBADF, None), [])
     else case prime rfd gem of (r, f) \<Rightarrow>
       if r < 0 \<or> f < 0 then ((if r < 0 then r else minus_EINVAL, None), [])
       else ((0, Some f), [f]))"

definition handle_xiso_import :: "(fd \<Rightarrow> fd \<Rightarrow> int \<times> u32) \<Rightarrow> fd option \<Rightarrow> u32 \<Rightarrow> stub_table \<Rightarrow> (int \<times> u32) \<times> fd list" where
  "handle_xiso_import prime cmsg i t =
    (case cmsg of
       None \<Rightarrow> ((minus_EINVAL, 0), [])
     | Some dbuf \<Rightarrow>
         if dbuf < 0 then ((minus_EINVAL, 0), [])
         else let rfd = handle_lookup t i in
           if rfd < 0 then ((minus_EBADF, 0), [dbuf])
           else case prime rfd dbuf of (r, h) \<Rightarrow> (if r < 0 then (r, 0) else (0, h), [dbuf]))"

text \<open>
  The reader's relay of events: for every polled descriptor that is ready, in the order of the snapshot it polled,
  the first handle armed on that descriptor is reported and disarmed.
\<close>

primrec relay_events :: "(fd \<times> u16) list \<Rightarrow> stub_table \<Rightarrow> (u32 \<times> u32) list \<times> stub_table" where
  "relay_events [] t = ([], t)"
| "relay_events (p # ps) t =
    (let h = (case first_index (\<lambda>q. fst q = fst p) (poll_set t) of None \<Rightarrow> 0 | Some k \<Rightarrow> snd (poll_set t ! k)) in
     if snd p = 0 \<or> h = 0 then relay_events ps t
     else let (evs, t') = relay_events ps (poll_disarm h t) in ((h, ucast (snd p)) # evs, t'))"

section \<open>Accounting of descriptors\<close>

datatype stub_op =
    Receive "fd option" bool u32 u32
  | Close u32
  | Open "open_what \<Rightarrow> int" bool bool u32 u32 u32
  | Arm u32
  | Disarm u32
  | Relay "(fd \<times> u16) list"

primrec stub_do :: "stub_op \<Rightarrow> stub_table \<Rightarrow> stub_table \<times> fd list" where
  "stub_do (Receive c n i dev) t = snd (receive_fd c n i dev t)"
| "stub_do (Close i) t = handle_close_fd i t"
| "stub_do (Open op d s i dev fl) t = snd (handle_open_device op d s i dev fl t)"
| "stub_do (Arm i) t = (poll_arm i t, [])"
| "stub_do (Disarm i) t = (poll_disarm i t, [])"
| "stub_do (Relay ps) t = (snd (relay_events ps t), [])"

text \<open>The descriptors a command brings into the process, and the handle id it is about.\<close>

primrec brought :: "stub_op \<Rightarrow> fd list" where
  "brought (Receive c n i dev) = filter (\<lambda>f. f \<ge> 0) (case c of None \<Rightarrow> [] | Some f \<Rightarrow> [f])"
| "brought (Close i) = []"
| "brought (Open op d s i dev fl) =
    (case open_target d dev fl of None \<Rightarrow> [] | Some w \<Rightarrow> filter (\<lambda>f. f \<ge> 0) [op w])"
| "brought (Arm i) = []"
| "brought (Disarm i) = []"
| "brought (Relay ps) = []"

primrec op_ok :: "stub_op \<Rightarrow> bool" where
  "op_ok (Receive c n i dev) \<longleftrightarrow> unat i < MAX_HANDLES \<and> (case c of None \<Rightarrow> True | Some f \<Rightarrow> f \<ge> 0)"
| "op_ok (Close i) \<longleftrightarrow> True"
| "op_ok (Open op d s i dev fl) \<longleftrightarrow> unat i < MAX_HANDLES"
| "op_ok (Arm i) \<longleftrightarrow> True"
| "op_ok (Disarm i) \<longleftrightarrow> True"
| "op_ok (Relay ps) \<longleftrightarrow> True"

primrec stub_run :: "stub_op list \<Rightarrow> stub_table \<Rightarrow> stub_table \<times> fd list" where
  "stub_run [] t = (t, [])"
| "stub_run (c # cs) t = (let (t', cl) = stub_do c t; (t'', cl') = stub_run cs t' in (t'', cl @ cl'))"

definition fd_mset :: "fd \<Rightarrow> fd multiset" where
  "fd_mset f = (if f \<ge> 0 then {#f#} else {#})"

definition held :: "stub_table \<Rightarrow> fd multiset" where
  "held t = (\<Sum>k < MAX_HANDLES. fd_mset (handle_fds t k))
     + mset (filter (\<lambda>f. f \<ge> 0) (drop (uvm_local_next_idx t) (uvm_local_fds t)))"

definition pool_ok :: "stub_table \<Rightarrow> bool" where
  "pool_ok t \<longleftrightarrow> length (uvm_local_fds t) = NVKVM_STUB_UVM_LOCAL_POOL_SIZE"

lemma sum_upd_one:
  fixes g :: "'a \<Rightarrow> 'b multiset" and i n :: nat
  assumes "i < n"
  shows "(\<Sum>k < n. g ((f(i := v)) k)) + g (f i) = (\<Sum>k < n. g (f k)) + g v"
proof -
  have i: "i \<in> {..<n}" using assms by simp
  have "(\<Sum>k \<in> {..<n} - {i}. g ((f(i := v)) k)) = (\<Sum>k \<in> {..<n} - {i}. g (f k))"
    by (rule sum.cong) auto
  then show ?thesis
    by (simp add: sum.remove [OF finite_lessThan i] add.assoc add.commute add.left_commute)
qed

lemma fd_mset_simps [simp]: "f \<ge> 0 \<Longrightarrow> fd_mset f = {#f#}" "f < 0 \<Longrightarrow> fd_mset f = {#}"
  by (simp_all add: fd_mset_def)

lemma poll_keeps [simp]:
  "handle_fds (poll_arm i t) = handle_fds t" "uvm_local_fds (poll_arm i t) = uvm_local_fds t"
  "uvm_local_next_idx (poll_arm i t) = uvm_local_next_idx t"
  "handle_fds (poll_disarm i t) = handle_fds t" "uvm_local_fds (poll_disarm i t) = uvm_local_fds t"
  "uvm_local_next_idx (poll_disarm i t) = uvm_local_next_idx t"
  by (simp_all add: poll_arm_def poll_disarm_def Let_def split: option.splits)

lemma relay_keeps [simp]:
  "handle_fds (snd (relay_events ps t)) = handle_fds t" "uvm_local_fds (snd (relay_events ps t)) = uvm_local_fds t"
  "uvm_local_next_idx (snd (relay_events ps t)) = uvm_local_next_idx t"
  by (induction ps arbitrary: t) (simp_all add: Let_def case_prod_beta)

lemma held_cong:
  "handle_fds t' = handle_fds t \<Longrightarrow> uvm_local_fds t' = uvm_local_fds t \<Longrightarrow> uvm_local_next_idx t' = uvm_local_next_idx t
     \<Longrightarrow> held t' = held t \<and> (pool_ok t \<longrightarrow> pool_ok t')"
  by (simp add: held_def pool_ok_def)

lemma held_upd:
  "i < MAX_HANDLES \<Longrightarrow> held (t\<lparr>handle_fds := (handle_fds t)(i := f)\<rparr>) + fd_mset (handle_fds t i) = held t + fd_mset f"
  using sum_upd_one [of i MAX_HANDLES fd_mset "handle_fds t" f]
  by (simp add: held_def add.assoc add.commute add.left_commute)

lemma held_replace:
  "unat i < MAX_HANDLES \<Longrightarrow> handle_replace i f t = (t', cl) \<Longrightarrow> held t' + mset cl = held t + fd_mset f \<and> (pool_ok t \<longrightarrow> pool_ok t')"
  using held_upd [of "unat i" t f] by (auto simp: handle_replace_def handle_store_def fd_mset_def pool_ok_def)

lemma held_remove: "handle_remove i t = (t', cl) \<Longrightarrow> held t' + mset cl = held t \<and> (pool_ok t \<longrightarrow> pool_ok t')"
  using held_upd [of "unat i" "poll_disarm i t" "- 1"] held_cong [of "poll_disarm i t" t]
  by (auto simp: handle_remove_def fd_mset_def pool_ok_def Let_def split: if_splits)

lemma held_receive:
  assumes "receive_fd c n i dev t = (r, t', cl)" and ok: "op_ok (Receive c n i dev)" and "pool_ok t"
  shows "held t' + mset cl = held t + mset (brought (Receive c n i dev)) \<and> pool_ok t'"
proof (cases c)
  case (Some f)
  define pooled where "pooled \<longleftrightarrow> n \<and> dev = 1 \<and> uvm_local_next_idx t < NVKVM_STUB_UVM_LOCAL_POOL_SIZE"
  define own where "own = (if pooled then uvm_local_fds t ! uvm_local_next_idx t else -1)"
  define t1 where "t1 = (if pooled then t\<lparr>uvm_local_next_idx := uvm_local_next_idx t + 1\<rparr> else t)"
  have drop: "pooled \<Longrightarrow> drop (uvm_local_next_idx t) (uvm_local_fds t)
      = own # drop (Suc (uvm_local_next_idx t)) (uvm_local_fds t)"
    using assms(3) by (simp add: pooled_def own_def pool_ok_def Cons_nth_drop_Suc)
  have t1: "held t1 + fd_mset own = held t" "pool_ok t1"
    using drop assms(3) by (cases "own \<ge> 0"; simp add: t1_def held_def own_def pool_ok_def split: if_splits)+
  obtain t2 cl' where rep: "handle_replace i (if own \<ge> 0 then own else f) t1 = (t2, cl')" by fastforce
  have "held t2 + mset cl' = held t1 + fd_mset (if own \<ge> 0 then own else f)" "pool_ok t2"
    using held_replace [OF _ rep] ok t1(2) by auto
  moreover have "t' = t2" "cl = (if own \<ge> 0 then [f] else []) @ cl'"
    using assms(1) rep by (auto simp: receive_fd_def Some Let_def pooled_def own_def t1_def split: prod.splits if_splits)
  ultimately show ?thesis
    using t1 ok by (auto simp: Some fd_mset_def add.assoc add.commute add.left_commute)
qed (use assms in \<open>auto simp: receive_fd_def\<close>)

lemma held_open:
  assumes "handle_open_device op d s i dev fl t = (r, t', cl)" and ok: "op_ok (Open op d s i dev fl)" and "pool_ok t"
  shows "held t' + mset cl = held t + mset (brought (Open op d s i dev fl)) \<and> pool_ok t'"
proof (cases "open_target d dev fl")
  case (Some w)
  obtain t1 cl1 where rep: "handle_replace i (op w) t = (t1, cl1)" by fastforce
  obtain t2 cl2 where rem: "handle_remove i t1 = (t2, cl2)" by fastforce
  note facts = held_replace [OF _ rep] held_remove [OF rem]
  show ?thesis
    using assms facts
    by (auto simp: handle_open_device_def Some Let_def rep rem fd_mset_def add.assoc add.commute add.left_commute
      split: if_splits)
qed (use assms in \<open>auto simp: handle_open_device_def\<close>)

lemma stub_do_held:
  assumes "stub_do c t = (t', cl)" and "op_ok c" and "pool_ok t"
  shows "held t' + mset cl = held t + mset (brought c) \<and> pool_ok t'"
proof (cases c)
  case (Receive x n i dev)
  then show ?thesis using assms held_receive [of x n i dev t] by (cases "receive_fd x n i dev t") auto
next
  case (Open op d s i dev fl)
  then show ?thesis using assms held_open [of op d s i dev fl t] by (cases "handle_open_device op d s i dev fl t") auto
next
  case (Close i)
  then show ?thesis using assms held_remove [of i t t' cl] by (simp add: handle_close_fd_def)
qed (use assms in \<open>auto simp: held_def pool_ok_def\<close>)

lemma stub_run_held:
  "stub_run cs t = (t', cl) \<Longrightarrow> list_all op_ok cs \<Longrightarrow> pool_ok t
     \<Longrightarrow> held t' + mset cl = held t + mset (concat (map brought cs)) \<and> pool_ok t'"
proof (induction cs arbitrary: t cl)
  case (Cons c cs)
  obtain t1 cl1 where 1: "stub_do c t = (t1, cl1)" by fastforce
  obtain cl2 where 2: "stub_run cs t1 = (t', cl2)" "cl = cl1 @ cl2"
    using Cons.prems(1) 1 by (auto split: prod.splits)
  show ?case
    using Cons.IH [OF 2(1)] stub_do_held [OF 1] Cons.prems(2,3) 2(2) by (auto simp: add_ac)
qed simp

section \<open>The poll set\<close>

definition poll_bounded :: "stub_table \<Rightarrow> bool" where
  "poll_bounded t \<longleftrightarrow> distinct (map snd (poll_set t)) \<and> length (poll_set t) \<le> NVKVM_POLL_MAX"

text \<open>Every armed entry polls the descriptor its handle denotes now.\<close>

definition poll_current :: "stub_table \<Rightarrow> bool" where
  "poll_current t \<longleftrightarrow> (\<forall>p \<in> set (poll_set t). handle_lookup t (snd p) = fst p \<and> fst p \<ge> 0)"

definition armed :: "u32 \<Rightarrow> stub_table \<Rightarrow> bool" where
  "armed i t \<longleftrightarrow> i \<in> snd ` set (poll_set t)"

text \<open>A command that does not bring a new descriptor for a handle while it is armed.\<close>

primrec spares_armed :: "stub_op \<Rightarrow> stub_table \<Rightarrow> bool" where
  "spares_armed (Receive c n i dev) t \<longleftrightarrow> \<not> armed i t"
| "spares_armed (Close i) t \<longleftrightarrow> True"
| "spares_armed (Open op d s i dev fl) t \<longleftrightarrow> \<not> armed i t"
| "spares_armed (Arm i) t \<longleftrightarrow> True"
| "spares_armed (Disarm i) t \<longleftrightarrow> True"
| "spares_armed (Relay ps) t \<longleftrightarrow> True"

primrec run_spares :: "stub_op list \<Rightarrow> stub_table \<Rightarrow> bool" where
  "run_spares [] t \<longleftrightarrow> True"
| "run_spares (c # cs) t \<longleftrightarrow> spares_armed c t \<and> run_spares cs (fst (stub_do c t))"

lemma swap_remove_set:
  assumes "i < length xs" and "distinct (map f xs)"
  shows "set (swap_remove i xs) = set xs - {xs ! i}" and "distinct (map f (swap_remove i xs))"
proof -
  have d: "distinct xs" using assms(2) by (simp add: distinct_map)
  then have "mset (swap_remove i xs) = mset_set (set xs - {xs ! i})"
    using mset_swap_remove [OF assms(1)] assms(1) by (simp add: mset_set_Diff flip: mset_set_set)
  then show "set (swap_remove i xs) = set xs - {xs ! i}"
    by (metis finite_Diff finite_set finite_set_mset_mset_set set_mset_mset)
  show "distinct (map f (swap_remove i xs))"
  proof (cases xs rule: rev_cases)
    case (snoc ys y)
    then have "swap_remove i xs = (if i = length ys then ys else ys[i := y])"
      using assms(1) by (auto simp: swap_remove_def list_update_append)
    then show ?thesis
      using assms snoc by (auto simp: map_update intro!: distinct_list_update)
  qed (use assms in simp)
qed

lemma poll_disarm_set:
  assumes "distinct (map snd (poll_set t))"
  shows "set (poll_set (poll_disarm i t)) = {p \<in> set (poll_set t). snd p \<noteq> i}"
    and "distinct (map snd (poll_set (poll_disarm i t)))"
proof -
  have "set (poll_set (poll_disarm i t)) = {p \<in> set (poll_set t). snd p \<noteq> i}
     \<and> distinct (map snd (poll_set (poll_disarm i t)))"
  proof (cases "first_index (\<lambda>p. snd p = i) (poll_set t)")
    case None
    moreover have "\<forall>p \<in> set (poll_set t). snd p \<noteq> i" using None by (simp only: first_index_None)
    ultimately show ?thesis using assms by (auto simp: poll_disarm_def)
  next
    case (Some k)
    then have k: "k < length (poll_set t)" "snd (poll_set t ! k) = i" using first_index_Some by fastforce+
    have "p = poll_set t ! k" if "p \<in> set (poll_set t)" "snd p = i" for p
      using that k assms by (metis distinct_map inj_onD nth_mem)
    then show ?thesis
      using swap_remove_set [OF k(1) assms] k(2) by (auto simp: poll_disarm_def Some)
  qed
  then show "set (poll_set (poll_disarm i t)) = {p \<in> set (poll_set t). snd p \<noteq> i}"
    and "distinct (map snd (poll_set (poll_disarm i t)))" by simp_all
qed

lemma lookup_poll [simp]:
  "handle_lookup (poll_arm i t) = handle_lookup t" "handle_lookup (poll_disarm i t) = handle_lookup t"
  by (simp_all add: handle_lookup_def fun_eq_iff)

lemma poll_arm_ok:
  assumes "poll_bounded t"
  shows "poll_bounded (poll_arm i t)" and "poll_current t \<Longrightarrow> poll_current (poll_arm i t)"
proof -
  show "poll_bounded (poll_arm i t)"
    using assms by (auto simp: poll_bounded_def poll_arm_def Let_def list_ex_iff)
  show "poll_current (poll_arm i t)" if "poll_current t"
    using that unfolding poll_current_def lookup_poll by (auto simp: poll_arm_def Let_def)
qed

lemma poll_disarm_ok:
  assumes "poll_bounded t"
  shows "poll_bounded (poll_disarm i t)" and "poll_current t \<Longrightarrow> poll_current (poll_disarm i t)"
proof -
  have "length (poll_set (poll_disarm i t)) \<le> length (poll_set t)"
    by (simp add: poll_disarm_def split: option.split)
  then show "poll_bounded (poll_disarm i t)"
    using assms poll_disarm_set(2) [of t i] by (simp add: poll_bounded_def)
  show "poll_current (poll_disarm i t)" if "poll_current t"
    using that assms unfolding poll_current_def lookup_poll by (simp add: poll_bounded_def poll_disarm_set(1))
qed

lemma relay_ok:
  "poll_bounded t \<Longrightarrow> poll_bounded (snd (relay_events ps t)) \<and> (poll_current t \<longrightarrow> poll_current (snd (relay_events ps t)))"
proof (induction ps arbitrary: t)
  case (Cons p ps)
  then show ?case using poll_disarm_ok [OF Cons.prems] by (simp add: Let_def case_prod_beta)
qed simp

lemma upd_ok:
  assumes "i \<notin> snd ` set (poll_set t)"
  shows "poll_current (t\<lparr>handle_fds := (handle_fds t)(unat i := f)\<rparr>) \<longleftrightarrow> poll_current t"
proof -
  have "handle_lookup (t\<lparr>handle_fds := (handle_fds t)(unat i := f)\<rparr>) (snd p) = handle_lookup t (snd p)"
    if "p \<in> set (poll_set t)" for p
  proof -
    have "snd p \<noteq> i" using assms that by force
    then have "unat (snd p) \<noteq> unat i" by (simp only: word_unat_eq_iff [symmetric] not_False_eq_True)
    then show ?thesis by (simp add: handle_lookup_def)
  qed
  then show ?thesis by (simp add: poll_current_def)
qed

lemma poll_set_replace [simp]: "poll_set (fst (handle_replace i f t)) = poll_set t"
  by (simp add: handle_replace_def handle_store_def)

lemma replace_ok: "\<not> armed i t \<Longrightarrow> poll_current t \<Longrightarrow> poll_current (fst (handle_replace i f t))"
  using upd_ok [of i t f] by (auto simp: handle_replace_def handle_store_def armed_def)

lemma remove_ok:
  assumes "poll_bounded t"
  shows "poll_bounded (fst (handle_remove i t))" and "poll_current t \<Longrightarrow> poll_current (fst (handle_remove i t))"
proof -
  have "i \<notin> snd ` set (poll_set (poll_disarm i t))"
    using assms by (auto simp: poll_bounded_def poll_disarm_set(1))
  note upd = upd_ok [OF this]
  show "poll_bounded (fst (handle_remove i t))"
    using assms poll_disarm_ok(1) [OF assms, of i] by (simp add: handle_remove_def Let_def poll_bounded_def)
  show "poll_current (fst (handle_remove i t))" if "poll_current t"
    using poll_disarm_ok(2) [OF assms that, of i] that upd by (simp add: handle_remove_def Let_def)
qed

lemma poll_bounded_cong: "poll_set t' = poll_set t \<Longrightarrow> poll_bounded t' = poll_bounded t"
  by (simp add: poll_bounded_def)

lemma receive_ok:
  fixes c n i dev t
  defines "t' \<equiv> fst (snd (receive_fd c n i dev t))"
  assumes "poll_bounded t"
  shows "poll_bounded t'" and "\<not> armed i t \<Longrightarrow> poll_current t \<Longrightarrow> poll_current t'"
proof -
  define pooled where "pooled \<longleftrightarrow> n \<and> dev = 1 \<and> uvm_local_next_idx t < NVKVM_STUB_UVM_LOCAL_POOL_SIZE"
  define own where "own = (if pooled then uvm_local_fds t ! uvm_local_next_idx t else -1)"
  define t1 where "t1 = (if pooled then t\<lparr>uvm_local_next_idx := uvm_local_next_idx t + 1\<rparr> else t)"
  define f where "f = (if own \<ge> 0 then own else the c)"
  have t': "t' = t \<or> t' = fst (handle_replace i f t1)"
    by (cases c) (simp_all add: t'_def receive_fd_def Let_def case_prod_beta t1_def own_def f_def pooled_def)
  have t1: "handle_fds t1 = handle_fds t" "poll_set t1 = poll_set t" by (simp_all add: t1_def)
  show "poll_bounded t'" using assms(2) t' t1 poll_bounded_cong [of t' t] by auto
  have "poll_current t1 = poll_current t" "armed i t1 = armed i t"
    using t1 by (simp_all add: poll_current_def armed_def handle_lookup_def)
  then show "\<not> armed i t \<Longrightarrow> poll_current t \<Longrightarrow> poll_current t'"
    using t' replace_ok [of i t1 f] by auto
qed

lemma open_ok:
  fixes op d s i dev fl t
  defines "t' \<equiv> fst (snd (handle_open_device op d s i dev fl t))"
  assumes "poll_bounded t"
  shows "poll_bounded t'" and "\<not> armed i t \<Longrightarrow> poll_current t \<Longrightarrow> poll_current t'"
proof -
  define f where "f = (case open_target d dev fl of Some w \<Rightarrow> op w | None \<Rightarrow> 0)"
  have t': "t' = t \<or> t' = fst (handle_replace i f t) \<or> t' = fst (handle_remove i (fst (handle_replace i f t)))"
    by (cases "open_target d dev fl") (simp_all add: t'_def handle_open_device_def Let_def case_prod_beta f_def)
  have b: "poll_bounded (fst (handle_replace i f t))"
    using assms(2) poll_bounded_cong [of "fst (handle_replace i f t)" t] by simp
  show "poll_bounded t'" using t' b assms(2) remove_ok(1) [OF b] by auto
  show "\<not> armed i t \<Longrightarrow> poll_current t \<Longrightarrow> poll_current t'"
    using t' replace_ok [of i t f] remove_ok(2) [OF b] by auto
qed

lemma stub_do_poll:
  assumes "poll_bounded t"
  shows "poll_bounded (fst (stub_do c t))"
    and "spares_armed c t \<Longrightarrow> poll_current t \<Longrightarrow> poll_current (fst (stub_do c t))"
  using assms receive_ok open_ok remove_ok poll_arm_ok poll_disarm_ok relay_ok
  by (cases c; simp add: handle_close_fd_def)+

lemma stub_run_poll:
  "poll_bounded t \<Longrightarrow> poll_bounded (fst (stub_run cs t))
     \<and> (run_spares cs t \<longrightarrow> poll_current t \<longrightarrow> poll_current (fst (stub_run cs t)))"
proof (induction cs arbitrary: t)
  case (Cons c cs)
  then show ?case using stub_do_poll [OF Cons.prems, of c] Cons.IH [of "fst (stub_do c t)"]
    by (auto simp: case_prod_beta Let_def)
qed simp

lemma init_ok:
  "length uvm = NVKVM_STUB_UVM_LOCAL_POOL_SIZE \<Longrightarrow>
     pool_ok (handle_table_init uvm) \<and> poll_bounded (handle_table_init uvm) \<and> poll_current (handle_table_init uvm)
     \<and> held (handle_table_init uvm) = mset (filter (\<lambda>f. f \<ge> 0) uvm)"
  by (simp add: handle_table_init_def pool_ok_def poll_bounded_def poll_current_def held_def)


definition exst_run :: "stub_op list" where
  "exst_run = [Receive (Some 10) True 5 1, Open (\<lambda>_. 11) True True 6 0xFF 0, Arm 6, Receive (Some 12) True 7 0, Close 5, Relay [(11, 1)]]"


text \<open>
  A handle that is given a new descriptor while it is armed stays armed on the old one, which is closed: the reader
  then polls a number that no longer belongs to the handle, or belongs to another one.
\<close>

lemma rearmed_handle_polls_closed_fd:
  "let (t, closed) = stub_run [Receive (Some 10) True 6 0, Arm 6, Receive (Some 11) True 6 0, Receive (Some 10) True 7 0] (handle_table_init [3, 4])
   in closed = [10] \<and> poll_set t = [(10, 6)] \<and> handle_lookup t 6 = 11 \<and> handle_lookup t 7 = 10"
  by (simp add: handle_table_init_def receive_fd_def Let_def handle_replace_def handle_store_def poll_arm_def handle_lookup_def
    MAX_HANDLES_def NVKVM_POLL_MAX_def NVKVM_STUB_UVM_LOCAL_POOL_SIZE_def)

end
