(* ===== verification/StubIoctl.thy ===== *)
theory StubIoctl
  imports StubTable
begin

text \<open>
  One forwarded ioctl in a worker of the isolate (\<open>worker_thread\<close> in \<open>stub/nvkvm_stub.c\<close>): the rewriting of
  embedded pointers and descriptors before the driver is called, and their restoration before the answer is sent.

  A job holds the parameter and auxiliary buffers as received; \<open>j_aux_addr\<close> is where the kernel placed the auxiliary
  buffer in the isolate.  The driver is a function \<open>drv\<close> from the descriptor, the ioctl number and the two buffers to
  a return value and the buffers it leaves.  Buffer sizes are natural numbers; the reader limits them to 256 KiB, so
  none of the sums below exceeds its C type.
\<close>

section \<open>Jobs and answers\<close>

record ioctl_job =
  j_txn :: u32
  j_handle :: u32
  j_cmd :: u32
  j_flags :: u32
  j_abi :: u32
  j_param :: mem
  j_param_size :: nat
  j_aux :: mem
  j_aux_addr :: u64
  j_aux_size :: nat

record ioctl_answer =
  a_txn :: u32
  a_retval :: int
  a_nvstatus :: u32
  a_param :: "u8 list"
  a_aux :: "u8 list"

text \<open>What the worker remembers of its rewriting in order to undo it.\<close>

record undo_info =
  sv_regsurf :: "(nat \<times> u32) list"
  sv_drm :: "u32 option"
  sv_list :: bool
  sv_chan :: bool
  sv_str :: bool
  sv_export :: "(nat \<times> u32) option"
  sv_uvm :: "(nat \<times> u32) option"
  sv_fe :: "(nat \<times> u32) option"
  sv_event :: "u32 option"

type_synonym driver = "fd \<Rightarrow> u32 \<Rightarrow> mem \<Rightarrow> mem \<Rightarrow> int \<times> mem \<times> mem"

abbreviation ty_F :: u32 where "ty_F \<equiv> 0x46"
abbreviation ty_d :: u32 where "ty_d \<equiv> 0x64"
abbreviation nvkms_cmd :: u32 where "nvkms_cmd \<equiv> 0xC0106D00"

definition nvkvm_ctrl_list_entry_size :: "u32 \<Rightarrow> nat" where
  "nvkvm_ctrl_list_entry_size cmd =
    (if cmd \<in> {0x00410110, 0x00801104, 0x20800802, 0x20801201, 0x20801301, 0x20801802} then 8
     else if cmd \<in> {0x20800123, 0x00800201} then 4
     else if cmd \<in> {0x00801102, 0x00801301, 0x00801401, 0x00801701, 0x00801b01, 0x00801c02} then 1
     else 0)"

section \<open>Rewriting before the call\<close>

text \<open>The auxiliary buffer's address goes into the parameter block, at an offset chosen by the command alone.\<close>

definition ptr_off :: "ioctl_job \<Rightarrow> nat option" where
  "ptr_off j =
    (let cmd = j_cmd j; type = IOC_TYPE cmd; nr = IOC_NR cmd in
     if cmd = nvkms_cmd \<and> j_param_size j \<ge> 16
        \<or> type = ty_d \<and> (nr = 0x54 \<or> nr = 0x49) \<and> j_param_size j \<ge> 16 then Some 8
     else if type = ty_F \<and> (nr = 0x2a \<or> nr = 0x2b) \<and> j_param_size j \<ge> 24 then Some 16
     else if j_aux_size j > 0 \<and> j_param_size j \<ge> 24 then Some 16
     else None)"

definition wire_aux :: "ioctl_job \<Rightarrow> mem" where
  "wire_aux j =
    (case ptr_off j of
       None \<Rightarrow> j_param j
     | Some off \<Rightarrow> st64 (j_param j) off (if j_aux_size j > 0 then j_aux_addr j else 0))"

text \<open>The planes of a surface registration name handles.\<close>

definition regsurf_plane :: "stub_table \<Rightarrow> nat \<Rightarrow> mem \<times> (nat \<times> u32) list \<Rightarrow> mem \<times> (nat \<times> u32) list" where
  "regsurf_plane t i = (\<lambda>(a, saved).
    let off = 16 + i * 32; hid = ld32 a off; lfd = handle_lookup t hid in
    if sint hid \<le> 0 then (a, saved)
    else if lfd \<ge> 0 then (st32 a off (of_int lfd), saved @ [(off, hid)])
    else (a, saved))"

definition wire_regsurf :: "stub_table \<Rightarrow> ioctl_job \<Rightarrow> mem \<Rightarrow> mem \<Rightarrow> mem \<times> (nat \<times> u32) list" where
  "wire_regsurf t j p a =
    (if j_cmd j = nvkms_cmd \<and> j_param_size j \<ge> 4 \<and> j_aux_size j \<ge> 16 + 3 * 32
        \<and> ld32 p 0 = 17 \<and> a 4 \<noteq> 0
     then fold (regsurf_plane t) [0..<3] (a, []) else (a, []))"

text \<open>A handle in a field of a buffer is replaced by the local descriptor; an unknown handle is left as it is.\<close>

definition wire_fd :: "stub_table \<Rightarrow> nat \<Rightarrow> mem \<Rightarrow> mem \<times> u32 option" where
  "wire_fd t off a =
    (let hid = ld32 a off; lfd = (if sint hid > 0 then handle_lookup t hid else -1) in
     if lfd \<ge> 0 then (st32 a off (of_int lfd), Some hid) else (a, None))"

definition wire_drm_export :: "stub_table \<Rightarrow> ioctl_job \<Rightarrow> mem \<Rightarrow> mem \<times> u32 option" where
  "wire_drm_export t j a =
    (if IOC_TYPE (j_cmd j) = ty_d \<and> IOC_NR (j_cmd j) = 0x49 \<and> j_aux_size j \<ge> 4 then wire_fd t 0 a else (a, None))"

definition aux_clear_ptr :: "nat \<Rightarrow> nat \<Rightarrow> mem \<Rightarrow> mem" where
  "aux_clear_ptr sz off a = (if off \<ge> sz then a else st_bytes a off (replicate (min 8 (sz - off)) 0))"

definition wire_list :: "ioctl_job \<Rightarrow> u32 \<Rightarrow> mem \<Rightarrow> mem \<times> bool" where
  "wire_list j inner a =
    (let esz = nvkvm_ctrl_list_entry_size inner; n = j_aux_size j in
     if esz = 0 \<or> n < 4 then (a, False)
     else let ls = unat (ld32 a 0) in
       if ls > 0 \<and> ls * esz < n \<and> n - ls * esz \<ge> 16
       then (st64 a 8 (j_aux_addr j + of_nat (n - ls * esz)), True)
       else (aux_clear_ptr n 8 a, False))"

definition wire_export :: "stub_table \<Rightarrow> ioctl_job \<Rightarrow> u32 \<Rightarrow> mem \<Rightarrow> mem \<times> (nat \<times> u32) option" where
  "wire_export t j inner a =
    (let off = (if inner = 0x3d05 \<and> j_aux_size j \<ge> 20 then Some 16
                else if inner = 0x3d06 \<and> j_aux_size j \<ge> 4 then Some 0 else None) in
     case off of
       None \<Rightarrow> (a, None)
     | Some k \<Rightarrow> (case wire_fd t k a of (a', s) \<Rightarrow> (a', map_option (Pair k) s)))"

definition wire_channels :: "ioctl_job \<Rightarrow> u32 \<Rightarrow> mem \<Rightarrow> mem \<times> bool" where
  "wire_channels j inner a =
    (if inner = 0x0080170d then
       (let n = j_aux_size j; nc = (if n \<ge> 4 then unat (ld32 a 0) else 0) in
        if nc > 0 \<and> nc \<le> 4096 \<and> n \<ge> 24 + nc * 8
        then (st64 (st64 a 8 (j_aux_addr j + 24)) 16 (j_aux_addr j + 24 + of_nat (nc * 4)), True)
        else (aux_clear_ptr n 16 (aux_clear_ptr n 8 a), False))
     else (a, False))"

definition wire_strings :: "ioctl_job \<Rightarrow> u32 \<Rightarrow> mem \<Rightarrow> mem \<times> bool" where
  "wire_strings j inner a =
    (if inner = 0x00000101 then
       (let n = j_aux_size j; sz = (if n \<ge> 4 then unat (ld32 a 0) else 0) in
        if sz > 0 \<and> sz \<le> 512 \<and> n \<ge> 40 + sz * 3
        then (st64 (st64 (st64 a 8 (j_aux_addr j + 40)) 16 (j_aux_addr j + 40 + of_nat sz)) 24
                (j_aux_addr j + 40 + of_nat (2 * sz)), True)
        else (aux_clear_ptr n 24 (aux_clear_ptr n 16 (aux_clear_ptr n 8 a)), False))
     else (a, False))"

text \<open>The controls with pointers or descriptors inside their own parameters.\<close>

definition wire_control :: "stub_table \<Rightarrow> ioctl_job \<Rightarrow> mem \<Rightarrow> mem \<Rightarrow> mem \<times> bool \<times> (nat \<times> u32) option \<times> bool \<times> bool" where
  "wire_control t j p a =
    (if IOC_NR (j_cmd j) = 0x2a \<and> j_aux_size j > 0 \<and> j_param_size j \<ge> 12 then
       (let inner = ld32 p 8;
            (a1, ls) = wire_list j inner a;
            (a2, ex) = wire_export t j inner a1;
            (a3, ch) = wire_channels j inner a2;
            (a4, st) = wire_strings j inner a3
        in (a4, ls, ex, ch, st))
     else (a, False, None, False, False))"

text \<open>Descriptors in UVM parameters: an unknown handle is refused.\<close>

definition uvm_fd_off :: "ioctl_job \<Rightarrow> nat option" where
  "uvm_fd_off j =
    (let off = (if j_cmd j = 75 then Some 0
                else if j_cmd j = 25 \<or> j_cmd j = 27 then Some 16
                else if j_cmd j = 33 then Some (uvm_map_ext_fd_off (nvkvm_abi_by_id (j_abi j)))
                else None) in
     if j_param_size j < 4 then None
     else case off of Some k \<Rightarrow> if j_param_size j \<ge> k + 4 then Some k else None | None \<Rightarrow> None)"

definition wire_uvm :: "stub_table \<Rightarrow> ioctl_job \<Rightarrow> mem \<Rightarrow> (mem \<times> (nat \<times> u32) option) option" where
  "wire_uvm t j p =
    (case uvm_fd_off j of
       None \<Rightarrow> Some (p, None)
     | Some k \<Rightarrow>
         (let hid = ld32 p k; lfd = (if sint hid > 0 then handle_lookup t hid else -1) in
          if lfd < 0 then None else Some (st32 p k (of_int lfd), Some (k, hid))))"

definition fe_fd_off :: "ioctl_job \<Rightarrow> nat option" where
  "fe_fd_off j =
    (let nr = IOC_NR (j_cmd j);
         off = (if nr = 0x4e \<or> nr = 0x27 then Some 48
                else if nr = 0xce \<or> nr = 0xcf then Some 8
                else if nr = 0xc9 then Some 0 else None) in
     if IOC_TYPE (j_cmd j) \<noteq> ty_F then None
     else case off of Some k \<Rightarrow> if j_param_size j \<ge> k + 4 then Some k else None | None \<Rightarrow> None)"

text \<open>The arrays of an idle-channels request are never passed on.\<close>

definition clear_idle :: "ioctl_job \<Rightarrow> mem \<Rightarrow> mem" where
  "clear_idle j p =
    (if IOC_TYPE (j_cmd j) = ty_F \<and> IOC_NR (j_cmd j) = 0x41 \<and> j_param_size j \<ge> 40
     then st_bytes p 12 (replicate 28 0) else p)"

definition wire_fe :: "stub_table \<Rightarrow> ioctl_job \<Rightarrow> mem \<Rightarrow> (mem \<times> (nat \<times> u32) option) option" where
  "wire_fe t j p =
    (case fe_fd_off j of
       None \<Rightarrow> Some (p, None)
     | Some k \<Rightarrow>
         (let hid = ld32 p k; lfd = handle_lookup t hid in
          if sint hid > 0 then
            (if lfd < 0 then None else Some (st32 p k (of_int lfd), Some (k, hid)))
          else Some (p, Some (k, hid))))"

definition wire_event :: "stub_table \<Rightarrow> ioctl_job \<Rightarrow> mem \<Rightarrow> mem \<Rightarrow> (mem \<times> u32 option) option" where
  "wire_event t j p a =
    (if IOC_TYPE (j_cmd j) = ty_F \<and> IOC_NR (j_cmd j) = 0x2b \<and> j_aux_size j \<ge> 24 \<and> j_param_size j > 32
        \<and> ld32 p 12 \<in> {0x79, 0x05} then
       (let hid = ucast (ld64 a 16) :: u32; lfd = handle_lookup t hid in
        if sint hid > 0 then
          (if lfd < 0 then None else Some (st64 a 16 (ucast (of_int lfd :: u32)), Some hid))
        else Some (a, None))
     else Some (a, None))"

text \<open>All the rewriting, in the order of the code; \<open>None\<close> is the answer \<open>-EBADF\<close> without a call.\<close>

definition prepare :: "stub_table \<Rightarrow> ioctl_job \<Rightarrow> (mem \<times> mem \<times> undo_info) option" where
  "prepare t j =
    (let p1 = wire_aux j;
         (a1, rs) = wire_regsurf t j p1 (j_aux j);
         (a2, drm) = wire_drm_export t j a1;
         (a3, ls, ex, ch, st) = wire_control t j p1 a2
     in case wire_uvm t j p1 of
          None \<Rightarrow> None
        | Some (p2, uv) \<Rightarrow>
            (case wire_fe t j (clear_idle j p2) of
               None \<Rightarrow> None
             | Some (p3, fe) \<Rightarrow>
                 (case wire_event t j p3 a3 of
                    None \<Rightarrow> None
                  | Some (a4, ev) \<Rightarrow>
                      Some (p3, a4, \<lparr>sv_regsurf = rs, sv_drm = drm, sv_list = ls, sv_chan = ch, sv_str = st,
                        sv_export = ex, sv_uvm = uv, sv_fe = fe, sv_event = ev\<rparr>))))"

section \<open>Restoration after the call\<close>

definition put_back :: "(nat \<times> u32) option \<Rightarrow> mem \<Rightarrow> mem" where
  "put_back s m = (case s of None \<Rightarrow> m | Some (k, hid) \<Rightarrow> st32 m k hid)"

definition restore_param :: "ioctl_job \<Rightarrow> undo_info \<Rightarrow> mem \<Rightarrow> mem" where
  "restore_param j sv p =
    (let p1 = put_back (sv_fe sv) (put_back (sv_uvm sv) p) in
     if j_aux_size j > 0
        \<and> (j_cmd j = nvkms_cmd \<and> j_param_size j \<ge> 16
           \<or> IOC_TYPE (j_cmd j) = ty_d \<and> IOC_NR (j_cmd j) = 0x54 \<and> j_param_size j \<ge> 16)
     then st64 p1 8 0
     else if j_aux_size j > 0 \<and> j_param_size j \<ge> 24 then st64 p1 16 0
     else p1)"

definition restore_aux :: "undo_info \<Rightarrow> mem \<Rightarrow> mem" where
  "restore_aux sv a =
    (let a1 = (case sv_event sv of None \<Rightarrow> a | Some hid \<Rightarrow> st64 a 16 (ucast hid));
         a2 = (if sv_str sv then st64 (st64 (st64 a1 8 0) 16 0) 24 0 else a1);
         a3 = (if sv_list sv \<or> sv_chan sv then st64 a2 8 0 else a2);
         a4 = (if sv_chan sv then st64 a3 16 0 else a3);
         a5 = put_back (sv_export sv) a4;
         a6 = put_back (map_option (Pair 0) (sv_drm sv)) a5
     in fold (\<lambda>s. put_back (Some s)) (sv_regsurf sv) a6)"

definition nvstatus_off :: "ioctl_job \<Rightarrow> nat option" where
  "nvstatus_off j =
    (let nr = IOC_NR (j_cmd j); n = j_param_size j in
     if nr = 0x27 then Some 40
     else if nr = 0x29 then Some 12
     else if nr = 0x2a then Some 28
     else if nr = 0x2b then Some (if n = 48 then 40 else 28)
     else if nr = 0x34 then Some 24
     else if nr = 0x35 then Some 20
     else if nr = 0x4a then Some 20
     else if nr = 0x4e then Some 40
     else if nr = 0x4f then Some 24
     else if nr = 0x57 then Some (nvos46_status_off (nvkvm_abi_by_id (j_abi j)))
     else if nr = 0x58 then Some 40
     else if n = 48 then Some 40
     else if n \<ge> 32 then Some 28
     else if n = 16 then Some 12
     else None)"

definition nvstatus_of :: "ioctl_job \<Rightarrow> mem \<Rightarrow> u32" where
  "nvstatus_of j p =
    (if IOC_TYPE (j_cmd j) = ty_F then
       (case nvstatus_off j of
          Some off \<Rightarrow> if off + 4 \<le> j_param_size j then ld32 p off else 0
        | None \<Rightarrow> 0)
     else if j_param_size j \<ge> 4 then ld32 p (j_param_size j - 4)
     else 0)"

text \<open>The kernel returns a value or minus an error number; both reach the caller as 32-bit integers.\<close>

definition c_int :: "int \<Rightarrow> int" where
  "c_int x = signed_take_bit 31 x"

definition ioctl_retval :: "int \<Rightarrow> int" where
  "ioctl_retval ret =
    (let err = (if ret < 0 then c_int (- ret) else 0) in
     if err \<noteq> 0 then - err else c_int (if ret < 0 then -1 else ret))"

definition bad_handle :: "u32 \<Rightarrow> ioctl_answer" where
  "bad_handle txn = \<lparr>a_txn = txn, a_retval = minus_EBADF, a_nvstatus = 0, a_param = [], a_aux = []\<rparr>"

text \<open>One turn of the worker: the call it makes, if any, and the answer it sends.\<close>

definition worker_job :: "stub_table \<Rightarrow> driver \<Rightarrow> ioctl_job \<Rightarrow> (fd \<times> u32 \<times> mem \<times> mem) option \<times> ioctl_answer" where
  "worker_job t drv j =
    (let f = handle_lookup t (j_handle j) in
     if f < 0 then (None, bad_handle (j_txn j))
     else case prepare t j of
       None \<Rightarrow> (None, bad_handle (j_txn j))
     | Some (p, a, sv) \<Rightarrow>
         (case drv f (j_cmd j) p a of (ret, p', a') \<Rightarrow>
            let p'' = restore_param j sv p'; a'' = restore_aux sv a' in
            (Some (f, j_cmd j, p, a),
             \<lparr>a_txn = j_txn j, a_retval = ioctl_retval ret, a_nvstatus = nvstatus_of j p'',
              a_param = ld_bytes p'' 0 (j_param_size j), a_aux = ld_bytes a'' 0 (j_aux_size j)\<rparr>)))"

section \<open>Pointers given to the driver\<close>

text \<open>\<open>n\<close> bytes at the address \<open>v\<close> lie in the job's own auxiliary buffer.\<close>

definition in_aux :: "ioctl_job \<Rightarrow> u64 \<Rightarrow> nat \<Rightarrow> bool" where
  "in_aux j v n \<longleftrightarrow> unat (v - j_aux_addr j) + n \<le> j_aux_size j"

text \<open>
  The pointer field at \<open>off\<close> of the auxiliary buffer is closed: what there is of it is zero, or it is complete and
  points to \<open>n\<close> bytes of that buffer.
\<close>

definition closed_ptr :: "ioctl_job \<Rightarrow> mem \<Rightarrow> nat \<Rightarrow> nat \<Rightarrow> bool" where
  "closed_ptr j a off n \<longleftrightarrow>
     list_all (\<lambda>k. a k = 0) [off..<min (j_aux_size j) (off + 8)] \<or> off + 8 \<le> j_aux_size j \<and> in_aux j (ld64 a off) n"

lemma prepare_SomeE:
  assumes "prepare t j = Some (p, a, sv)"
  obtains a1 a2 a3 p2 where "wire_regsurf t j (wire_aux j) (j_aux j) = (a1, sv_regsurf sv)"
    "wire_drm_export t j a1 = (a2, sv_drm sv)"
    "wire_control t j (wire_aux j) a2 = (a3, sv_list sv, sv_export sv, sv_chan sv, sv_str sv)"
    "wire_uvm t j (wire_aux j) = Some (p2, sv_uvm sv)"
    "wire_fe t j (clear_idle j p2) = Some (p, sv_fe sv)"
    "wire_event t j p a3 = Some (a, sv_event sv)"
  using assms by (auto simp: prepare_def Let_def split: prod.splits option.splits)

lemma type_F_cmd:
  "IOC_TYPE cmd = ty_F \<Longrightarrow> cmd \<noteq> nvkms_cmd \<and> cmd \<noteq> 75 \<and> cmd \<noteq> 25 \<and> cmd \<noteq> 27 \<and> cmd \<noteq> 33"
  by (auto simp: IOC_TYPE_def)

lemma type_d_cmd:
  "IOC_TYPE cmd = ty_d \<Longrightarrow> cmd \<noteq> nvkms_cmd \<and> cmd \<noteq> 75 \<and> cmd \<noteq> 25 \<and> cmd \<noteq> 27 \<and> cmd \<noteq> 33"
  by (auto simp: IOC_TYPE_def)

lemma uvm_fd_off_cmd: "j_cmd j \<notin> {75, 25, 27, 33} \<Longrightarrow> uvm_fd_off j = None"
  by (simp add: uvm_fd_off_def Let_def)

lemma prepare_param:
  assumes "prepare t j = Some (p, a, sv)" and "uvm_fd_off j = None" and "fe_fd_off j = None"
  shows "p = clear_idle j (wire_aux j)" "sv_uvm sv = None" "sv_fe sv = None"
  using assms by (auto elim!: prepare_SomeE simp: wire_uvm_def wire_fe_def)

lemma prepare_ptr8:
  assumes "prepare t j = Some (p, a, sv)"
    and "j_cmd j = nvkms_cmd \<or> IOC_TYPE (j_cmd j) = ty_d \<and> (IOC_NR (j_cmd j) = 0x54 \<or> IOC_NR (j_cmd j) = 0x49)"
    and "16 \<le> j_param_size j"
  shows "ld64 p 8 = (if j_aux_size j > 0 then j_aux_addr j else 0)"
proof -
  have ty: "IOC_TYPE (j_cmd j) \<noteq> ty_F" and cmd: "j_cmd j \<notin> {75, 25, 27, 33}"
    using assms(2) type_d_cmd [of "j_cmd j"] by (auto simp: IOC_TYPE_def)
  have "p = clear_idle j (wire_aux j)"
    using prepare_param(1) [OF assms(1) uvm_fd_off_cmd [OF cmd]] ty by (simp add: fe_fd_off_def)
  moreover have "ptr_off j = Some 8" using assms(2,3) by (auto simp: ptr_off_def Let_def)
  ultimately show ?thesis using ty by (simp add: clear_idle_def wire_aux_def mem_simps)
qed

lemma prepare_ptr16:
  assumes "prepare t j = Some (p, a, sv)" and F: "IOC_TYPE (j_cmd j) = ty_F"
    and nr: "IOC_NR (j_cmd j) = 0x2a \<or> IOC_NR (j_cmd j) = 0x2b" and sz: "24 \<le> j_param_size j"
  shows "p = st64 (j_param j) 16 (if j_aux_size j > 0 then j_aux_addr j else 0)"
proof -
  have "uvm_fd_off j = None" "fe_fd_off j = None"
    using type_F_cmd [OF F] nr by (auto simp: uvm_fd_off_def fe_fd_off_def Let_def)
  then have "p = clear_idle j (wire_aux j)" using prepare_param(1) [OF assms(1)] by simp
  moreover have "clear_idle j (wire_aux j) = wire_aux j" using nr by (auto simp: clear_idle_def)
  moreover have "ptr_off j = Some 16" using F nr sz type_F_cmd [OF F] by (auto simp: ptr_off_def Let_def)
  ultimately show ?thesis by (simp add: wire_aux_def)
qed

lemma prepare_idle:
  assumes "prepare t j = Some (p, a, sv)" and F: "IOC_TYPE (j_cmd j) = ty_F"
    and nr: "IOC_NR (j_cmd j) = 0x41" and sz: "40 \<le> j_param_size j" and k: "12 \<le> k" "k < 40"
  shows "p k = 0"
proof -
  have "uvm_fd_off j = None" "fe_fd_off j = None"
    using type_F_cmd [OF F] nr by (auto simp: uvm_fd_off_def fe_fd_off_def Let_def)
  then have "p = clear_idle j (wire_aux j)" using prepare_param(1) [OF assms(1)] by simp
  then show ?thesis using F nr sz k by (simp add: clear_idle_def st_bytes_def)
qed

lemma clear_ptr_closed:
  "list_all (\<lambda>k. aux_clear_ptr n off a k = 0) [off..<min n (off + 8)]"
  by (auto simp: aux_clear_ptr_def list_all_iff st_bytes_def intro!: nth_replicate)

lemma clear_ptr_frame: "k < off \<or> off + 8 \<le> k \<Longrightarrow> aux_clear_ptr n off a k = a k"
  by (auto simp: aux_clear_ptr_def mem_simps)

lemma clear_ptr_ld32 [mem_simps]: "b + 4 \<le> off \<or> off + 8 \<le> b \<Longrightarrow> ld32 (aux_clear_ptr n off a) b = ld32 a b"
  by (rule ld32_cong) (auto simp: clear_ptr_frame)

lemma in_aux_offset:
  "j_aux_size j \<le> 2 ^ 18 \<Longrightarrow> k + n \<le> j_aux_size j \<Longrightarrow> in_aux j (j_aux_addr j + of_nat k) n"
  by (simp add: in_aux_def)

lemma wire_list_closed:
  assumes "wire_list j inner a = (a', s)" and "nvkvm_ctrl_list_entry_size inner \<noteq> 0" and "j_aux_size j \<le> 2 ^ 18"
  shows "closed_ptr j a' 8 (unat (ld32 a' 0) * nvkvm_ctrl_list_entry_size inner)"
proof -
  let ?e = "nvkvm_ctrl_list_entry_size inner" and ?n = "j_aux_size j" and ?ls = "unat (ld32 a 0)"
  show ?thesis
  proof (cases "?n < 4")
    case True
    then show ?thesis by (simp add: closed_ptr_def)
  next
    case False
    show ?thesis
    proof (cases "?ls > 0 \<and> ?ls * ?e < ?n \<and> ?n - ?ls * ?e \<ge> 16")
      case True
      then have "a' = st64 a 8 (j_aux_addr j + of_nat (?n - ?ls * ?e))"
        using assms(1,2) False by (simp add: wire_list_def Let_def)
      moreover have "in_aux j (j_aux_addr j + of_nat (?n - ?ls * ?e)) (?ls * ?e)"
        using True assms(3) by (intro in_aux_offset) simp_all
      moreover have "16 \<le> ?n" using True by linarith
      ultimately show ?thesis by (simp add: closed_ptr_def mem_simps)
    next
      case f: False
      then have "a' = aux_clear_ptr ?n 8 a" using assms(1,2) False by (auto simp: wire_list_def Let_def split: if_splits)
      then show ?thesis using clear_ptr_closed [of ?n 8 a] by (simp add: closed_ptr_def)
    qed
  qed
qed

lemma wire_channels_closed:
  assumes "wire_channels j 0x0080170d a = (a', s)" and "j_aux_size j \<le> 2 ^ 18" and off: "off \<in> {8, 16}"
  shows "closed_ptr j a' off (unat (ld32 a' 0) * 4)"
proof -
  let ?n = "j_aux_size j"
  define nc where "nc = (if ?n \<ge> 4 then unat (ld32 a 0) else 0)"
  show ?thesis
  proof (cases "nc > 0 \<and> nc \<le> 4096 \<and> ?n \<ge> 24 + nc * 8")
    case True
    then have nc: "nc = unat (ld32 a 0)" "4 \<le> ?n" by (auto simp: nc_def split: if_splits)
    then have a': "a' = st64 (st64 a 8 (j_aux_addr j + of_nat 24)) 16 (j_aux_addr j + of_nat (24 + nc * 4))"
      using assms(1) True [unfolded nc(1)] by (simp add: wire_channels_def Let_def add.assoc)
    have "in_aux j (j_aux_addr j + of_nat 24) (nc * 4)" "in_aux j (j_aux_addr j + of_nat (24 + nc * 4)) (nc * 4)"
      using True assms(2) by (intro in_aux_offset; simp)+
    then show ?thesis using off True nc unfolding a' by (auto simp: closed_ptr_def mem_simps)
  next
    case False
    then have a': "a' = aux_clear_ptr ?n 16 (aux_clear_ptr ?n 8 a)"
      using assms(1) by (auto simp: wire_channels_def nc_def Let_def split: if_splits)
    have "list_all (\<lambda>k. a' k = 0) [off..<min ?n (off + 8)]"
      using off clear_ptr_closed [of ?n 8 a] clear_ptr_closed [of ?n 16 "aux_clear_ptr ?n 8 a"]
      by (auto simp: a' list_all_iff clear_ptr_frame)
    then show ?thesis by (simp add: closed_ptr_def)
  qed
qed

lemma wire_strings_closed:
  assumes "wire_strings j 0x101 a = (a', s)" and "j_aux_size j \<le> 2 ^ 18" and off: "off \<in> {8, 16, 24}"
  shows "closed_ptr j a' off (unat (ld32 a' 0))"
proof -
  let ?n = "j_aux_size j"
  define sz where "sz = (if ?n \<ge> 4 then unat (ld32 a 0) else 0)"
  show ?thesis
  proof (cases "sz > 0 \<and> sz \<le> 512 \<and> ?n \<ge> 40 + sz * 3")
    case True
    then have sz: "sz = unat (ld32 a 0)" "4 \<le> ?n" by (auto simp: sz_def split: if_splits)
    then have a': "a' = st64 (st64 (st64 a 8 (j_aux_addr j + of_nat 40)) 16 (j_aux_addr j + of_nat (40 + sz))) 24
        (j_aux_addr j + of_nat (40 + 2 * sz))"
      using assms(1) True [unfolded sz(1)] by (simp add: wire_strings_def Let_def add.assoc)
    have "in_aux j (j_aux_addr j + of_nat 40) sz" "in_aux j (j_aux_addr j + of_nat (40 + sz)) sz"
      "in_aux j (j_aux_addr j + of_nat (40 + 2 * sz)) sz"
      using True assms(2) by (intro in_aux_offset; simp)+
    then show ?thesis using off True sz unfolding a' by (auto simp: closed_ptr_def mem_simps)
  next
    case False
    then have a': "a' = aux_clear_ptr ?n 24 (aux_clear_ptr ?n 16 (aux_clear_ptr ?n 8 a))"
      using assms(1) by (auto simp: wire_strings_def sz_def Let_def split: if_splits)
    have "list_all (\<lambda>k. a' k = 0) [off..<min ?n (off + 8)]"
      using off clear_ptr_closed [of ?n 8 a] clear_ptr_closed [of ?n 16 "aux_clear_ptr ?n 8 a"]
        clear_ptr_closed [of ?n 24 "aux_clear_ptr ?n 16 (aux_clear_ptr ?n 8 a)"]
      by (auto simp: a' list_all_iff clear_ptr_frame)
    then show ?thesis by (simp add: closed_ptr_def)
  qed
qed

lemma list_control_alone:
  "nvkvm_ctrl_list_entry_size c \<noteq> 0 \<Longrightarrow> c \<noteq> 0x3d05 \<and> c \<noteq> 0x3d06 \<and> c \<noteq> 0x0080170d \<and> c \<noteq> 0x101"
  by (auto simp: nvkvm_ctrl_list_entry_size_def split: if_splits)

lemma wire_control_list:
  assumes "wire_control t j p a = (a', ls, ex, ch, st)" and "IOC_NR (j_cmd j) = 0x2a" "0 < j_aux_size j" "12 \<le> j_param_size j"
    and "nvkvm_ctrl_list_entry_size (ld32 p 8) \<noteq> 0"
  shows "wire_list j (ld32 p 8) a = (a', ls)" "ex = None" "\<not> ch" "\<not> st"
  using assms list_control_alone [OF assms(5)]
  by (auto simp: wire_control_def Let_def wire_export_def wire_channels_def wire_strings_def split: prod.splits)

lemma wire_control_channels:
  assumes "wire_control t j p a = (a', ls, ex, ch, st)" and "IOC_NR (j_cmd j) = 0x2a" "0 < j_aux_size j" "12 \<le> j_param_size j"
    and "ld32 p 8 = 0x0080170d"
  shows "wire_channels j 0x0080170d a = (a', ch)" "\<not> ls" "ex = None" "\<not> st"
  using assms
  by (auto simp: wire_control_def Let_def wire_list_def nvkvm_ctrl_list_entry_size_def wire_export_def wire_strings_def split: prod.splits)

lemma wire_control_strings:
  assumes "wire_control t j p a = (a', ls, ex, ch, st)" and "IOC_NR (j_cmd j) = 0x2a" "0 < j_aux_size j" "12 \<le> j_param_size j"
    and "ld32 p 8 = 0x101"
  shows "wire_strings j 0x101 a = (a', st)" "\<not> ls" "ex = None" "\<not> ch"
  using assms
  by (auto simp: wire_control_def Let_def wire_list_def nvkvm_ctrl_list_entry_size_def wire_export_def wire_channels_def split: prod.splits)

text \<open>For a control the auxiliary buffer given to the driver is what \<open>wire_control\<close> makes of the one received.\<close>

lemma prepare_control:
  assumes "prepare t j = Some (p, a, sv)" and F: "IOC_TYPE (j_cmd j) = ty_F" and nr: "IOC_NR (j_cmd j) = 0x2a"
  shows "wire_control t j (wire_aux j) (j_aux j) = (a, sv_list sv, sv_export sv, sv_chan sv, sv_str sv)"
    and "sv_regsurf sv = []" "sv_drm sv = None" "sv_event sv = None"
proof -
  obtain a1 a2 a3 where stages: "wire_regsurf t j (wire_aux j) (j_aux j) = (a1, sv_regsurf sv)"
    "wire_drm_export t j a1 = (a2, sv_drm sv)"
    "wire_control t j (wire_aux j) a2 = (a3, sv_list sv, sv_export sv, sv_chan sv, sv_str sv)"
    "wire_event t j p a3 = Some (a, sv_event sv)"
    using assms(1) by (rule prepare_SomeE)
  have "a1 = j_aux j" "sv_regsurf sv = []" using stages(1) type_F_cmd [OF F] by (auto simp: wire_regsurf_def)
  moreover have "a2 = a1" "sv_drm sv = None" using stages(2) F by (auto simp: wire_drm_export_def)
  moreover have "a3 = a" "sv_event sv = None" using stages(4) nr by (auto simp: wire_event_def)
  ultimately show "wire_control t j (wire_aux j) (j_aux j) = (a, sv_list sv, sv_export sv, sv_chan sv, sv_str sv)"
    and "sv_regsurf sv = []" "sv_drm sv = None" "sv_event sv = None" using stages(3) by simp_all
qed

lemma worker_call:
  assumes "worker_job t drv j = (Some (f, cmd, p, a), r)"
  obtains sv ret p' a' where "prepare t j = Some (p, a, sv)" "f = handle_lookup t (j_handle j)" "f \<ge> 0" "cmd = j_cmd j"
    "drv f cmd p a = (ret, p', a')"
    "r = \<lparr>a_txn = j_txn j, a_retval = ioctl_retval ret, a_nvstatus = nvstatus_of j (restore_param j sv p'),
       a_param = ld_bytes (restore_param j sv p') 0 (j_param_size j), a_aux = ld_bytes (restore_aux sv a') 0 (j_aux_size j)\<rparr>"
  using assms by (auto simp: worker_job_def Let_def split: if_splits option.splits prod.splits)


definition exsi_table :: stub_table where
  "exsi_table = (handle_table_init [-1, -1])\<lparr>handle_fds := (\<lambda>_. -1)(7 := 20, 9 := 21)\<rparr>"

text \<open>A request for the engine list with a count of 2 in a buffer of 24 bytes, a forged pointer in it.\<close>

definition exsi_job :: ioctl_job where
  "exsi_job = \<lparr>j_txn = 1, j_handle = 7, j_cmd = 0xC020462A, j_flags = 0, j_abi = 570,
     j_param = st32 (st64 (\<lambda>_. 0) 16 0x41414141) 8 0x20800123, j_param_size = 32,
     j_aux = st32 (st64 (\<lambda>_. 0) 8 0x42424242) 0 2, j_aux_addr = 0x7f0000000000, j_aux_size = 24\<rparr>"

lemma exsi_prepare:
  "\<exists>sv. prepare exsi_table exsi_job = Some (st64 (j_param exsi_job) 16 0x7f0000000000, st64 (j_aux exsi_job) 8 0x7f0000000010, sv)
     \<and> sv_list sv \<and> \<not> sv_chan sv \<and> \<not> sv_str sv \<and> sv_export sv = None"
  by (simp add: prepare_def exsi_job_def Let_def wire_aux_def ptr_off_def IOC_TYPE_def IOC_NR_def wire_regsurf_def
    wire_drm_export_def wire_control_def wire_list_def nvkvm_ctrl_list_entry_size_def wire_export_def wire_channels_def
    wire_strings_def wire_uvm_def uvm_fd_off_def wire_fe_def fe_fd_off_def clear_idle_def wire_event_def mem_simps)

lemma exsi_call:
  "\<exists>r. worker_job exsi_table (\<lambda>f cmd p a. (0, p, a)) exsi_job
    = (Some (20, j_cmd exsi_job, st64 (j_param exsi_job) 16 0x7f0000000000, st64 (j_aux exsi_job) 8 0x7f0000000010), r)"
proof -
  obtain sv where prep: "prepare exsi_table exsi_job
      = Some (st64 (j_param exsi_job) 16 0x7f0000000000, st64 (j_aux exsi_job) 8 0x7f0000000010, sv)"
    using exsi_prepare by blast
  have "handle_lookup exsi_table (j_handle exsi_job) = 20"
    by (simp add: exsi_table_def exsi_job_def handle_lookup_def MAX_HANDLES_def)
  then obtain r where call: "worker_job exsi_table (\<lambda>f cmd p a. (0, p, a)) exsi_job
      = (Some (20, j_cmd exsi_job, st64 (j_param exsi_job) 16 0x7f0000000000, st64 (j_aux exsi_job) 8 0x7f0000000010), r)"
    by (simp add: worker_job_def prep Let_def)
  then show ?thesis by blast
qed


section \<open>What the answer shows\<close>

definition blob :: "u8 list \<Rightarrow> mem" where
  "blob bs = (\<lambda>k. bs ! k)"

lemma blob_ld64: "off + 8 \<le> n \<Longrightarrow> ld64 (blob (ld_bytes m 0 n)) off = ld64 m off"
  by (rule ld64_cong) (simp add: blob_def)

lemma blob_ld32: "off + 4 \<le> n \<Longrightarrow> ld32 (blob (ld_bytes m 0 n)) off = ld32 m off"
  by (rule ld32_cong) (simp add: blob_def)

lemma restore_ptr8:
  assumes "j_cmd j = nvkms_cmd \<or> IOC_TYPE (j_cmd j) = ty_d \<and> IOC_NR (j_cmd j) = 0x54"
    and "0 < j_aux_size j" and "16 \<le> j_param_size j"
  shows "ld64 (restore_param j sv p) 8 = 0"
  using assms by (auto simp: restore_param_def Let_def mem_simps)

lemma restore_ptr16:
  assumes "IOC_TYPE (j_cmd j) = ty_F" and "0 < j_aux_size j" and "24 \<le> j_param_size j"
  shows "ld64 (restore_param j sv p) 16 = 0"
  using assms type_F_cmd [OF assms(1)] by (simp add: restore_param_def Let_def mem_simps)

lemma restore_fe:
  assumes "prepare t j = Some (p, a, sv)" and off: "fe_fd_off j = Some k"
  shows "k + 4 \<le> j_param_size j" "ld32 (restore_param j sv p') k = ld32 (j_param j) k"
proof -
  have F: "IOC_TYPE (j_cmd j) = ty_F" and k: "k \<in> {0, 8, 48}" and sz: "k + 4 \<le> j_param_size j"
    and nr: "IOC_NR (j_cmd j) \<noteq> 0x41"
    using off by (auto simp: fe_fd_off_def Let_def split: if_splits option.splits)
  show "k + 4 \<le> j_param_size j" by (rule sz)
  obtain p2 where p: "wire_uvm t j (wire_aux j) = Some (p2, sv_uvm sv)"
    "wire_fe t j (clear_idle j p2) = Some (p, sv_fe sv)"
    using assms(1) by (rule prepare_SomeE)
  have "uvm_fd_off j = None" using type_F_cmd [OF F] by (simp add: uvm_fd_off_cmd)
  then have "p2 = wire_aux j" using p(1) by (simp add: wire_uvm_def)
  then have "sv_fe sv = Some (k, ld32 (wire_aux j) k)"
    using p(2) off nr by (auto simp: wire_fe_def clear_idle_def Let_def split: if_splits)
  moreover have "ld32 (wire_aux j) k = ld32 (j_param j) k"
    using k F type_F_cmd [OF F] by (auto simp: wire_aux_def ptr_off_def Let_def mem_simps)
  ultimately show "ld32 (restore_param j sv p') k = ld32 (j_param j) k"
    using k F type_F_cmd [OF F] by (auto simp: restore_param_def Let_def put_back_def mem_simps)
qed

lemma aux_clear_ld64: "off + 8 \<le> n \<Longrightarrow> ld64 (aux_clear_ptr n off a) off = 0"
proof -
  assume "off + 8 \<le> n"
  then have "aux_clear_ptr n off a (off + i) = 0" if "i < 8" for i
    using clear_ptr_closed [of n off a] that by (simp add: list_all_iff)
  then have "ld64 (aux_clear_ptr n off a) off = ld64 (\<lambda>_. 0) off" by (intro ld64_cong) simp
  then show ?thesis by (simp add: ld64_def ld32_def le32_def)
qed

lemma aux_clear_ld64_other: "b + 8 \<le> off \<or> off + 8 \<le> b \<Longrightarrow> ld64 (aux_clear_ptr n off a) b = ld64 a b"
  by (rule ld64_cong) (auto simp: clear_ptr_frame)

lemma restore_aux_control:
  "sv_regsurf sv = [] \<Longrightarrow> sv_drm sv = None \<Longrightarrow> sv_event sv = None \<Longrightarrow>
    restore_aux sv a =
      put_back (sv_export sv)
       (let a2 = (if sv_str sv then st64 (st64 (st64 a 8 0) 16 0) 24 0 else a);
            a3 = (if sv_list sv \<or> sv_chan sv then st64 a2 8 0 else a2)
        in if sv_chan sv then st64 a3 16 0 else a3)"
  by (simp add: restore_aux_def Let_def put_back_def)

lemma prepare_inner:
  assumes "prepare t j = Some (p, a, sv)" and F: "IOC_TYPE (j_cmd j) = ty_F" and "IOC_NR (j_cmd j) = 0x2a" "24 \<le> j_param_size j"
  shows "ld32 (wire_aux j) 8 = ld32 p 8"
  using prepare_ptr16 [OF assms(1,2)] assms(3,4) type_F_cmd [OF F] F by (auto simp: wire_aux_def ptr_off_def Let_def)

text \<open>A pointer field of a control that the driver was given as non-null comes back as zero.\<close>

lemma restore_list:
  assumes prep: "prepare t j = Some (p, a, sv)" and F: "IOC_TYPE (j_cmd j) = ty_F" and nr: "IOC_NR (j_cmd j) = 0x2a"
    and sz: "0 < j_aux_size j" "24 \<le> j_param_size j" and e: "nvkvm_ctrl_list_entry_size (ld32 p 8) \<noteq> 0"
    and "16 \<le> j_aux_size j" "ld64 a 8 \<noteq> 0"
  shows "ld64 (restore_aux sv a') 8 = 0"
proof -
  note c = prepare_control [OF prep F nr]
  note p8 = prepare_inner [OF prep F nr sz(2)]
  note w = wire_control_list [OF c(1) nr sz(1), unfolded p8, OF _ e]
  have "sv_list sv"
    using w(1) assms(7,8) sz e aux_clear_ld64 [of 8 "j_aux_size j" "j_aux j"]
    by (auto simp: wire_list_def Let_def split: if_splits)
  then show ?thesis using w(2-4) sz(2) c(2-4) by (simp add: restore_aux_control put_back_def mem_simps)
qed

lemma restore_channels:
  assumes prep: "prepare t j = Some (p, a, sv)" and F: "IOC_TYPE (j_cmd j) = ty_F" and nr: "IOC_NR (j_cmd j) = 0x2a"
    and sz: "0 < j_aux_size j" "24 \<le> j_param_size j" and e: "ld32 p 8 = 0x0080170d"
    and "24 \<le> j_aux_size j" "off \<in> {8, 16}" "ld64 a off \<noteq> 0"
  shows "ld64 (restore_aux sv a') off = 0"
proof -
  note c = prepare_control [OF prep F nr]
  note p8 = prepare_inner [OF prep F nr sz(2)]
  note w = wire_control_channels [OF c(1) nr sz(1), unfolded p8, OF _ e]
  have "sv_chan sv"
    using w(1) assms(7-9) sz aux_clear_ld64 [of 8 "j_aux_size j" "j_aux j"]
      aux_clear_ld64 [of 16 "j_aux_size j" "aux_clear_ptr (j_aux_size j) 8 (j_aux j)"]
    by (auto simp: wire_channels_def Let_def aux_clear_ld64_other split: if_splits)
  then show ?thesis using w(2-4) sz(2) c(2-4) assms(8) by (auto simp: restore_aux_control put_back_def mem_simps)
qed

lemma restore_strings:
  assumes prep: "prepare t j = Some (p, a, sv)" and F: "IOC_TYPE (j_cmd j) = ty_F" and nr: "IOC_NR (j_cmd j) = 0x2a"
    and sz: "0 < j_aux_size j" "24 \<le> j_param_size j" and e: "ld32 p 8 = 0x101"
    and "32 \<le> j_aux_size j" "off \<in> {8, 16, 24}" "ld64 a off \<noteq> 0"
  shows "ld64 (restore_aux sv a') off = 0"
proof -
  note c = prepare_control [OF prep F nr]
  note p8 = prepare_inner [OF prep F nr sz(2)]
  note w = wire_control_strings [OF c(1) nr sz(1), unfolded p8, OF _ e]
  let ?a1 = "aux_clear_ptr (j_aux_size j) 8 (j_aux j)"
  let ?a2 = "aux_clear_ptr (j_aux_size j) 16 ?a1"
  have "sv_str sv"
    using w(1) assms(7-9) sz aux_clear_ld64 [of 8 "j_aux_size j" "j_aux j"]
      aux_clear_ld64 [of 16 "j_aux_size j" ?a1] aux_clear_ld64 [of 24 "j_aux_size j" ?a2]
    by (auto simp: wire_strings_def Let_def aux_clear_ld64_other split: if_splits)
  then show ?thesis using w(2-4) sz(2) c(2-4) assms(8) by (auto simp: restore_aux_control put_back_def mem_simps)
qed

lemma restore_export:
  assumes prep: "prepare t j = Some (p, a, sv)" and F: "IOC_TYPE (j_cmd j) = ty_F" and nr: "IOC_NR (j_cmd j) = 0x2a"
    and sz: "0 < j_aux_size j" "24 \<le> j_param_size j"
    and e: "ld32 p 8 = 0x3d05 \<and> k = 16 \<or> ld32 p 8 = 0x3d06 \<and> k = 0" and k: "k + 4 \<le> j_aux_size j"
    and hid: "0 < sint (ld32 (j_aux j) k)" "0 \<le> handle_lookup t (ld32 (j_aux j) k)"
  shows "ld32 (restore_aux sv a') k = ld32 (j_aux j) k"
proof -
  note c = prepare_control [OF prep F nr]
  note p8 = prepare_inner [OF prep F nr sz(2)]
  have "sv_export sv = Some (k, ld32 (j_aux j) k)"
    using c(1) e k hid nr sz p8
    by (auto simp: wire_control_def Let_def wire_list_def nvkvm_ctrl_list_entry_size_def wire_export_def wire_fd_def
      wire_channels_def wire_strings_def split: prod.splits)
  then show ?thesis using c(2-4) by (simp add: restore_aux_control put_back_def mem_simps)
qed


text \<open>C27: Exporting a GEM buffer is the exception.  Its parameter block of 24 bytes carries the pointer at offset 8, where the
  worker writes the address of the auxiliary buffer before the call, but the restoration clears offset 16: the answer
  tells the guest the isolate's address, and the size field at offset 16 comes back as zero whatever it was.
\<close>

theorem gem_export_leaks_address:
  assumes "IOC_TYPE (j_cmd j) = 0x64" "IOC_NR (j_cmd j) = 0x49" "j_param_size j = 24" "0 < j_aux_size j"
    and "0 \<le> handle_lookup t (j_handle j)"
    and drv: "\<And>f cmd p a. fst (snd (drv f cmd p a)) = p"
  shows "\<exists>call. fst (worker_job t drv j) = Some call
    \<and> ld64 (blob (a_param (snd (worker_job t drv j)))) 8 = j_aux_addr j
    \<and> ld64 (blob (a_param (snd (worker_job t drv j)))) 16 = 0"
proof -
  have d: "j_cmd j \<noteq> nvkms_cmd" "j_cmd j \<notin> {75, 25, 27, 33}" using type_d_cmd [OF assms(1)] by auto
  have none: "uvm_fd_off j = None" "fe_fd_off j = None"
    using uvm_fd_off_cmd [OF d(2)] assms(1) by (auto simp: fe_fd_off_def)
  have "prepare t j \<noteq> None"
    using none assms(1) by (simp add: prepare_def wire_uvm_def wire_fe_def wire_event_def Let_def case_prod_beta)
  then obtain p a sv where prep: "prepare t j = Some (p, a, sv)" by auto
  have p: "ld64 p 8 = j_aux_addr j" using prepare_ptr8 [OF prep] assms(1-4) by simp
  obtain ret a' where drvE: "drv (handle_lookup t (j_handle j)) (j_cmd j) p a = (ret, p, a')"
    using drv [of "handle_lookup t (j_handle j)" "j_cmd j" p a] by (metis prod.collapse)
  have rest: "restore_param j sv p = st64 p 16 0"
    using prepare_param(2,3) [OF prep none] assms(1-4) d(1) by (simp add: restore_param_def put_back_def)
  have "worker_job t drv j = (Some (handle_lookup t (j_handle j), j_cmd j, p, a),
      \<lparr>a_txn = j_txn j, a_retval = ioctl_retval ret, a_nvstatus = nvstatus_of j (st64 p 16 0),
       a_param = ld_bytes (st64 p 16 0) 0 24, a_aux = ld_bytes (restore_aux sv a') 0 (j_aux_size j)\<rparr>)"
    using assms(3,5) by (simp add: worker_job_def prep drvE rest Let_def)
  then show ?thesis using p by (simp add: blob_ld64 mem_simps)
qed

definition exsi_gem :: ioctl_job where
  "exsi_gem = exsi_job\<lparr>j_cmd := 0xC0186449, j_param := st32 (\<lambda>_. 0) 0 1, j_param_size := 24, j_aux := st32 (\<lambda>_. 0) 0 9, j_aux_size := 4\<rparr>"

theorem gem_export_leaks_address_witness:
  "\<exists>call. fst (worker_job exsi_table (\<lambda>f cmd p a. (0, p, a)) exsi_gem) = Some call
    \<and> ld64 (blob (a_param (snd (worker_job exsi_table (\<lambda>f cmd p a. (0, p, a)) exsi_gem)))) 8 = 0x7f0000000000
    \<and> ld64 (blob (a_param (snd (worker_job exsi_table (\<lambda>f cmd p a. (0, p, a)) exsi_gem)))) 16 = 0"
proof -
  have "j_aux_addr exsi_gem = 0x7f0000000000" by (simp add: exsi_gem_def exsi_job_def)
  moreover have "IOC_TYPE (j_cmd exsi_gem) = 0x64" "IOC_NR (j_cmd exsi_gem) = 0x49" "j_param_size exsi_gem = 24"
    "0 < j_aux_size exsi_gem" "0 \<le> handle_lookup exsi_table (j_handle exsi_gem)"
    by (simp_all add: exsi_gem_def exsi_job_def IOC_TYPE_def IOC_NR_def exsi_table_def handle_lookup_def MAX_HANDLES_def)
  ultimately show ?thesis
    using gem_export_leaks_address [of exsi_gem exsi_table "\<lambda>f cmd p a. (0, p, a)"] by simp
qed


text \<open>
  A handle the table does not know is refused in the parameters of UVM and frontend commands, but left in place in
  the buffers of the export and import controls: there the driver takes the guest's number for a descriptor of the
  isolate.
\<close>

lemma unknown_export_handle_reaches_driver:
  assumes prep: "prepare t j = Some (p, a, sv)" and F: "IOC_TYPE (j_cmd j) = ty_F" and nr: "IOC_NR (j_cmd j) = 0x2a"
    and sz: "20 \<le> j_aux_size j" "24 \<le> j_param_size j" and "ld32 p 8 = 0x3d05" and "handle_lookup t (ld32 (j_aux j) 16) < 0"
  shows "ld32 a 16 = ld32 (j_aux j) 16"
  using prepare_control(1) [OF prep F nr] prepare_inner [OF prep F nr sz(2)] assms(3-)
  by (auto simp: wire_control_def Let_def wire_list_def nvkvm_ctrl_list_entry_size_def wire_export_def wire_fd_def
      wire_channels_def wire_strings_def split: prod.splits if_splits)

text \<open>
  The number of bytes the driver copies through a control's pointer is the guest's: it is compared with the size of the
  auxiliary buffer neither here nor in the device's handler.
\<close>

lemma control_length_unchecked:
  assumes "worker_job t drv j = (Some (f, cmd, p, a), r)" and "IOC_TYPE cmd = 0x46" "IOC_NR cmd = 0x2a"
    and "28 \<le> j_param_size j" "0 < j_aux_size j" "j_aux_size j < unat (ld32 (j_param j) 24)"
  shows "ld64 p 16 = j_aux_addr j \<and> ld32 p 24 = ld32 (j_param j) 24 \<and> \<not> in_aux j (ld64 p 16) (unat (ld32 p 24))"
proof -
  obtain sv where prep: "prepare t j = Some (p, a, sv)" and cmd: "cmd = j_cmd j" using assms(1) by (rule worker_call)
  show ?thesis using prepare_ptr16 [OF prep] assms(2-) cmd by (simp add: mem_simps in_aux_def)
qed

end
