(* ===== verification/StubJobs.thy ===== *)
theory StubJobs
  imports StubIoctl
begin

text \<open>
  The thread pool of the isolate: the reader that turns an ioctl command into a job, the job array, and the sixteen
  workers (\<open>stub/nvkvm_stub.c\<close>).

  The contract of the job array is that of a bounded bag: it keeps every job it accepts until a worker takes it, but
  it promises no order.  Threads are interleaved at the points where the code takes and drops its locks.
\<close>

section \<open>A bounded bag\<close>

locale bounded_bag =
  fixes inv :: "'s \<Rightarrow> bool"
    and contents :: "'s \<Rightarrow> 'a multiset"
    and room :: "'s \<Rightarrow> nat"
    and put :: "'a \<Rightarrow> 's \<Rightarrow> 's option"
    and get :: "'s \<Rightarrow> ('a \<times> 's) option"
  assumes put_Some: "inv s \<Longrightarrow> put x s = Some s' \<Longrightarrow> inv s' \<and> contents s' = add_mset x (contents s)"
    and put_None: "inv s \<Longrightarrow> put x s = None \<Longrightarrow> size (contents s) = room s"
    and get_Some: "inv s \<Longrightarrow> get s = Some (x, s') \<Longrightarrow> inv s' \<and> contents s = add_mset x (contents s')"
    and get_None: "inv s \<Longrightarrow> get s = None \<Longrightarrow> contents s = {#}"
begin

lemma get_empty: "inv s \<Longrightarrow> contents s = {#} \<Longrightarrow> get s = None"
  using get_Some by (cases "get s") fastforce+

lemma get_progress: "inv s \<Longrightarrow> contents s \<noteq> {#} \<Longrightarrow> \<exists>x s'. get s = Some (x, s') \<and> size (contents s') < size (contents s)"
proof -
  assume "inv s" "contents s \<noteq> {#}"
  then obtain x s' where g: "get s = Some (x, s')" using get_None by (cases "get s") auto
  then have "size (contents s') < size (contents s)" using get_Some [OF \<open>inv s\<close> g] by simp
  with g show ?thesis by blast
qed

end

section \<open>The job array\<close>

definition MAX_INFLIGHT :: nat where "MAX_INFLIGHT = 64"
definition MAX_PARAM_SIZE :: nat where "MAX_PARAM_SIZE = 256 * 1024"
definition NVKVM_STUB_WORKERS :: nat where "NVKVM_STUB_WORKERS = 16"

type_synonym job_queue = "ioctl_job option list"

definition job_queue_init :: job_queue where
  "job_queue_init = replicate MAX_INFLIGHT None"

definition enqueue_job :: "ioctl_job \<Rightarrow> job_queue \<Rightarrow> job_queue option" where
  "enqueue_job j q = map_option (\<lambda>i. q[i := Some j]) (first_index (\<lambda>s. s = None) q)"

definition dequeue_job :: "job_queue \<Rightarrow> (ioctl_job \<times> job_queue) option" where
  "dequeue_job q = map_option (\<lambda>i. (the (q ! i), q[i := None])) (first_index (\<lambda>s. s \<noteq> None) q)"

definition queued :: "job_queue \<Rightarrow> ioctl_job multiset" where
  "queued q = mset (map the (filter (\<lambda>s. s \<noteq> None) q))"

definition queue_ok :: "job_queue \<Rightarrow> bool" where
  "queue_ok q \<longleftrightarrow> length q = MAX_INFLIGHT"

lemma queued_upd:
  assumes "i < length q"
  shows "queued (q[i := x]) + queued [q ! i] = queued q + queued [x]"
proof -
  have q: "q = take i q @ q ! i # drop (Suc i) q" using assms by (rule id_take_nth_drop)
  have upd: "q[i := x] = take i q @ x # drop (Suc i) q" using assms by (rule upd_conv_take_nth_drop)
  show ?thesis unfolding upd by (subst (3) q) (simp add: queued_def)
qed

lemma queued_fill: "i < length q \<Longrightarrow> q ! i = None \<Longrightarrow> queued (q[i := Some j]) = add_mset j (queued q)"
  using queued_upd [of i q "Some j"] by (simp add: queued_def)

lemma queued_clear: "i < length q \<Longrightarrow> q ! i = Some j \<Longrightarrow> queued q = add_mset j (queued (q[i := None]))"
  using queued_upd [of i q None] by (simp add: queued_def)

lemma queued_all:
  assumes "\<forall>s \<in> set q. s \<noteq> None"
  shows "size (queued q) = length q"
  using assms by (simp add: queued_def)

lemma enqueue_Some:
  assumes "enqueue_job j q = Some q'"
  shows "length q' = length q" "queued q' = add_mset j (queued q)"
proof -
  obtain i where i: "first_index (\<lambda>s. s = None) q = Some i" "q' = q[i := Some j]"
    using assms by (auto simp: enqueue_job_def)
  then have "i < length q" "q ! i = None" using first_index_Some by fastforce+
  then show "length q' = length q" "queued q' = add_mset j (queued q)"
    using i(2) by (simp_all add: queued_fill)
qed

lemma dequeue_Some:
  assumes "dequeue_job q = Some (j, q')"
  shows "length q' = length q" "queued q = add_mset j (queued q')"
proof -
  obtain i where i: "first_index (\<lambda>s. s \<noteq> None) q = Some i" "j = the (q ! i)" "q' = q[i := None]"
    using assms by (auto simp: dequeue_job_def)
  then have "i < length q" "q ! i = Some j" using first_index_Some [OF i(1)] by auto
  then show "length q' = length q" "queued q = add_mset j (queued q')"
    using i(3) queued_clear [of i q j] by simp_all
qed

interpretation jq: bounded_bag queue_ok queued length enqueue_job dequeue_job
proof unfold_locales
  fix q x
  assume "enqueue_job x q = None"
  then have "\<forall>s \<in> set q. s \<noteq> None" by (simp add: enqueue_job_def first_index_None)
  then show "size (queued q) = length q" by (rule queued_all)
next
  fix q assume "dequeue_job q = None"
  then have "\<forall>s \<in> set q. s = None" unfolding dequeue_job_def by (auto simp: first_index_None simp del: not_None_eq)
  then show "queued q = {#}" by (simp add: queued_def)
qed (auto simp: queue_ok_def dest: enqueue_Some dequeue_Some)

text \<open>The array is no queue: a job in a later slot waits while earlier slots are refilled.\<close>

lemma job_array_not_fifo:
  fixes j1 j2 j3 :: ioctl_job
  shows "\<exists>q1 q2 q3 q4. enqueue_job j1 job_queue_init = Some q1 \<and> enqueue_job j2 q1 = Some q2
    \<and> dequeue_job q2 = Some (j1, q3) \<and> enqueue_job j3 q3 = Some q4 \<and> fst (the (dequeue_job q4)) = j3"
proof -
  have init: "job_queue_init = None # None # replicate 62 None"
    by (simp add: job_queue_init_def MAX_INFLIGHT_def flip: replicate_Suc)
  show ?thesis unfolding init by (simp add: enqueue_job_def dequeue_job_def)
qed

section \<open>The reader\<close>

record ioctl_cmd =
  c_txn :: u32
  c_handle :: u32
  c_cmd :: u32
  c_flags :: u32
  c_abi :: u32
  c_param_size :: u32
  c_aux_size :: u32

definition refusal :: "int \<Rightarrow> u32 \<Rightarrow> ioctl_answer" where
  "refusal e txn = \<lparr>a_txn = txn, a_retval = e, a_nvstatus = 0, a_param = [], a_aux = []\<rparr>"

text \<open>
  A blob that follows the command: the address of the buffer and the bytes received into it, or \<open>None\<close> if the buffer
  cannot be had or the socket fails.  Buffers come zero-filled from the kernel.
\<close>

type_synonym blob_in = "(u64 \<times> u8 list) option"

definition read_blob :: "u32 \<Rightarrow> blob_in \<Rightarrow> (u64 \<times> mem) option" where
  "read_blob n b =
    (if n = 0 then Some (0, \<lambda>_. 0)
     else map_option (\<lambda>(addr, bs). (addr, st_bytes (\<lambda>_. 0) 0 (take (unat n) bs))) b)"

text \<open>The job the command asks for, or the answer that refuses it at once.\<close>

definition read_job :: "ioctl_cmd \<Rightarrow> blob_in \<Rightarrow> blob_in \<Rightarrow> ioctl_answer + ioctl_job" where
  "read_job c pb ab =
    (if unat (c_param_size c) > MAX_PARAM_SIZE \<or> unat (c_aux_size c) > MAX_PARAM_SIZE
     then Inl (refusal minus_EINVAL (c_txn c))
     else case read_blob (c_param_size c) pb of
       None \<Rightarrow> Inl (refusal minus_ENOMEM (c_txn c))
     | Some (_, p) \<Rightarrow>
         (case read_blob (c_aux_size c) ab of
            None \<Rightarrow> Inl (refusal minus_ENOMEM (c_txn c))
          | Some (addr, a) \<Rightarrow>
              Inr \<lparr>j_txn = c_txn c, j_handle = c_handle c, j_cmd = c_cmd c, j_flags = c_flags c, j_abi = c_abi c,
                j_param = p, j_param_size = unat (c_param_size c), j_aux = a, j_aux_addr = addr,
                j_aux_size = unat (c_aux_size c)\<rparr>))"

definition handle_ioctl_cmd :: "ioctl_cmd \<Rightarrow> blob_in \<Rightarrow> blob_in \<Rightarrow> job_queue \<Rightarrow> job_queue \<times> ioctl_answer list" where
  "handle_ioctl_cmd c pb ab q =
    (case read_job c pb ab of
       Inl r \<Rightarrow> (q, [r])
     | Inr j \<Rightarrow>
         (case enqueue_job j q of
            Some q' \<Rightarrow> (q', [])
          | None \<Rightarrow> (q, [refusal minus_ENOMEM (c_txn c)])))"

section \<open>The threads\<close>

record pool =
  pl_queue :: job_queue
  pl_run :: "ioctl_job option list"
  pl_inflight :: "u32 list"
  pl_sent :: "ioctl_answer list"

text \<open>The first worker that is inside the driver for a transaction; transaction 0 is never interrupted.\<close>

definition interrupt_txn :: "u32 \<Rightarrow> pool \<Rightarrow> nat option" where
  "interrupt_txn txn s = (if txn = 0 then None else first_index (\<lambda>x. x = txn) (pl_inflight s))"

inductive pool_step :: "pool \<Rightarrow> u32 option \<Rightarrow> pool \<Rightarrow> bool" where
  read: "handle_ioctl_cmd c pb ab (pl_queue s) = (q, rs)
    \<Longrightarrow> pool_step s (Some (c_txn c)) (s\<lparr>pl_queue := q, pl_sent := pl_sent s @ rs\<rparr>)"
| take: "w < length (pl_run s) \<Longrightarrow> pl_run s ! w = None \<Longrightarrow> dequeue_job (pl_queue s) = Some (j, q)
    \<Longrightarrow> pool_step s None (s\<lparr>pl_queue := q, pl_run := (pl_run s)[w := Some j]\<rparr>)"
| enter: "w < length (pl_run s) \<Longrightarrow> pl_run s ! w = Some j
    \<Longrightarrow> pool_step s None (s\<lparr>pl_inflight := (pl_inflight s)[w := j_txn j]\<rparr>)"
| finish: "w < length (pl_run s) \<Longrightarrow> pl_run s ! w = Some j
    \<Longrightarrow> pool_step s None (s\<lparr>pl_run := (pl_run s)[w := None], pl_inflight := (pl_inflight s)[w := 0],
          pl_sent := pl_sent s @ [snd (worker_job t drv j)]\<rparr>)"

inductive pool_run :: "pool \<Rightarrow> u32 list \<Rightarrow> pool \<Rightarrow> bool" where
  none: "pool_run s [] s"
| more: "pool_run s txns s' \<Longrightarrow> pool_step s' a s'' \<Longrightarrow> pool_run s (txns @ (case a of None \<Rightarrow> [] | Some x \<Rightarrow> [x])) s''"

definition pool_init :: pool where
  "pool_init = \<lparr>pl_queue = job_queue_init, pl_run = replicate NVKVM_STUB_WORKERS None,
     pl_inflight = replicate NVKVM_STUB_WORKERS 0, pl_sent = []\<rparr>"

definition jobs_ok :: "pool \<Rightarrow> bool" where
  "jobs_ok s \<longleftrightarrow> queue_ok (pl_queue s) \<and> length (pl_run s) = NVKVM_STUB_WORKERS \<and> length (pl_inflight s) = NVKVM_STUB_WORKERS
     \<and> (\<forall>w < NVKVM_STUB_WORKERS. pl_inflight s ! w \<noteq> 0 \<longrightarrow> (\<exists>j. pl_run s ! w = Some j \<and> j_txn j = pl_inflight s ! w))"

definition waiting :: "pool \<Rightarrow> u32 multiset" where
  "waiting s = image_mset j_txn (queued (pl_queue s) + queued (pl_run s))"

definition replied :: "pool \<Rightarrow> u32 multiset" where
  "replied s = mset (map a_txn (pl_sent s))"

lemma worker_answer_txn: "a_txn (snd (worker_job t drv j)) = j_txn j"
  by (auto simp: worker_job_def bad_handle_def Let_def split: option.splits prod.splits)

lemma read_job_txn: "read_job c pb ab = Inl r \<Longrightarrow> a_txn r = c_txn c" "read_job c pb ab = Inr j \<Longrightarrow> j_txn j = c_txn c"
  by (auto simp: read_job_def refusal_def split: if_splits option.splits)

lemma pool_step_ok:
  assumes "pool_step s a s'" and "jobs_ok s"
  shows "jobs_ok s' \<and> replied s' + waiting s' = replied s + waiting s + (case a of None \<Rightarrow> {#} | Some x \<Rightarrow> {#x#})"
  using assms
proof cases
  case (read c pb ab q rs)
  then show ?thesis
    using assms(2) enqueue_Some
    by (auto simp: handle_ioctl_cmd_def jobs_ok_def queue_ok_def replied_def waiting_def refusal_def read_job_txn
      split: sum.splits option.splits)
next
  case (take w j q)
  have "queued ((pl_run s)[w := Some j]) = add_mset j (queued (pl_run s))"
    by (rule queued_fill [OF take(3,4)])
  then show ?thesis
    using take assms(2) dequeue_Some [OF take(5)] by (auto simp: jobs_ok_def queue_ok_def replied_def waiting_def nth_list_update)
next
  case (enter w j)
  then show ?thesis using assms(2) by (auto simp: jobs_ok_def replied_def waiting_def nth_list_update)
next
  case (finish w j t drv)
  have "queued (pl_run s) = add_mset j (queued ((pl_run s)[w := None]))"
    by (rule queued_clear [OF finish(3,4)])
  then show ?thesis
    using finish assms(2) by (auto simp: jobs_ok_def replied_def waiting_def nth_list_update worker_answer_txn)
qed

lemma init_jobs_ok: "jobs_ok pool_init" "replied pool_init = {#}" "waiting pool_init = {#}"
  by (simp_all add: pool_init_def jobs_ok_def queue_ok_def job_queue_init_def replied_def waiting_def queued_def)

lemma pool_run_ok:
  "pool_run s txns s' \<Longrightarrow> jobs_ok s \<Longrightarrow> jobs_ok s' \<and> replied s' + waiting s' = replied s + waiting s + mset txns"
proof (induction rule: pool_run.induct)
  case (more s txns s' a s'')
  then have "jobs_ok s'" "replied s' + waiting s' = replied s + waiting s + mset txns" by auto
  with pool_step_ok [OF more.hyps(2)] show ?case by (cases a) auto
qed simp

lemma pool_run_trans: "pool_run s' txns' s'' \<Longrightarrow> pool_run s txns s' \<Longrightarrow> pool_run s (txns @ txns') s''"
proof (induction rule: pool_run.induct)
  case (more s' txns' t a t')
  then show ?case using pool_run.more [of s "txns @ txns'" t a t'] by simp
qed simp

lemma one_step: "pool_step s None s' \<Longrightarrow> pool_run s [] s'"
  using pool_run.more [OF pool_run.none, of s None s'] by simp

text \<open>The workers alone can always bring the pool to rest.\<close>

lemma pool_drains:
  "jobs_ok s \<Longrightarrow> \<exists>s'. pool_run s [] s' \<and> waiting s' = {#}"
proof (induction "2 * size (queued (pl_queue s)) + size (queued (pl_run s))" arbitrary: s rule: less_induct)
  case less
  consider "queued (pl_run s) \<noteq> {#}" | "queued (pl_run s) = {#}" "queued (pl_queue s) \<noteq> {#}"
    | "queued (pl_run s) = {#}" "queued (pl_queue s) = {#}" by blast
  then show ?case
  proof cases
    case 1
    then have "set (filter (\<lambda>s. s \<noteq> None) (pl_run s)) \<noteq> {}" by (auto simp: queued_def)
    then obtain j where "Some j \<in> set (pl_run s)" by auto
    then obtain w where w: "w < length (pl_run s)" "pl_run s ! w = Some j" by (auto simp: in_set_conv_nth)
    obtain t :: stub_table and drv :: driver where True by blast
    define s1 where "s1 = s\<lparr>pl_run := (pl_run s)[w := None], pl_inflight := (pl_inflight s)[w := 0],
      pl_sent := pl_sent s @ [snd (worker_job t drv j)]\<rparr>"
    have step: "pool_step s None s1" unfolding s1_def by (rule pool_step.finish [OF w])
    have "size (queued (pl_run s1)) < size (queued (pl_run s))" "pl_queue s1 = pl_queue s"
      using queued_clear [OF w] by (simp_all add: s1_def)
    then obtain s' where "pool_run s1 [] s'" "waiting s' = {#}"
      using less.hyps [of s1] pool_step_ok [OF step less.prems] by auto
    then show ?thesis using pool_run_trans [OF _ one_step [OF step]] by auto
  next
    case 2
    obtain j q where d: "dequeue_job (pl_queue s) = Some (j, q)"
      using jq.get_progress [of "pl_queue s"] 2(2) less.prems by (auto simp: jobs_ok_def)
    have w: "0 < length (pl_run s)" using less.prems by (simp add: jobs_ok_def NVKVM_STUB_WORKERS_def)
    have idle: "pl_run s ! 0 = None"
      using queued_clear [OF w] 2(1) by (cases "pl_run s ! 0") simp_all
    define s1 where "s1 = s\<lparr>pl_queue := q, pl_run := (pl_run s)[0 := Some j]\<rparr>"
    have step: "pool_step s None s1" unfolding s1_def by (rule pool_step.take [OF w idle d])
    have "size (queued (pl_queue s)) = Suc (size (queued (pl_queue s1)))" "size (queued (pl_run s1)) \<le> Suc (size (queued (pl_run s)))"
      using dequeue_Some [OF d] queued_fill [OF w idle, of j] by (simp_all add: s1_def)
    then obtain s' where "pool_run s1 [] s'" "waiting s' = {#}"
      using less.hyps [of s1] pool_step_ok [OF step less.prems] by auto
    then show ?thesis using pool_run_trans [OF _ one_step [OF step]] by auto
  next
    case 3
    then show ?thesis using pool_run.none [of s] by (auto simp: waiting_def)
  qed
qed

text \<open>C28: Every ioctl command is answered exactly once.  In every state that the reader and the workers can reach, in any
  interleaving, the transactions answered and those queued or executing are together exactly the transactions of the
  commands read; the workers alone can finish, and then every command has one answer under its own transaction.  An
  interrupt is only sent to a worker that is executing the transaction it names.\<close>

theorem every_ioctl_answered:
  assumes "pool_run pool_init txns s"
  shows "mset (map a_txn (pl_sent s)) + image_mset j_txn (queued (pl_queue s) + queued (pl_run s)) = mset txns
    \<and> (\<exists>s'. pool_run s [] s' \<and> mset (map a_txn (pl_sent s')) = mset txns)
    \<and> (\<forall>txn w. interrupt_txn txn s = Some w \<longrightarrow> (\<exists>j. pl_run s ! w = Some j \<and> j_txn j = txn))"
proof (intro conjI allI impI)
  have ok: "jobs_ok s" "replied s + waiting s = mset txns"
    using pool_run_ok [OF assms] init_jobs_ok by auto
  then show "mset (map a_txn (pl_sent s)) + image_mset j_txn (queued (pl_queue s) + queued (pl_run s)) = mset txns"
    by (simp add: replied_def waiting_def)
  obtain s' where run: "pool_run s [] s'" "waiting s' = {#}" using pool_drains [OF ok(1)] by blast
  then have "replied s' = mset txns" using pool_run_ok [OF run(1) ok(1)] ok(2) by simp
  then show "\<exists>s'. pool_run s [] s' \<and> mset (map a_txn (pl_sent s')) = mset txns" using run(1) by (auto simp: replied_def)
  fix txn w assume "interrupt_txn txn s = Some w"
  then have "w < length (pl_inflight s)" "pl_inflight s ! w = txn" "txn \<noteq> 0"
    using first_index_Some [of "\<lambda>x. x = txn" "pl_inflight s"] by (auto simp: interrupt_txn_def split: if_splits)
  then show "\<exists>j. pl_run s ! w = Some j \<and> j_txn j = txn" using ok(1) by (auto simp: jobs_ok_def)
qed

definition exsj_cmd :: ioctl_cmd where
  "exsj_cmd = \<lparr>c_txn = 5, c_handle = 7, c_cmd = 0xC00846C9, c_flags = 0, c_abi = 570, c_param_size = 0x50000, c_aux_size = 0\<rparr>"

theorem every_ioctl_answered_witness:
  "\<exists>s. pool_run pool_init [5] s \<and> pl_sent s = [refusal (-22) 5] \<and> mset (map a_txn (pl_sent s)) = {#5#}"
proof -
  define s where "s = pool_init\<lparr>pl_queue := pl_queue pool_init, pl_sent := pl_sent pool_init @ [refusal (-22) 5]\<rparr>"
  have "handle_ioctl_cmd exsj_cmd None None (pl_queue pool_init) = (pl_queue pool_init, [refusal (-22) 5])"
    by (simp add: handle_ioctl_cmd_def read_job_def exsj_cmd_def MAX_PARAM_SIZE_def)
  then have "pool_step pool_init (Some (c_txn exsj_cmd)) s" unfolding s_def by (rule pool_step.read)
  then have run: "pool_run pool_init [5] s"
    using pool_run.more [OF pool_run.none, of pool_init "Some 5" s] by (simp add: exsj_cmd_def)
  have "pl_sent s = [refusal (-22) 5]" by (simp add: s_def pool_init_def)
  moreover have "queued (pl_queue s) + queued (pl_run s) = {#}"
    by (simp add: s_def pool_init_def job_queue_init_def queued_def)
  ultimately show ?thesis using every_ioctl_answered [OF run] run by (intro exI [of _ s]) simp
qed

end
