(* ===== verification/StubRing.thy ===== *)
theory StubRing
  imports StubIoctl Ring
begin

text \<open>
  The fast path for controls: records on the shared rings (\<open>common/nvkvm_ring_ioctl.h\<close>), their execution in the
  isolate (\<open>ring_exec_one\<close>, \<open>ring_consumer_loop\<close> in \<open>stub/nvkvm_stub.c\<close>), and the guest's side
  (\<open>nvkvm_session_ring_try\<close>, \<open>nvkvm_ring_wait_resp\<close> in \<open>guest/nvkvm_main.c\<close>).

  Both loops run against a partner they share memory with.  What the partner does between two iterations is an element
  of a list, one per iteration; a loop that is still running when the list ends returns \<open>None\<close>.
\<close>

section \<open>Records\<close>

definition NVKVM_RING_MAX_PARAM :: nat where "NVKVM_RING_MAX_PARAM = 256"
definition NVKVM_RING_MAX_AUX :: nat where "NVKVM_RING_MAX_AUX = 4096"
definition NVKVM_RING_RESP_PUNT :: u32 where "NVKVM_RING_RESP_PUNT = 1"

definition bytes32 :: "u32 \<Rightarrow> u8 list" where
  "bytes32 v = [byte32 0 v, byte32 1 v, byte32 2 v, byte32 3 v]"

record ring_ioctl_req =
  rr_txn :: u32
  rr_handle :: u32
  rr_cmd :: u32
  rr_psz :: u32
  rr_asz :: u32
  rr_abi :: u32

record ring_ioctl_resp =
  rs_txn :: u32
  rs_retval :: u32
  rs_nvstatus :: u32
  rs_psz :: u32
  rs_asz :: u32
  rs_flags :: u32

definition put_req :: "ring_ioctl_req \<Rightarrow> u8 list" where
  "put_req q = bytes32 (rr_txn q) @ bytes32 (rr_handle q) @ bytes32 (rr_cmd q) @ bytes32 (rr_psz q) @ bytes32 (rr_asz q) @ bytes32 (rr_abi q)"

definition get_req :: "u8 list \<Rightarrow> ring_ioctl_req" where
  "get_req bs = \<lparr>rr_txn = ld32 (blob bs) 0, rr_handle = ld32 (blob bs) 4, rr_cmd = ld32 (blob bs) 8, rr_psz = ld32 (blob bs) 12,
     rr_asz = ld32 (blob bs) 16, rr_abi = ld32 (blob bs) 20\<rparr>"

definition put_resp :: "ring_ioctl_resp \<Rightarrow> u8 list" where
  "put_resp q = bytes32 (rs_txn q) @ bytes32 (rs_retval q) @ bytes32 (rs_nvstatus q) @ bytes32 (rs_psz q) @ bytes32 (rs_asz q) @ bytes32 (rs_flags q)"

definition get_resp :: "u8 list \<Rightarrow> ring_ioctl_resp" where
  "get_resp bs = \<lparr>rs_txn = ld32 (blob bs) 0, rs_retval = ld32 (blob bs) 4, rs_nvstatus = ld32 (blob bs) 8, rs_psz = ld32 (blob bs) 12,
     rs_asz = ld32 (blob bs) 16, rs_flags = ld32 (blob bs) 20\<rparr>"

section \<open>The isolate\<close>

text \<open>An answer record; the header's sizes are those of the blobs that follow.\<close>

definition resp_record :: "u32 \<Rightarrow> int \<Rightarrow> u32 \<Rightarrow> u32 \<Rightarrow> u8 list \<Rightarrow> u8 list \<Rightarrow> u8 list" where
  "resp_record txn retval nvstatus flags param aux =
     put_resp \<lparr>rs_txn = txn, rs_retval = of_int retval, rs_nvstatus = nvstatus, rs_psz = of_nat (length param),
       rs_asz = of_nat (length aux), rs_flags = flags\<rparr> @ param @ aux"

text \<open>
  Writing an answer spins while the ring is full; \<open>env k\<close> is what the guest does to the ring after the \<open>k\<close>-th attempt.
  \<open>None\<close> is the end of the isolate with status 141.
\<close>

primrec write_spin :: "(nat \<Rightarrow> ring \<Rightarrow> ring) \<Rightarrow> u64 \<Rightarrow> u8 list \<Rightarrow> nat \<Rightarrow> nat \<Rightarrow> ring \<Rightarrow> ring option" where
  "write_spin env N xs 0 k r = ring_send N xs r"
| "write_spin env N xs (Suc n) k r =
    (case ring_send N xs r of Some r' \<Rightarrow> Some r' | None \<Rightarrow> write_spin env N xs n (k + 1) (env k r))"

definition NVKVM_RING_RESP_FULL_SPIN :: nat where "NVKVM_RING_RESP_FULL_SPIN = 100000"

definition ring_write_resp :: "(nat \<Rightarrow> ring \<Rightarrow> ring) \<Rightarrow> u64 \<Rightarrow> u8 list \<Rightarrow> ring \<Rightarrow> ring option" where
  "ring_write_resp env N xs r = write_spin env N xs NVKVM_RING_RESP_FULL_SPIN 0 r"

definition ring_ctrl_must_punt :: "u32 \<Rightarrow> mem \<Rightarrow> nat \<Rightarrow> nat \<Rightarrow> bool" where
  "ring_ctrl_must_punt cmd param psz asz =
    (if IOC_TYPE cmd \<noteq> ty_F \<or> IOC_NR cmd \<noteq> 0x2a \<or> psz < 32 then True
     else if asz = 0 then False
     else if asz > NVKVM_RING_MAX_AUX \<or> psz > NVKVM_RING_MAX_PARAM then True
     else let inner = ld32 param 8 in
       nvkvm_ctrl_list_entry_size inner \<noteq> 0 \<or> inner = 0x101 \<or> inner = 0x3d05 \<or> inner = 0x0080170d)"

text \<open>
  One request record.  \<open>jp\<close> and \<open>ja\<close> are what the stack holds where the private copies of the two blobs go, \<open>addr\<close> is
  the address of the second one.  The result is the call made, if any, and the answer record; a record shorter than
  its header is dropped.
\<close>

definition ring_exec_one ::
  "stub_table \<Rightarrow> driver \<Rightarrow> mem \<Rightarrow> mem \<Rightarrow> u64 \<Rightarrow> u8 list \<Rightarrow> (fd \<times> u32 \<times> mem \<times> mem) option \<times> u8 list option" where
  "ring_exec_one t drv jp ja addr pay =
    (if length pay < 24 then (None, None)
     else
       let q = get_req pay; psz = unat (rr_psz q); asz = unat (rr_asz q) in
       if psz > NVKVM_RING_MAX_PARAM \<or> asz > NVKVM_RING_MAX_AUX \<or> 24 + psz + asz > length pay
       then (None, Some (resp_record (rr_txn q) minus_EINVAL 0 NVKVM_RING_RESP_PUNT [] []))
       else
         let param = st_bytes jp 0 (take psz (drop 24 pay));
             aux = st_bytes ja 0 (take asz (drop (24 + psz) pay)) in
         if ring_ctrl_must_punt (rr_cmd q) param psz asz
         then (None, Some (resp_record (rr_txn q) 0 0 NVKVM_RING_RESP_PUNT [] []))
         else
           let f = handle_lookup t (rr_handle q) in
           if f < 0 then (None, Some (resp_record (rr_txn q) minus_EBADF 0 0 [] []))
           else
             let p = st64 param 16 (if asz > 0 then addr else 0) in
             case drv f (rr_cmd q) p aux of (ret, p', a') \<Rightarrow>
               let p'' = (if asz > 0 then st64 p' 16 0 else p') in
               (Some (f, rr_cmd q, p, aux),
                Some (resp_record (rr_txn q) (ioctl_retval ret) (ld32 p'' 28) 0 (ld_bytes p'' 0 psz) (ld_bytes a' 0 asz))))"

text \<open>What the partner does around one iteration of the consumer loop, and what the socket poll says.\<close>

record loop_env =
  le_req :: "ring \<Rightarrow> ring"
  le_resp :: "nat \<Rightarrow> ring \<Rightarrow> ring"
  le_exit :: bool
  le_poll :: "ring \<Rightarrow> ring"
  le_last :: "ring \<Rightarrow> ring"

datatype loop_end = Loop_Exited u64 | Stub_Exit nat

record loop_state =
  ls_req :: ring
  ls_resp :: ring
  ls_calls :: "(fd \<times> u32 \<times> mem \<times> mem) list"

definition NVKVM_RING_IDLE_DEFAULT :: nat where "NVKVM_RING_IDLE_DEFAULT = 2000"
definition NVKVM_RING_IDLE_MAX :: nat where "NVKVM_RING_IDLE_MAX = 1000000"

definition idle_budget :: "u32 \<Rightarrow> nat" where
  "idle_budget idle_us = min NVKVM_RING_IDLE_MAX (if idle_us = 0 then NVKVM_RING_IDLE_DEFAULT else unat idle_us)"

primrec consumer_iter ::
  "(u8 list \<Rightarrow> (fd \<times> u32 \<times> mem \<times> mem) option \<times> u8 list option) \<Rightarrow> u64 \<Rightarrow> nat \<Rightarrow> loop_env list \<Rightarrow> nat \<Rightarrow> loop_state
     \<Rightarrow> (loop_end \<times> loop_state) option" where
  "consumer_iter exec N budget [] idle s = None"
| "consumer_iter exec N budget (e # es) idle s =
    (case nvkvm_ring_peek N (le_req e (ls_req s)) of
       (r, RING_OK p len tot) \<Rightarrow>
         (case exec (ld_bytes (data r) p (unat len)) of
            (call, rec) \<Rightarrow>
              let calls = ls_calls s @ (case call of None \<Rightarrow> [] | Some c \<Rightarrow> [c]) in
              (case (case rec of None \<Rightarrow> Some (ls_resp s) | Some xs \<Rightarrow> ring_write_resp (le_resp e) N xs (ls_resp s)) of
                 None \<Rightarrow> Some (Stub_Exit 141, s\<lparr>ls_req := r, ls_calls := calls\<rparr>)
               | Some w \<Rightarrow>
                   consumer_iter exec N budget es 0 \<lparr>ls_req = nvkvm_ring_pop tot r, ls_resp = w, ls_calls = calls\<rparr>))
     | (r, RING_BAD) \<Rightarrow> Some (Stub_Exit 140, s\<lparr>ls_req := r\<rparr>)
     | (r, RING_EMPTY) \<Rightarrow>
         if le_exit e then Some (Stub_Exit 0, s\<lparr>ls_req := r\<rparr>)
         else
           let r1 = le_poll e r in
           if nvkvm_ring_has_work r1 then consumer_iter exec N budget es 0 (s\<lparr>ls_req := r1\<rparr>)
           else if idle + 1 \<ge> budget then
             (let r2 = le_last e r1 in
              if nvkvm_ring_has_work r2 then consumer_iter exec N budget es 0 (s\<lparr>ls_req := r2\<rparr>)
              else Some (Loop_Exited (head r2), s\<lparr>ls_req := r2\<rparr>))
           else consumer_iter exec N budget es (idle + 1) (s\<lparr>ls_req := r1\<rparr>))"

definition ring_consumer_loop ::
  "(u8 list \<Rightarrow> (fd \<times> u32 \<times> mem \<times> mem) option \<times> u8 list option) \<Rightarrow> u64 \<Rightarrow> u32 \<Rightarrow> loop_env list \<Rightarrow> loop_state
     \<Rightarrow> (loop_end \<times> loop_state) option" where
  "ring_consumer_loop exec N idle_us es s = consumer_iter exec N (idle_budget idle_us) es 0 s"

section \<open>The guest\<close>

datatype ring_result = Ring_Done int u32 | Try_Punt | Ring_EIO

text \<open>The answer record for a transaction, applied to the caller's buffers.\<close>

definition take_resp :: "u32 \<Rightarrow> u8 list \<Rightarrow> u8 list \<Rightarrow> u8 list \<Rightarrow> (ring_result \<times> u8 list \<times> u8 list) option" where
  "take_resp txn pay params aux =
    (if length pay < 24 then None
     else
       let h = get_resp pay; n = unat (rs_psz h); m = unat (rs_asz h) in
       if rs_txn h \<noteq> txn then None
       else if rs_flags h AND NVKVM_RING_RESP_PUNT \<noteq> 0 then Some (Try_Punt, params, aux)
       else
         let params' = (if n \<noteq> 0 \<and> n \<le> length params \<and> 24 + n \<le> length pay
                        then take n (drop 24 pay) @ drop n params else params);
             aux' = (if m \<noteq> 0 \<and> m \<le> length aux \<and> 24 + n + m \<le> length pay
                     then take m (drop (24 + n) pay) @ drop m aux else aux)
         in Some (Ring_Done (if sint (rs_retval h) < 0 then sint (rs_retval h) else 0) (rs_nvstatus h), params', aux'))"

definition NVKVM_RING_WAIT_SPIN_TIGHT :: nat where "NVKVM_RING_WAIT_SPIN_TIGHT = 200000"
definition NVKVM_RING_WAIT_MAX_RESCHED :: nat where "NVKVM_RING_WAIT_MAX_RESCHED = 5000"

text \<open>\<open>es\<close>: what the isolate does to the response ring before each look at it.\<close>

primrec nvkvm_ring_wait_resp ::
  "u64 \<Rightarrow> u32 \<Rightarrow> u8 list \<Rightarrow> u8 list \<Rightarrow> (ring \<Rightarrow> ring) list \<Rightarrow> nat \<Rightarrow> nat \<Rightarrow> ring \<Rightarrow> (ring_result \<times> u8 list \<times> u8 list \<times> ring) option" where
  "nvkvm_ring_wait_resp N txn params aux [] tight resched r = None"
| "nvkvm_ring_wait_resp N txn params aux (e # es) tight resched r =
    (case nvkvm_ring_peek N (e r) of
       (r1, RING_OK p len tot) \<Rightarrow>
         (case take_resp txn (ld_bytes (data r1) p (unat len)) params aux of
            Some (res, params', aux') \<Rightarrow> Some (res, params', aux', nvkvm_ring_pop tot r1)
          | None \<Rightarrow> nvkvm_ring_wait_resp N txn params aux es tight resched (nvkvm_ring_pop tot r1))
     | (r1, RING_BAD) \<Rightarrow> Some (Ring_EIO, params, aux, r1)
     | (r1, RING_EMPTY) \<Rightarrow>
         if tight + 1 < NVKVM_RING_WAIT_SPIN_TIGHT then nvkvm_ring_wait_resp N txn params aux es (tight + 1) resched r1
         else if resched + 1 > NVKVM_RING_WAIT_MAX_RESCHED then Some (Ring_EIO, params, aux, r1)
         else nvkvm_ring_wait_resp N txn params aux es 0 (resched + 1) r1)"

record session_ring =
  sr_enable :: bool
  sr_mapped :: bool
  sr_pump :: bool
  sr_bytes :: u64
  sr_txn :: u32
  sr_req :: ring
  sr_resp :: ring

definition ring_txn :: "u32 \<Rightarrow> u32" where
  "ring_txn n = (let txn = n + 1 in if txn = 0 then 1 else txn)"

text \<open>Posting the request; \<open>None\<close> is the fall-back to the virtqueue.\<close>

definition ring_post :: "u32 \<Rightarrow> u32 \<Rightarrow> u8 list \<Rightarrow> u8 list \<Rightarrow> session_ring \<Rightarrow> (u32 \<times> session_ring) option" where
  "ring_post hid cmd params aux s =
    (if \<not> sr_enable s \<or> \<not> sr_mapped s \<or> \<not> sr_pump s then None
     else if IOC_NR cmd \<noteq> 0x2a \<or> length params \<noteq> 32 \<or> length aux > NVKVM_RING_MAX_AUX then None
     else
       let txn = ring_txn (sr_txn s);
           q = \<lparr>rr_txn = txn, rr_handle = hid, rr_cmd = cmd, rr_psz = of_nat (length params), rr_asz = of_nat (length aux), rr_abi = 0\<rparr>
       in case ring_send (sr_bytes s) (put_req q @ params @ aux) (sr_req s) of
            None \<Rightarrow> None
          | Some r \<Rightarrow> Some (txn, s\<lparr>sr_txn := txn, sr_req := r\<rparr>))"

definition nvkvm_session_ring_try ::
  "u32 \<Rightarrow> u32 \<Rightarrow> u8 list \<Rightarrow> u8 list \<Rightarrow> (session_ring \<Rightarrow> (ring \<Rightarrow> ring) list) \<Rightarrow> session_ring
     \<Rightarrow> (ring_result \<times> u8 list \<times> u8 list \<times> session_ring) option" where
  "nvkvm_session_ring_try hid cmd params aux isolate s =
    (case ring_post hid cmd params aux s of
       None \<Rightarrow> Some (Try_Punt, params, aux, s)
     | Some (txn, s1) \<Rightarrow>
         map_option (\<lambda>(res, params', aux', r). (res, params', aux', s1\<lparr>sr_resp := r\<rparr>))
           (nvkvm_ring_wait_resp (sr_bytes s1) txn params aux (isolate s1) 0 0 (sr_resp s1)))"

section \<open>Records round trip\<close>

lemma get_put_req: "get_req (put_req q @ xs) = q"
  by (simp add: get_req_def put_req_def blob_def ld32_def bytes32_def le32_byte32 [unfolded One_nat_def])

lemma get_put_resp: "get_resp (put_resp q @ xs) = q"
  by (simp add: get_resp_def put_resp_def blob_def ld32_def bytes32_def le32_byte32 [unfolded One_nat_def])

lemma length_put [simp]: "length (put_req q) = 24" "length (put_resp q') = 24"
  by (simp_all add: put_req_def put_resp_def bytes32_def)

section \<open>Looking at a ring\<close>

lemma ring_peek_pending:
  assumes inv: "ring_inv N r"
  shows "ring_pending N r = [] \<Longrightarrow> nvkvm_ring_peek N r = (r\<lparr>head := tail r\<rparr>, RING_EMPTY)"
    and "ring_pending N r = x # q \<Longrightarrow> \<exists>r1 p len tot. nvkvm_ring_peek N r = (r1, RING_OK p len tot)
      \<and> ld_bytes (data r1) p (unat len) = x \<and> ring_inv N (nvkvm_ring_pop tot r1) \<and> ring_pending N (nvkvm_ring_pop tot r1) = q"
proof -
  have ok: "nvkvm_ring_size_ok N" "unat (tail r - head r) \<le> unat N" using inv by (simp_all add: ring_inv_def)
  show "nvkvm_ring_peek N r = (r\<lparr>head := tail r\<rparr>, RING_EMPTY)" if "ring_pending N r = []"
    using ring_peek_loop_empty [OF ok] ring_pending [OF inv] that ok(1) by (simp add: nvkvm_ring_peek_def)
  assume "ring_pending N r = x # q"
  then have "ring_queue N r = Some (x # q)" using ring_pending [OF inv] by simp
  then obtain r' where r': "ring_recv N r = Some (x, r')" "ring_inv N r'" "ring_queue N r' = Some q"
    using ring_recv_queue(2) [OF inv] by blast
  obtain r1 p len tot where "nvkvm_ring_peek N r = (r1, RING_OK p len tot)" "ld_bytes (data r1) p (unat len) = x"
    "r' = nvkvm_ring_pop tot r1"
    using r'(1) by (auto simp: ring_recv_def split: prod.splits peek_result.splits)
  then show "\<exists>r1 p len tot. nvkvm_ring_peek N r = (r1, RING_OK p len tot)
      \<and> ld_bytes (data r1) p (unat len) = x \<and> ring_inv N (nvkvm_ring_pop tot r1) \<and> ring_pending N (nvkvm_ring_pop tot r1) = q"
    using r'(2,3) ring_pendingI by blast
qed

lemma ring_skipped:
  assumes "ring_inv N r"
  shows "ring_inv N (r\<lparr>head := tail r\<rparr>) \<and> ring_pending N (r\<lparr>head := tail r\<rparr>) = []"
  using assms by (simp add: ring_inv_def ring_queue_def ring_pending_def)

section \<open>The loops with a quiet partner\<close>

definition quiet :: loop_env where
  "quiet = \<lparr>le_req = (\<lambda>r. r), le_resp = (\<lambda>_ r. r), le_exit = False, le_poll = (\<lambda>r. r), le_last = (\<lambda>r. r)\<rparr>"

lemma consumer_idle:
  assumes "ring_inv N (ls_req s)" and "ring_pending N (ls_req s) = []" and "budget \<le> idle + n" "idle < budget"
  shows "consumer_iter exec N budget (replicate n quiet) idle s
    = Some (Loop_Exited (tail (ls_req s)), s\<lparr>ls_req := (ls_req s)\<lparr>head := tail (ls_req s)\<rparr>\<rparr>)"
  using assms
proof (induction n arbitrary: idle s)
  case (Suc n)
  let ?s = "s\<lparr>ls_req := (ls_req s)\<lparr>head := tail (ls_req s)\<rparr>\<rparr>"
  have "consumer_iter exec N budget (replicate n quiet) (idle + 1) ?s = Some (Loop_Exited (tail (ls_req s)), ?s)" if "idle + 1 < budget"
    using Suc.IH [of ?s "idle + 1"] Suc.prems ring_skipped [OF Suc.prems(1)] that by simp
  then show ?case
    using ring_peek_pending(1) [OF Suc.prems(1,2)] Suc.prems(4)
    by (simp add: quiet_def nvkvm_ring_has_work_def Let_def not_le)
qed simp

lemma write_spin_now: "ring_send N xs r = Some w \<Longrightarrow> write_spin env N xs n k r = Some w"
  by (cases n) simp_all

lemma consumer_one:
  assumes inv: "ring_inv N req" and pend: "ring_pending N req = [pay]" and exec: "exec pay = (call, Some rec)"
    and send: "ring_send N rec resp = Some w" and n: "0 < budget" "budget \<le> n"
  shows "\<exists>req'. ring_inv N req' \<and> ring_pending N req' = [] \<and>
    consumer_iter exec N budget (replicate (Suc n) quiet) idle \<lparr>ls_req = req, ls_resp = resp, ls_calls = cs\<rparr>
    = Some (Loop_Exited (head req'), \<lparr>ls_req = req', ls_resp = w, ls_calls = cs @ (case call of None \<Rightarrow> [] | Some c \<Rightarrow> [c])\<rparr>)"
proof -
  obtain r1 p len tot where pk: "nvkvm_ring_peek N req = (r1, RING_OK p len tot)" "ld_bytes (data r1) p (unat len) = pay"
    and r: "ring_inv N (nvkvm_ring_pop tot r1)" "ring_pending N (nvkvm_ring_pop tot r1) = []"
    using ring_peek_pending(2) [OF inv pend] by blast
  let ?r = "nvkvm_ring_pop tot r1"
  let ?s = "\<lparr>ls_req = ?r, ls_resp = w, ls_calls = cs @ (case call of None \<Rightarrow> [] | Some c \<Rightarrow> [c])\<rparr>"
  have step: "consumer_iter exec N budget (replicate (Suc n) quiet) idle \<lparr>ls_req = req, ls_resp = resp, ls_calls = cs\<rparr>
      = consumer_iter exec N budget (replicate n quiet) 0 ?s"
    using pk exec write_spin_now [OF send]
    by (simp add: quiet_def ring_write_resp_def Let_def)
  have "consumer_iter exec N budget (replicate n quiet) 0 ?s
      = Some (Loop_Exited (tail ?r), ?s\<lparr>ls_req := ?r\<lparr>head := tail ?r\<rparr>\<rparr>)"
    using consumer_idle [of N ?s budget 0 n exec] r n by simp
  then show ?thesis using step ring_skipped [OF r(1)]
    by (intro exI [of _ "?r\<lparr>head := tail ?r\<rparr>"]) simp
qed

lemma wait_quiet:
  assumes "ring_inv N r" and "ring_pending N r = []" and "tight + k < NVKVM_RING_WAIT_SPIN_TIGHT"
  shows "\<exists>r'. ring_inv N r' \<and> ring_pending N r' = [] \<and> unat (tail r' - head r') \<le> unat (tail r - head r) \<and>
    nvkvm_ring_wait_resp N txn params aux (replicate k (\<lambda>r. r) @ es) tight resched r
    = nvkvm_ring_wait_resp N txn params aux es (tight + k) resched r'"
  using assms
proof (induction k arbitrary: tight r)
  case (Suc k)
  let ?r = "r\<lparr>head := tail r\<rparr>"
  have "tight + 1 + k < NVKVM_RING_WAIT_SPIN_TIGHT" using Suc.prems(3) by simp
  then obtain r' where r': "ring_inv N r'" "ring_pending N r' = []" "unat (tail r' - head r') \<le> unat (tail ?r - head ?r)"
    "nvkvm_ring_wait_resp N txn params aux (replicate k (\<lambda>r. r) @ es) (tight + 1) resched ?r
      = nvkvm_ring_wait_resp N txn params aux es (tight + 1 + k) resched r'"
    using Suc.IH [of ?r "tight + 1"] ring_skipped [OF Suc.prems(1)] by blast
  show ?case using r' ring_peek_pending(1) [OF Suc.prems(1,2)] Suc.prems(3) by (intro exI [of _ r']) simp
qed auto

lemma wait_answer:
  assumes "ring_inv N (e r)" and "ring_pending N (e r) = [pay]" and "take_resp txn pay params aux = Some (res, params', aux')"
  shows "\<exists>r'. ring_inv N r' \<and> ring_pending N r' = [] \<and>
    nvkvm_ring_wait_resp N txn params aux (e # es) tight resched r = Some (res, params', aux', r')"
  using ring_peek_pending(2) [OF assms(1,2)] assms(3) by fastforce

section \<open>A control over the rings\<close>

text \<open>What the caller of a control should see, with no ring in between.\<close>

definition ring_reference ::
  "stub_table \<Rightarrow> driver \<Rightarrow> mem \<Rightarrow> mem \<Rightarrow> u64 \<Rightarrow> u32 \<Rightarrow> u32 \<Rightarrow> u8 list \<Rightarrow> u8 list
     \<Rightarrow> (fd \<times> u32 \<times> mem \<times> mem) list \<times> ring_result \<times> u8 list \<times> u8 list" where
  "ring_reference t drv jp ja addr hid cmd params aux =
    (let f = handle_lookup t hid; p0 = st_bytes jp 0 params; a = st_bytes ja 0 aux in
     if ring_ctrl_must_punt cmd p0 (length params) (length aux) then ([], Try_Punt, params, aux)
     else if f < 0 then ([], Ring_Done minus_EBADF 0, params, aux)
     else
       let p = st64 p0 16 (if aux \<noteq> [] then addr else 0) in
       case drv f cmd p a of (ret, p', a') \<Rightarrow>
         let p'' = (if aux \<noteq> [] then st64 p' 16 0 else p'); v = sint (of_int (ioctl_retval ret) :: u32) in
         ([(f, cmd, p, a)], Ring_Done (if v < 0 then v else 0) (ld32 p'' 28),
          ld_bytes p'' 0 (length params), ld_bytes a' 0 (length aux)))"

lemma take_resp_record:
  assumes "length param < 2 ^ 32" "length ax < 2 ^ 32"
    and "param = [] \<or> length param = length params" "ax = [] \<or> length ax = length aux"
  shows "take_resp txn (resp_record txn v st fl param ax @ pad) params aux =
    Some (if fl AND NVKVM_RING_RESP_PUNT \<noteq> 0 then (Try_Punt, params, aux)
      else (Ring_Done (if sint (of_int v :: u32) < 0 then sint (of_int v :: u32) else 0) st,
            if param = [] then params else param, if ax = [] then aux else ax))"
  using assms
  by (auto simp: take_resp_def resp_record_def get_put_resp Let_def)

lemma exec_posted:
  fixes t :: stub_table and drv :: driver and jp ja :: mem and addr :: u64 and hid cmd txn ab :: u32
  assumes "length params = 32" "length aux \<le> NVKVM_RING_MAX_AUX"
    and q: "q = \<lparr>rr_txn = txn, rr_handle = hid, rr_cmd = cmd, rr_psz = of_nat (length params), rr_asz = of_nat (length aux), rr_abi = ab\<rparr>"
  defines "ref \<equiv> ring_reference t drv jp ja addr hid cmd params aux"
  shows "\<exists>call rec. ring_exec_one t drv jp ja addr (put_req q @ params @ aux @ pad) = (call, Some rec)
    \<and> length rec \<le> 56 + length aux
    \<and> (\<forall>pad'. take_resp txn (rec @ pad') params aux = Some (snd ref))
    \<and> (case call of None \<Rightarrow> [] | Some c \<Rightarrow> [c]) = fst ref"
proof -
  have sz: "unat (rr_psz q) = 32" "unat (rr_asz q) = length aux" "rr_cmd q = cmd" "rr_handle q = hid" "rr_txn q = txn"
    using assms(1,2) by (simp_all add: q NVKVM_RING_MAX_AUX_def)
  have bufs: "take 32 (drop 24 (put_req q @ params @ aux @ pad)) = params"
    "take (length aux) (drop 56 (put_req q @ params @ aux @ pad)) = aux"
    using assms(1) by simp_all
  let ?p0 = "st_bytes jp 0 params" and ?a = "st_bytes ja 0 aux" and ?f = "handle_lookup t hid"
  have small: "length aux < 2 ^ 32" using assms(2) by (simp add: NVKVM_RING_MAX_AUX_def)
  have exec: "ring_exec_one t drv jp ja addr (put_req q @ params @ aux @ pad) =
    (if ring_ctrl_must_punt cmd ?p0 32 (length aux) then (None, Some (resp_record txn 0 0 NVKVM_RING_RESP_PUNT [] []))
     else if ?f < 0 then (None, Some (resp_record txn minus_EBADF 0 0 [] []))
     else let p = st64 ?p0 16 (if length aux > 0 then addr else 0) in
       case drv ?f cmd p ?a of (ret, p', a') \<Rightarrow>
         let p'' = (if length aux > 0 then st64 p' 16 0 else p') in
         (Some (?f, cmd, p, ?a),
          Some (resp_record txn (ioctl_retval ret) (ld32 p'' 28) 0 (ld_bytes p'' 0 32) (ld_bytes a' 0 (length aux)))))"
    unfolding ring_exec_one_def get_put_req Let_def sz using assms(1,2) bufs
    by (simp add: NVKVM_RING_MAX_PARAM_def)
  have len: "length (resp_record a b c d x y) = 24 + length x + length y" for a b c d x y
    by (simp add: resp_record_def)
  note tr = take_resp_record [where txn = txn and params = params and aux = aux]
  consider "ring_ctrl_must_punt cmd ?p0 32 (length aux)" | "\<not> ring_ctrl_must_punt cmd ?p0 32 (length aux)" "?f < 0"
    | "\<not> ring_ctrl_must_punt cmd ?p0 32 (length aux)" "\<not> ?f < 0" by blast
  then show ?thesis
  proof cases
    case 3
    let ?p = "st64 ?p0 16 (if length aux > 0 then addr else 0)"
    obtain ret p' a' where d: "drv ?f cmd ?p ?a = (ret, p', a')" by (metis prod_cases3)
    let ?p'' = "if length aux > 0 then st64 p' 16 0 else p'"
    have ref: "ref = ([(?f, cmd, ?p, ?a)],
        Ring_Done (if sint (of_int (ioctl_retval ret) :: u32) < 0 then sint (of_int (ioctl_retval ret) :: u32) else 0) (ld32 ?p'' 28),
        ld_bytes ?p'' 0 32, ld_bytes a' 0 (length aux))"
      using 3 d assms(1) by (simp add: ref_def ring_reference_def Let_def)
    have nil: "ld_bytes m 0 32 \<noteq> []" "ld_bytes m 0 (length aux) = [] \<longleftrightarrow> aux = []" for m
      by (metis length_ld_bytes list.size(3) zero_neq_numeral, metis length_0_conv length_ld_bytes)
    have "take_resp txn (resp_record txn (ioctl_retval ret) (ld32 ?p'' 28) 0 (ld_bytes ?p'' 0 32) (ld_bytes a' 0 (length aux)) @ pad')
        params aux = Some (snd ref)" for pad'
      using small assms(1) nil by (subst tr) (auto simp: ref)
    then show ?thesis unfolding exec using 3 d ref by (simp add: Let_def len)
  qed (use assms(1) small in \<open>auto simp: exec ref_def ring_reference_def tr len NVKVM_RING_RESP_PUNT_def\<close>)
qed

definition ring_ready :: "session_ring \<Rightarrow> bool" where
  "ring_ready s \<longleftrightarrow> sr_enable s \<and> sr_mapped s \<and> sr_pump s
     \<and> ring_inv (sr_bytes s) (sr_req s) \<and> ring_pending (sr_bytes s) (sr_req s) = []
     \<and> ring_inv (sr_bytes s) (sr_resp s) \<and> ring_pending (sr_bytes s) (sr_resp s) = []"

definition ring_room :: "u64 \<Rightarrow> nat \<Rightarrow> ring \<Rightarrow> bool" where
  "ring_room N n r \<longleftrightarrow> unat (tail r - head r) + 2 * ring_rec_len n \<le> unat N"

lemma ring_rec_len_mono: "m \<le> n \<Longrightarrow> ring_rec_len m \<le> ring_rec_len n"
  by (simp add: ring_rec_len_def div_le_mono)

lemma send_fits:
  assumes "ring_inv N r" "ring_pending N r = []" "ring_room N n r" "length xs \<le> n" "n < 2 ^ 31"
  shows "\<exists>r' pad. ring_send N xs r = Some r' \<and> ring_inv N r' \<and> ring_pending N r' = [xs @ pad]"
proof -
  have "unat (tail r - head r) + 2 * ring_rec_len (length xs) \<le> unat N"
    using assms(3) ring_rec_len_mono [OF assms(4)] by (simp add: ring_room_def)
  then obtain r' where send: "ring_send N xs r = Some r'"
    using ring_send_succeeds [OF assms(1)] assms(4,5) by fastforce
  then show ?thesis
    using ring_send_queue [OF assms(1) _ _ send, of "[]"] ring_pending [OF assms(1)] assms(2,4,5)
    by (fastforce dest: ring_pendingI)
qed

text \<open>The isolate at work: its consumer loop over the posted request, with a quiet guest.\<close>

definition isolate_loop ::
  "stub_table \<Rightarrow> driver \<Rightarrow> mem \<Rightarrow> mem \<Rightarrow> u64 \<Rightarrow> u32 \<Rightarrow> session_ring \<Rightarrow> ring \<Rightarrow> (loop_end \<times> loop_state) option" where
  "isolate_loop t drv jp ja addr idle_us s r =
     ring_consumer_loop (ring_exec_one t drv jp ja addr) (sr_bytes s) idle_us
       (replicate (Suc (idle_budget idle_us)) quiet) \<lparr>ls_req = sr_req s, ls_resp = r, ls_calls = []\<rparr>"

lemma idle_budget_pos: "0 < idle_budget i"
  by (simp add: idle_budget_def NVKVM_RING_IDLE_DEFAULT_def NVKVM_RING_IDLE_MAX_def unat_gt_0)

lemma post_fits:
  fixes hid :: u32
  assumes "ring_ready s" "IOC_NR cmd = 0x2a" "length params = 32" "length aux \<le> NVKVM_RING_MAX_AUX"
    and "ring_room (sr_bytes s) (56 + length aux) (sr_req s)"
  defines "txn \<equiv> ring_txn (sr_txn s)"
  defines "q \<equiv> \<lparr>rr_txn = txn, rr_handle = hid, rr_cmd = cmd, rr_psz = of_nat (length params), rr_asz = of_nat (length aux), rr_abi = 0\<rparr>"
  shows "\<exists>r pad. ring_post hid cmd params aux s = Some (txn, s\<lparr>sr_txn := txn, sr_req := r\<rparr>)
    \<and> ring_inv (sr_bytes s) r \<and> ring_pending (sr_bytes s) r = [put_req q @ params @ aux @ pad]"
proof -
  have "length (put_req q @ params @ aux) \<le> 56 + length aux" using assms(3) by simp
  then obtain r pad where "ring_send (sr_bytes s) (put_req q @ params @ aux) (sr_req s) = Some r" "ring_inv (sr_bytes s) r"
    "ring_pending (sr_bytes s) r = [(put_req q @ params @ aux) @ pad]"
    using send_fits [OF _ _ assms(5)] assms(1,4) by (fastforce simp: ring_ready_def NVKVM_RING_MAX_AUX_def)
  then show ?thesis
    using assms(1-4) by (intro exI [of _ r] exI [of _ pad]) (simp add: ring_post_def ring_ready_def txn_def q_def Let_def)
qed

lemma isolate_answers:
  assumes "ring_inv N (sr_req s)" "ring_pending N (sr_req s) = [pay]" "N = sr_bytes s"
    and "ring_exec_one t drv jp ja addr pay = (call, Some rec)" "ring_send N rec r = Some w"
  shows "\<exists>req'. isolate_loop t drv jp ja addr idle_us s r
      = Some (Loop_Exited (head req'), \<lparr>ls_req = req', ls_resp = w, ls_calls = (case call of None \<Rightarrow> [] | Some c \<Rightarrow> [c])\<rparr>)
    \<and> ring_pending N req' = []"
  using consumer_one [where exec = "ring_exec_one t drv jp ja addr", OF assms(1,2,4,5) idle_budget_pos [of idle_us] order_refl,
      of 0 "[]"] assms(3)
  unfolding isolate_loop_def ring_consumer_loop_def by fastforce

text \<open>C29: A control sent over the rings is the control executed.  For a session with drained rings and room for the records:
  the guest posts the request, the isolate's loop takes exactly that request, answers it and leaves when it has been
  idle for its budget, and the guest, after any wait below its patience, returns what the direct execution gives: the
  same driver call (made once, or not at all when the control is refused or the handle unknown), result, status and
  buffers.  Both rings are drained again.\<close>

theorem ring_control_end_to_end:
  fixes t :: stub_table and drv :: driver and jp ja :: mem and addr :: u64 and idle_us :: u32
  assumes ready: "ring_ready s" and "IOC_NR cmd = 0x2a" "length params = 32" "length aux \<le> 4096"
    and room: "ring_room (sr_bytes s) (56 + length aux) (sr_req s)" "ring_room (sr_bytes s) (56 + length aux) (sr_resp s)"
    and k: "k < 200000"
  defines "isolate \<equiv> isolate_loop t drv jp ja addr idle_us"
  shows "\<exists>txn s1 h fin res params' aux' s2.
      ring_post hid cmd params aux s = Some (txn, s1)
    \<and> isolate s1 (sr_resp s1) = Some (Loop_Exited h, fin) \<and> ring_pending (sr_bytes s) (ls_req fin) = []
    \<and> nvkvm_session_ring_try hid cmd params aux (\<lambda>s'. replicate k (\<lambda>r. r) @ [\<lambda>r. ls_resp (snd (the (isolate s' r)))]) s
        = Some (res, params', aux', s2)
    \<and> ring_pending (sr_bytes s) (sr_resp s2) = []
    \<and> (ls_calls fin, res, params', aux') = ring_reference t drv jp ja addr hid cmd params aux"
proof -
  let ?N = "sr_bytes s" and ?txn = "ring_txn (sr_txn s)"
  let ?q = "\<lparr>rr_txn = ?txn, rr_handle = hid, rr_cmd = cmd, rr_psz = of_nat (length params), rr_asz = of_nat (length aux), rr_abi = 0\<rparr>"
  have al: "length aux \<le> NVKVM_RING_MAX_AUX" using assms(4) by (simp add: NVKVM_RING_MAX_AUX_def)
  obtain rq pad where post: "ring_post hid cmd params aux s = Some (?txn, s\<lparr>sr_txn := ?txn, sr_req := rq\<rparr>)"
    and rq: "ring_inv ?N rq" "ring_pending ?N rq = [put_req ?q @ params @ aux @ pad]"
    using post_fits [OF ready assms(2,3) al room(1)] by blast
  obtain call rec where ex: "ring_exec_one t drv jp ja addr (put_req ?q @ params @ aux @ pad) = (call, Some rec)"
    "length rec \<le> 56 + length aux"
    and tr: "\<And>pad'. take_resp ?txn (rec @ pad') params aux = Some (snd (ring_reference t drv jp ja addr hid cmd params aux))"
    and calls: "(case call of None \<Rightarrow> [] | Some c \<Rightarrow> [c]) = fst (ring_reference t drv jp ja addr hid cmd params aux)"
    using exec_posted [OF assms(3) al refl] by metis
  define s1 where "s1 = s\<lparr>sr_txn := ?txn, sr_req := rq\<rparr>"
  have s1: "sr_bytes s1 = ?N" "sr_req s1 = rq" "sr_resp s1 = sr_resp s" by (simp_all add: s1_def)
  have loop: "\<exists>w pad' req'. ring_inv ?N w \<and> ring_pending ?N w = [rec @ pad'] \<and> ring_pending ?N req' = []
      \<and> isolate s1 r = Some (Loop_Exited (head req'), \<lparr>ls_req = req', ls_resp = w, ls_calls = (case call of None \<Rightarrow> [] | Some c \<Rightarrow> [c])\<rparr>)"
    if rr: "ring_inv ?N r" "ring_pending ?N r = []" "unat (tail r - head r) \<le> unat (tail (sr_resp s) - head (sr_resp s))" for r
  proof -
    have "ring_room ?N (56 + length aux) r" using room(2) rr(3) by (simp add: ring_room_def)
    then obtain w pad' where w: "ring_send ?N rec r = Some w" "ring_inv ?N w" "ring_pending ?N w = [rec @ pad']"
      using send_fits [OF rr(1,2) _ ex(2)] assms(4) by fastforce
    have "ring_inv ?N (sr_req s1)" "ring_pending ?N (sr_req s1) = [put_req ?q @ params @ aux @ pad]" using rq s1 by simp_all
    from isolate_answers [OF this s1(1) [symmetric] ex(1) w(1), of idle_us] w(2,3)
    show ?thesis unfolding isolate_def by blast
  qed
  have resp: "ring_inv ?N (sr_resp s)" "ring_pending ?N (sr_resp s) = []" using ready by (simp_all add: ring_ready_def)
  have k0: "0 + k < NVKVM_RING_WAIT_SPIN_TIGHT" using k by (simp add: NVKVM_RING_WAIT_SPIN_TIGHT_def)
  obtain fin h where fin: "isolate s1 (sr_resp s1) = Some (Loop_Exited h, fin)" "ring_pending ?N (ls_req fin) = []"
    "ls_calls fin = fst (ring_reference t drv jp ja addr hid cmd params aux)"
    using loop [OF resp] calls s1(3) by auto
  let ?e = "\<lambda>r. ls_resp (snd (the (isolate s1 r)))"
  obtain r' where r': "ring_inv ?N r'" "ring_pending ?N r' = []" "unat (tail r' - head r') \<le> unat (tail (sr_resp s) - head (sr_resp s))"
    "nvkvm_ring_wait_resp ?N ?txn params aux (replicate k (\<lambda>r. r) @ [?e]) 0 0 (sr_resp s)
      = nvkvm_ring_wait_resp ?N ?txn params aux [?e] (0 + k) 0 r'"
    using wait_quiet [OF resp k0] by blast
  obtain pad' where e: "ring_inv ?N (?e r')" "ring_pending ?N (?e r') = [rec @ pad']" using loop [OF r'(1-3)] by auto
  obtain res params' aux' where ref: "snd (ring_reference t drv jp ja addr hid cmd params aux) = (res, params', aux')" by (metis prod_cases3)
  obtain r2 where r2: "ring_pending ?N r2 = []"
    "nvkvm_ring_wait_resp ?N ?txn params aux [?e] (0 + k) 0 r' = Some (res, params', aux', r2)"
    using wait_answer [of ?N ?e r', OF e] tr [of pad'] ref by metis
  have "nvkvm_session_ring_try hid cmd params aux (\<lambda>s'. replicate k (\<lambda>r. r) @ [\<lambda>r. ls_resp (snd (the (isolate s' r)))]) s
      = Some (res, params', aux', s1\<lparr>sr_resp := r2\<rparr>)"
    using post r'(4) r2(2) s1 by (simp add: nvkvm_session_ring_try_def flip: s1_def)
  moreover have "(ls_calls fin, res, params', aux') = ring_reference t drv jp ja addr hid cmd params aux"
    using fin(3) ref by (metis prod.collapse)
  ultimately show ?thesis using post fin(1,2) r2(1) unfolding s1_def [symmetric] by fastforce
qed

definition exsr_ring :: ring where
  "exsr_ring = \<lparr>rsize = 16384, tail = 0, head = 0, data = (\<lambda>_. 0)\<rparr>"

definition exsr_session :: session_ring where
  "exsr_session = \<lparr>sr_enable = True, sr_mapped = True, sr_pump = True, sr_bytes = 16384, sr_txn = 41, sr_req = exsr_ring, sr_resp = exsr_ring\<rparr>"

definition exsr_drv :: driver where
  "exsr_drv = (\<lambda>f cmd p a. (- 22, \<lambda>_. 0, \<lambda>_. 0))"

theorem ring_control_end_to_end_witness:
  "\<exists>h fin s2. isolate_loop exsi_table exsr_drv (\<lambda>_. 0) (\<lambda>_. 0) 0 0
        (snd (the (ring_post 7 0xC020462A (replicate 32 1) [] exsr_session))) exsr_ring = Some (Loop_Exited h, fin)
    \<and> length (ls_calls fin) = 1
    \<and> nvkvm_session_ring_try 7 0xC020462A (replicate 32 1) []
        (\<lambda>s'. replicate 3 (\<lambda>r. r) @ [\<lambda>r. ls_resp (snd (the (isolate_loop exsi_table exsr_drv (\<lambda>_. 0) (\<lambda>_. 0) 0 0 s' r)))]) exsr_session
      = Some (Ring_Done (- 22) 0, replicate 32 0, [], s2)"
proof -
  have ok: "nvkvm_ring_size_ok 16384" by (simp add: nvkvm_ring_size_ok_def)
  have e: "ring_inv 16384 exsr_ring \<and> ring_queue 16384 exsr_ring = Some []"
    by (rule ring_empty_inv [OF ok]) (simp_all add: exsr_ring_def)
  have ready: "ring_ready exsr_session"
    using e by (simp add: ring_ready_def exsr_session_def ring_pending_def)
  have room: "ring_room (sr_bytes exsr_session) (56 + length []) (sr_req exsr_session)"
    "ring_room (sr_bytes exsr_session) (56 + length []) (sr_resp exsr_session)"
    by (simp_all add: ring_room_def exsr_session_def exsr_ring_def ring_rec_len_def)
  have nr: "IOC_NR 0xC020462A = 0x2a" by (simp add: IOC_NR_def)
  have f: "handle_lookup exsi_table 7 = 20"
    by (simp add: exsi_table_def handle_lookup_def MAX_HANDLES_def)
  have zeros: "ld_bytes (\<lambda>_. 0 :: u8) 0 32 = replicate 32 0" by (simp add: ld_bytes_def map_replicate_const)
  have z32: "ld32 (\<lambda>_. 0 :: u8) 28 = 0" by (simp add: ld32_def le32_def)
  have punt: "\<not> ring_ctrl_must_punt 0xC020462A p 32 0" for p
    by (simp add: ring_ctrl_must_punt_def IOC_TYPE_def IOC_NR_def)
  have ret: "sint (of_int (ioctl_retval (- 22)) :: u32) = - 22" by (simp add: ioctl_retval_def c_int_def Let_def signed_take_bit_int_eq_self)
  have ref: "\<exists>c. ring_reference exsi_table exsr_drv (\<lambda>_. 0) (\<lambda>_. 0) 0 7 0xC020462A (replicate 32 1) []
      = ([c], Ring_Done (- 22) 0, replicate 32 0, [])"
    using punt f ret by (simp add: ring_reference_def exsr_drv_def Let_def zeros z32 ld_bytes_def [of _ 0 0])
  have len: "length (replicate 32 (1 :: u8)) = 32" "length ([] :: u8 list) \<le> 4096" "(3 :: nat) < 200000" by simp_all
  obtain c where c: "ring_reference exsi_table exsr_drv (\<lambda>_. 0) (\<lambda>_. 0) 0 7 0xC020462A (replicate 32 1) []
      = ([c], Ring_Done (- 22) 0, replicate 32 0, [])" using ref by blast
  obtain txn s1 h fin s2 where
    "ring_post 7 0xC020462A (replicate 32 1) [] exsr_session = Some (txn, s1)"
    "isolate_loop exsi_table exsr_drv (\<lambda>_. 0) (\<lambda>_. 0) 0 0 s1 (sr_resp s1) = Some (Loop_Exited h, fin)" "ls_calls fin = [c]"
    "nvkvm_session_ring_try 7 0xC020462A (replicate 32 1) []
        (\<lambda>s'. replicate 3 (\<lambda>r. r) @ [\<lambda>r. ls_resp (snd (the (isolate_loop exsi_table exsr_drv (\<lambda>_. 0) (\<lambda>_. 0) 0 0 s' r)))]) exsr_session
      = Some (Ring_Done (- 22) 0, replicate 32 0, [], s2)"
    using ring_control_end_to_end [OF ready nr len(1,2) room len(3), where t = exsi_table and drv = exsr_drv and jp = "\<lambda>_. 0"
        and ja = "\<lambda>_. 0" and addr = 0 and idle_us = 0 and hid = 7] unfolding c by auto
  moreover have "sr_resp s1 = exsr_ring" using calculation(1)
    by (auto simp: ring_post_def Let_def exsr_session_def split: if_splits option.splits)
  ultimately show ?thesis by simp
qed

section \<open>The fast path and the workers\<close>

definition flat_job :: "mem \<Rightarrow> mem \<Rightarrow> u64 \<Rightarrow> u32 \<Rightarrow> u32 \<Rightarrow> u32 \<Rightarrow> u32 \<Rightarrow> u8 list \<Rightarrow> u8 list \<Rightarrow> ioctl_job" where
  "flat_job jp ja addr txn ab hid cmd params aux =
    \<lparr>j_txn = txn, j_handle = hid, j_cmd = cmd, j_flags = 0, j_abi = ab, j_param = st_bytes jp 0 params, j_param_size = length params,
     j_aux = st_bytes ja 0 aux, j_aux_addr = addr, j_aux_size = length aux\<rparr>"

lemma flat_prepare:
  fixes t :: stub_table and ja :: mem and addr :: u64 and txn ab hid :: u32
  assumes "\<not> ring_ctrl_must_punt cmd (st_bytes jp 0 params) (length params) (length aux)"
    and "aux \<noteq> [] \<Longrightarrow> ld32 (st_bytes jp 0 params) 8 \<noteq> 0x3d06"
  defines "j \<equiv> flat_job jp ja addr txn ab hid cmd params aux"
  shows "\<exists>sv. prepare t j = Some (st64 (st_bytes jp 0 params) 16 (if aux \<noteq> [] then addr else 0), st_bytes ja 0 aux, sv)
    \<and> sv_uvm sv = None \<and> sv_fe sv = None \<and> (\<forall>a. restore_aux sv a = a)"
proof -
  have F: "IOC_TYPE cmd = ty_F" and nr: "IOC_NR cmd = 0x2a" and sz: "32 \<le> length params"
    using assms(1) by (auto simp: ring_ctrl_must_punt_def split: if_splits)
  have inner: "aux \<noteq> [] \<Longrightarrow> nvkvm_ctrl_list_entry_size (ld32 (st_bytes jp 0 params) 8) = 0 \<and> ld32 (st_bytes jp 0 params) 8 \<notin> {0x101, 0x3d05, 0x3d06, 0x0080170d}"
    using assms(1,2) by (auto simp: ring_ctrl_must_punt_def Let_def split: if_splits)
  have p1: "wire_aux j = st64 (st_bytes jp 0 params) 16 (if aux \<noteq> [] then addr else 0)"
    using F nr sz type_F_cmd [OF F] by (simp add: wire_aux_def ptr_off_def j_def flat_job_def)
  have c: "wire_control t j (wire_aux j) (st_bytes ja 0 aux) = (st_bytes ja 0 aux, False, None, False, False)"
    unfolding p1 using inner
    by (auto simp: wire_control_def j_def flat_job_def Let_def wire_list_def wire_export_def wire_channels_def wire_strings_def mem_simps)
  have stages: "wire_regsurf t j (wire_aux j) (j_aux j) = (st_bytes ja 0 aux, [])"
    "wire_drm_export t j (st_bytes ja 0 aux) = (st_bytes ja 0 aux, None)"
    "wire_uvm t j (wire_aux j) = Some (wire_aux j, None)" "clear_idle j (wire_aux j) = wire_aux j"
    "wire_fe t j (wire_aux j) = Some (wire_aux j, None)" "wire_event t j (wire_aux j) (st_bytes ja 0 aux) = Some (st_bytes ja 0 aux, None)"
    using F nr type_F_cmd [OF F]
    by (simp_all add: j_def flat_job_def wire_regsurf_def wire_drm_export_def wire_uvm_def uvm_fd_off_cmd clear_idle_def
      wire_fe_def fe_fd_off_def wire_event_def)
  show ?thesis
    by (simp add: prepare_def Let_def stages c restore_aux_def put_back_def) (simp add: p1)
qed



text \<open>
  The import control is the one with a descriptor inside that the ring does not refuse: the number the guest wrote
  reaches the driver as a descriptor of the isolate, where the worker would have looked it up as a handle.
\<close>

lemma ring_import_untranslated:
  assumes "IOC_TYPE cmd = 0x46" "IOC_NR cmd = 0x2a" "length params = 32" "4 \<le> length aux" "length aux \<le> 4096"
    and "ld32 (st_bytes jp 0 params) 8 = 0x3d06" "0 \<le> handle_lookup t hid"
  shows "\<exists>p a. fst (ring_reference t drv jp ja addr hid cmd params aux) = [(handle_lookup t hid, cmd, p, a)]
    \<and> ld32 a 0 = ld32 (blob aux) 0"
proof -
  have "\<not> ring_ctrl_must_punt cmd (st_bytes jp 0 params) (length params) (length aux)"
    using assms by (simp add: ring_ctrl_must_punt_def NVKVM_RING_MAX_AUX_def NVKVM_RING_MAX_PARAM_def nvkvm_ctrl_list_entry_size_def)
  moreover have "ld32 (st_bytes ja 0 aux) 0 = ld32 (blob aux) 0"
    using assms(4) by (intro ld32_cong) (simp add: st_bytes_def blob_def)
  ultimately show ?thesis using assms(4,7) by (auto simp: ring_reference_def Let_def case_prod_beta)
qed

end
