(* ===== verification/Stub.thy ===== *)
theory Stub
  imports StubJobs StubRing IsolateTable IoctlGate
begin

text \<open>
  The reader thread of the isolate (\<open>stub/nvkvm_stub.c\<close>): the commands that are not in \<open>StubTable\<close> and
  \<open>StubJobs\<close> (mapping, the replay of UVM state, setting up the rings) and the dispatcher over all of them.  Then what
  holds across the socket: the ring set up by QEMU is the one the isolate accepts, and what QEMU's policy on
  controls is worth for a control that arrives over that ring.
\<close>

section \<open>The rings\<close>

record setup_ring_cmd =
  sr_region :: u32
  sr_req_off :: u32
  sr_resp_off :: u32
  sr_ring_bytes :: u32

text \<open>The mapping the isolate keeps: its bytes and its geometry.\<close>

record ring_map =
  rm_mem :: mem
  rm_region :: u32
  rm_resp_off :: u32
  rm_bytes :: u32

definition ring_geometry_ok :: "setup_ring_cmd \<Rightarrow> bool" where
  "ring_geometry_ok c \<longleftrightarrow>
    nvkvm_ring_size_ok (ucast (sr_ring_bytes c)) \<and> sr_req_off c = 0
    \<and> sr_resp_off c = ucast (nvkvm_ring_resp_off (sr_ring_bytes c))
    \<and> \<not> sr_region c < ucast (nvkvm_ring_region_size (sr_ring_bytes c)) \<and> \<not> sr_region c > 16 * 2 ^ 20"

text \<open>
  \<open>cmsg\<close> is the one descriptor sent along, \<open>complete\<close> whether the message has the size of the command, \<open>mapped\<close> the bytes
  of the mapping, if it succeeds.  The result is the answer, the mapping kept and the descriptors closed.
\<close>

definition handle_setup_ring ::
  "setup_ring_cmd \<Rightarrow> fd option \<Rightarrow> bool \<Rightarrow> mem option \<Rightarrow> ring_map option \<Rightarrow> (int \<times> u64) \<times> ring_map option \<times> fd list" where
  "handle_setup_ring c cmsg complete mapped base =
    (case cmsg of
       None \<Rightarrow> ((minus_EINVAL, 0), base, [])
     | Some f \<Rightarrow>
         if \<not> complete \<or> base \<noteq> None then ((minus_EINVAL, 0), base, [f])
         else if \<not> ring_geometry_ok c then ((minus_EINVAL, 0), base, [f])
         else (case mapped of
             None \<Rightarrow> ((minus_ENOMEM, 0), base, [f])
           | Some m \<Rightarrow>
               let v = ld64 m 256; m' = st64 m (unat (sr_resp_off c) + 256) (v XOR NVKVM_RING_PROBE_MASK) in
               ((0, v), Some \<lparr>rm_mem = m', rm_region = sr_region c, rm_resp_off = sr_resp_off c, rm_bytes = sr_ring_bytes c\<rparr>, [f])))"

section \<open>Mapping\<close>

record mmap_cmd =
  mc_handle :: u32
  mc_gva :: u64
  mc_length :: u64
  mc_offset :: u64
  mc_prot :: u32
  mc_flags :: u32

type_synonym map_call = "u64 \<times> u64 \<times> u32 \<times> u32 \<times> fd \<times> u64"

definition MAP_FIXED :: u32 where "MAP_FIXED = 0x10"

text \<open>The result, and the call made: address, length, protection, flags, descriptor, offset.\<close>

definition handle_mmap :: "(map_call \<Rightarrow> bool) \<Rightarrow> mmap_cmd \<Rightarrow> stub_table \<Rightarrow> int \<times> map_call list" where
  "handle_mmap os c t =
    (let f = handle_lookup t (mc_handle c) in
     if f < 0 then (minus_EBADF, [])
     else let call = (mc_gva c, mc_length c, mc_prot c, mc_flags c OR MAP_FIXED, f, mc_offset c)
          in (if os call then 0 else minus_ENOMEM, [call]))"

section \<open>Replaying UVM state\<close>

record uvm_vas =
  uv_uuid :: "u8 list"
  uv_ctrl_handle :: u32
  uv_client :: u32
  uv_vaspace :: u32

record uvm_snapshot =
  us_init_flags :: u64
  us_n_gpus :: u32
  us_n_va_spaces :: u32
  us_n_range_groups :: u32
  us_gpus :: "u8 list list"
  us_va_spaces :: "uvm_vas list"
  us_range_groups :: "u64 list"

record realize_cmd =
  rc_txn :: u32
  rc_mode :: u32
  rc_state_size :: u32
  rc_intent_size :: u32
  rc_prot :: u32
  rc_map_flags :: u32
  rc_length :: u64
  rc_host_va_hint :: u64
  rc_offset :: u64

record replay_answer =
  ra_txn :: u32
  ra_retval :: int
  ra_rm_status :: u32
  ra_host_va :: u64
  ra_length :: u64

text \<open>The calls replayed on the fresh file; the driver answers each with a result and the status it leaves in the struct.\<close>

datatype uvm_replay =
    Replay_Init u64
  | Replay_Gpu "u8 list"
  | Replay_Vas "u8 list" fd u32 u32
  | Replay_Group u64

text \<open>
  What the isolate's surroundings do: the two blobs read from the socket, whether the buffer for the second can be had,
  the descriptor opened, the driver on the replayed calls and on the final one, and the address of the mapping.
\<close>

record replay_env =
  rv_state :: "uvm_snapshot option"
  rv_buffer :: bool
  rv_intent :: "mem option"
  rv_open :: int
  rv_replay :: "uvm_replay list \<Rightarrow> uvm_replay \<Rightarrow> int \<times> u32"
  rv_pool :: "mem \<Rightarrow> int \<times> mem"
  rv_map :: "map_call \<Rightarrow> u64 option"

definition STUB_MAX_REG_GPUS :: nat where "STUB_MAX_REG_GPUS = 16"
definition STUB_MAX_VA_SPACES :: nat where "STUB_MAX_VA_SPACES = 16"
definition STUB_MAX_RANGE_GROUPS :: nat where "STUB_MAX_RANGE_GROUPS = 16"
definition sizeof_snapshot :: nat where "sizeof_snapshot = 24 + 16 * 16 + 16 * 32 + 16 * 8"

abbreviation minus_EIO :: int where "minus_EIO \<equiv> - 5"
abbreviation minus_ENOTSUP :: int where "minus_ENOTSUP \<equiv> - 95"
abbreviation minus_ENODEV :: int where "minus_ENODEV \<equiv> - 19"

text \<open>What is replayed, in order; \<open>None\<close> for an address space whose control file the isolate does not have.\<close>

definition replay_calls :: "uvm_snapshot \<Rightarrow> stub_table \<Rightarrow> uvm_replay option list" where
  "replay_calls s t =
    Some (Replay_Init (us_init_flags s))
    # map (Some \<circ> Replay_Gpu) (take (unat (us_n_gpus s)) (us_gpus s))
    @ map (\<lambda>v. let f = handle_lookup t (uv_ctrl_handle v) in
             if f < 0 then None else Some (Replay_Vas (uv_uuid v) f (uv_client v) (uv_vaspace v)))
        (take (unat (us_n_va_spaces s)) (us_va_spaces s))
    @ map (Some \<circ> Replay_Group) (take (unat (us_n_range_groups s)) (us_range_groups s))"

text \<open>The calls made, and the result and status that stopped them, if any did.\<close>

primrec replay :: "(uvm_replay list \<Rightarrow> uvm_replay \<Rightarrow> int \<times> u32) \<Rightarrow> uvm_replay list \<Rightarrow> uvm_replay option list
    \<Rightarrow> uvm_replay list \<times> (int \<times> u32) option" where
  "replay drv done [] = (done, None)"
| "replay drv done (c # cs) =
    (case c of
       None \<Rightarrow> (done, Some (minus_EBADF, 0))
     | Some u \<Rightarrow>
         (case drv done u of (r, st) \<Rightarrow>
            if r < 0 \<or> st \<noteq> 0 then (done @ [u], Some (if st \<noteq> 0 then 0 else r, st))
            else replay drv (done @ [u]) cs))"

definition realize_final :: "replay_env \<Rightarrow> realize_cmd \<Rightarrow> mem \<Rightarrow> fd \<Rightarrow> int \<times> u32 \<times> u64 option" where
  "realize_final e c intent f =
    (if rc_mode c \<noteq> 1 then (minus_ENOTSUP, 0, None)
     else case rv_pool e intent of (r, intent') \<Rightarrow>
       let st = ld32 intent' (unat (rc_intent_size c) - 4) in
       if r < 0 then (r, st, None)
       else if st \<noteq> 0 then (0, st, None)
       else
         let flags = rc_map_flags c OR (if rc_host_va_hint c \<noteq> 0 then MAP_FIXED else 0) in
         (case rv_map e (rc_host_va_hint c, rc_length c, rc_prot c, flags, f, rc_offset c) of
            None \<Rightarrow> (minus_ENOMEM, 0, None)
          | Some va \<Rightarrow> (0, 0, Some va)))"

text \<open>The answer, the calls replayed and the descriptors closed.  The status is read from the last word of the blob, which is
  taken to have at least four bytes.\<close>

definition handle_realize_uvm_fd :: "replay_env \<Rightarrow> realize_cmd \<Rightarrow> stub_table \<Rightarrow> replay_answer \<times> uvm_replay list \<times> fd list" where
  "handle_realize_uvm_fd e c t =
    (let answer = (\<lambda>r st. \<lparr>ra_txn = rc_txn c, ra_retval = r, ra_rm_status = st, ra_host_va = 0, ra_length = 0\<rparr>) in
     if unat (rc_state_size c) \<noteq> sizeof_snapshot then (answer minus_EINVAL 0, [], [])
     else case rv_state e of
       None \<Rightarrow> (answer minus_EIO 0, [], [])
     | Some s \<Rightarrow>
         if unat (us_n_gpus s) > STUB_MAX_REG_GPUS \<or> unat (us_n_va_spaces s) > STUB_MAX_VA_SPACES
           \<or> unat (us_n_range_groups s) > STUB_MAX_RANGE_GROUPS then (answer minus_EINVAL 0, [], [])
         else if rc_intent_size c = 0 \<or> unat (rc_intent_size c) > 64 * 1024 then (answer minus_EINVAL 0, [], [])
         else if \<not> rv_buffer e then (answer minus_ENOMEM 0, [], [])
         else (case rv_intent e of
             None \<Rightarrow> (answer minus_EIO 0, [], [])
           | Some intent \<Rightarrow>
               let f = rv_open e in
               if f < 0 then (answer f 0, [], [])
               else (case replay (rv_replay e) [] (replay_calls s t) of
                   (calls, Some (r, st)) \<Rightarrow> (answer r st, calls, if r \<noteq> 0 \<or> st \<noteq> 0 then [f] else [])
                 | (calls, None) \<Rightarrow>
                     (case realize_final e c intent f of
                        (r, st, Some va) \<Rightarrow> ((answer 0 0)\<lparr>ra_host_va := va, ra_length := rc_length c\<rparr>, calls, [])
                      | (r, st, None) \<Rightarrow> (answer r st, calls, if r \<noteq> 0 \<or> st \<noteq> 0 then [f] else [])))))"

section \<open>The dispatcher\<close>

record stub =
  sb_table :: stub_table
  sb_pool :: pool
  sb_ring :: "ring_map option"
  sb_looping :: bool

text \<open>
  A command as received, with what the isolate's surroundings do while it is handled.  For the loop over the rings
  (\<open>StubRing\<close>) that is the head at which it ends and the state it leaves, since it dispatches the commands that arrive
  meanwhile.
\<close>

datatype stub_cmd =
    Cmd_Receive_Fd "fd option" bool u32 u32
  | Cmd_Close_Fd u32
  | Cmd_Ioctl ioctl_cmd blob_in blob_in
  | Cmd_Mmap mmap_cmd "map_call \<Rightarrow> bool"
  | Cmd_Munmap u64 u64
  | Cmd_Poll u32
  | Cmd_Unpoll u32
  | Cmd_Open_Device u32 "open_what \<Rightarrow> int" bool bool u32 u32 u32
  | Cmd_Present_Export u32 "fd \<Rightarrow> u32 \<Rightarrow> int \<times> fd" u32 u32
  | Cmd_Xiso_Import u32 "fd \<Rightarrow> fd \<Rightarrow> int \<times> u32" "fd option" u32
  | Cmd_Realize realize_cmd replay_env
  | Cmd_Interrupt u32
  | Cmd_Setup_Ring setup_ring_cmd "fd option" bool "mem option"
  | Cmd_Enter_Loop "stub \<Rightarrow> u64 \<times> stub"
  | Cmd_Exit
  | Cmd_Unknown u32

datatype stub_resp =
    Resp_Ok
  | Resp_Error errno
  | Resp_Ioctl ioctl_answer
  | Resp_Mmap int
  | Resp_Open_Device u32 int "fd option"
  | Resp_Present_Export u32 int "fd option"
  | Resp_Xiso_Import u32 int u32
  | Resp_Realize replay_answer
  | Resp_Ring_Ready int u64
  | Resp_Loop_Exited int u64
  | Resp_Poll_Event u32 u32

text \<open>What handling a command does to the process besides the state and the answers.\<close>

record stub_effects =
  se_closed :: "fd list"
  se_mapped :: "map_call list"
  se_unmapped :: "(u64 \<times> u64) list"
  se_uvm :: "uvm_replay list"
  se_signalled :: "nat option"

definition no_effects :: stub_effects where
  "no_effects = \<lparr>se_closed = [], se_mapped = [], se_unmapped = [], se_uvm = [], se_signalled = None\<rparr>"

text \<open>Whether the process ends, the state, the answers sent by the reader, and the effects.\<close>

fun stub_dispatch_cmd :: "stub_cmd \<Rightarrow> stub \<Rightarrow> bool \<times> stub \<times> stub_resp list \<times> stub_effects" where
  "stub_dispatch_cmd (Cmd_Receive_Fd cmsg complete i dev) s =
    (case receive_fd cmsg complete i dev (sb_table s) of (r, t, cl) \<Rightarrow>
       (False, s\<lparr>sb_table := t\<rparr>, [case r of Inl e \<Rightarrow> Resp_Error e | Inr _ \<Rightarrow> Resp_Ok], no_effects\<lparr>se_closed := cl\<rparr>))"
| "stub_dispatch_cmd (Cmd_Close_Fd i) s =
    (case handle_close_fd i (sb_table s) of (t, cl) \<Rightarrow> (False, s\<lparr>sb_table := t\<rparr>, [Resp_Ok], no_effects\<lparr>se_closed := cl\<rparr>))"
| "stub_dispatch_cmd (Cmd_Ioctl c pb ab) s =
    (case handle_ioctl_cmd c pb ab (pl_queue (sb_pool s)) of (q, rs) \<Rightarrow>
       (False, s\<lparr>sb_pool := (sb_pool s)\<lparr>pl_queue := q, pl_sent := pl_sent (sb_pool s) @ rs\<rparr>\<rparr>, map Resp_Ioctl rs, no_effects))"
| "stub_dispatch_cmd (Cmd_Mmap c os) s =
    (case handle_mmap os c (sb_table s) of (r, calls) \<Rightarrow> (False, s, [Resp_Mmap r], no_effects\<lparr>se_mapped := calls\<rparr>))"
| "stub_dispatch_cmd (Cmd_Munmap gva len) s = (False, s, [Resp_Ok], no_effects\<lparr>se_unmapped := [(gva, len)]\<rparr>)"
| "stub_dispatch_cmd (Cmd_Poll i) s = (False, s\<lparr>sb_table := poll_arm i (sb_table s)\<rparr>, [Resp_Ok], no_effects)"
| "stub_dispatch_cmd (Cmd_Unpoll i) s = (False, s\<lparr>sb_table := poll_disarm i (sb_table s)\<rparr>, [Resp_Ok], no_effects)"
| "stub_dispatch_cmd (Cmd_Open_Device txn open dirfd sent i dev flags) s =
    (case handle_open_device open dirfd sent i dev flags (sb_table s) of ((r, f), t, cl) \<Rightarrow>
       (False, s\<lparr>sb_table := t\<rparr>, [Resp_Open_Device txn r f], no_effects\<lparr>se_closed := cl\<rparr>))"
| "stub_dispatch_cmd (Cmd_Present_Export txn prime i gem) s =
    (case handle_present_export prime i gem (sb_table s) of ((r, f), cl) \<Rightarrow>
       (False, s, [Resp_Present_Export txn r f], no_effects\<lparr>se_closed := cl\<rparr>))"
| "stub_dispatch_cmd (Cmd_Xiso_Import txn prime cmsg i) s =
    (case handle_xiso_import prime cmsg i (sb_table s) of ((r, gem), cl) \<Rightarrow>
       (False, s, [Resp_Xiso_Import txn r gem], no_effects\<lparr>se_closed := cl\<rparr>))"
| "stub_dispatch_cmd (Cmd_Realize c e) s =
    (case handle_realize_uvm_fd e c (sb_table s) of (r, calls, cl) \<Rightarrow>
       (False, s, [Resp_Realize r], no_effects\<lparr>se_closed := cl, se_uvm := calls\<rparr>))"
| "stub_dispatch_cmd (Cmd_Interrupt txn) s = (False, s, [], no_effects\<lparr>se_signalled := interrupt_txn txn (sb_pool s)\<rparr>)"
| "stub_dispatch_cmd (Cmd_Setup_Ring c cmsg complete mapped) s =
    (case handle_setup_ring c cmsg complete mapped (sb_ring s) of ((e, v), base, cl) \<Rightarrow>
       (False, s\<lparr>sb_ring := base\<rparr>, [Resp_Ring_Ready e v], no_effects\<lparr>se_closed := cl\<rparr>))"
| "stub_dispatch_cmd (Cmd_Enter_Loop loop) s =
    (case sb_ring s of
       None \<Rightarrow> (False, s, [Resp_Loop_Exited minus_ENODEV 0], no_effects)
     | Some m \<Rightarrow>
         if sb_looping s then (False, s, [Resp_Loop_Exited 0 (ld64 (rm_mem m) 128)], no_effects)
         else (case loop (s\<lparr>sb_looping := True\<rparr>) of (h, s') \<Rightarrow>
             (False, s'\<lparr>sb_looping := False\<rparr>, [Resp_Loop_Exited 0 h], no_effects)))"
| "stub_dispatch_cmd Cmd_Exit s = (True, s, [], no_effects)"
| "stub_dispatch_cmd (Cmd_Unknown ty) s = (True, s, [], no_effects)"

text \<open>
  The reader: with handles armed it polls them and the socket, relays what is ready and reads a command only if the
  socket is ready; with none armed it blocks on the socket.  One element of the list is what one round meets: the
  result of the poll, the events of the polled descriptors, whether the socket is ready, and what the socket gives.
\<close>

datatype sock_msg = Msg_Interrupted | Msg_Closed | Msg_Short | Msg_Cmd stub_cmd

record reader_env =
  rd_poll :: int
  rd_events :: "u16 list"
  rd_sock :: bool
  rd_msg :: sock_msg

abbreviation minus_EINTR :: int where "minus_EINTR \<equiv> - 4"

text \<open>Whether the process has ended, its state, everything the reader sent, and the descriptors it closed.\<close>

primrec reader_loop :: "reader_env list \<Rightarrow> stub \<Rightarrow> bool \<times> stub \<times> stub_resp list \<times> fd list" where
  "reader_loop [] s = (False, s, [], [])"
| "reader_loop (e # es) s =
    (let armed = poll_set (sb_table s) \<noteq> [] in
     if armed \<and> rd_poll e < 0 then (if rd_poll e = minus_EINTR then reader_loop es s else (True, s, [], []))
     else
       let (evs, t) = (if armed then relay_events (zip (map fst (poll_set (sb_table s))) (rd_events e)) (sb_table s)
                       else ([], sb_table s));
           s1 = s\<lparr>sb_table := t\<rparr>; told = map (\<lambda>(h, ev). Resp_Poll_Event h ev) evs in
       if armed \<and> \<not> rd_sock e then (case reader_loop es s1 of (x, s2, rs, cl) \<Rightarrow> (x, s2, told @ rs, cl))
       else (case rd_msg e of
           Msg_Interrupted \<Rightarrow> (case reader_loop es s1 of (x, s2, rs, cl) \<Rightarrow> (x, s2, told @ rs, cl))
         | Msg_Closed \<Rightarrow> (True, s1, told, [])
         | Msg_Short \<Rightarrow> (True, s1, told, [])
         | Msg_Cmd c \<Rightarrow>
             (case stub_dispatch_cmd c s1 of (fin, s2, rs, fx) \<Rightarrow>
                if fin then (True, s2, told @ rs, se_closed fx)
                else (case reader_loop es s2 of (x, s3, rs', cl) \<Rightarrow> (x, s3, told @ rs @ rs', se_closed fx @ cl)))))"

section \<open>Answers\<close>

text \<open>The answer a command of QEMU waits for: its kind, and its transaction where it has one.\<close>

fun answers :: "stub_cmd \<Rightarrow> stub_resp \<Rightarrow> bool" where
  "answers (Cmd_Receive_Fd c n i d) r \<longleftrightarrow> r = Resp_Ok \<or> r = Resp_Error EINVAL"
| "answers (Cmd_Close_Fd i) r \<longleftrightarrow> r = Resp_Ok"
| "answers (Cmd_Ioctl c p a) r \<longleftrightarrow> (\<exists>x. r = Resp_Ioctl x \<and> a_txn x = c_txn c \<and> a_retval x < 0)"
| "answers (Cmd_Mmap c os) r \<longleftrightarrow> (\<exists>x. r = Resp_Mmap x)"
| "answers (Cmd_Munmap g n) r \<longleftrightarrow> r = Resp_Ok"
| "answers (Cmd_Poll i) r \<longleftrightarrow> r = Resp_Ok"
| "answers (Cmd_Unpoll i) r \<longleftrightarrow> r = Resp_Ok"
| "answers (Cmd_Open_Device txn op d st i dev fl) r \<longleftrightarrow> (\<exists>x f. r = Resp_Open_Device txn x f \<and> (x = 0 \<longleftrightarrow> f \<noteq> None))"
| "answers (Cmd_Present_Export txn pr i g) r \<longleftrightarrow> (\<exists>x f. r = Resp_Present_Export txn x f \<and> (x = 0 \<longleftrightarrow> f \<noteq> None))"
| "answers (Cmd_Xiso_Import txn pr c i) r \<longleftrightarrow> (\<exists>x g. r = Resp_Xiso_Import txn x g)"
| "answers (Cmd_Realize c e) r \<longleftrightarrow> (\<exists>x. r = Resp_Realize x \<and> ra_txn x = rc_txn c)"
| "answers (Cmd_Setup_Ring c f n m) r \<longleftrightarrow> (\<exists>x v. r = Resp_Ring_Ready x v)"
| "answers (Cmd_Enter_Loop l) r \<longleftrightarrow> (\<exists>x h. r = Resp_Loop_Exited x h)"
| "answers _ r \<longleftrightarrow> False"

text \<open>The commands nobody waits for; an ioctl is answered by a worker unless it is refused.\<close>

fun unanswered :: "stub_cmd \<Rightarrow> bool" where
  "unanswered (Cmd_Interrupt txn) = True"
| "unanswered Cmd_Exit = True"
| "unanswered (Cmd_Unknown ty) = True"
| "unanswered _ = False"

lemma open_answer:
  "handle_open_device open d st i dev fl t = ((r, f), t', cl) \<Longrightarrow> r = 0 \<longleftrightarrow> f \<noteq> None"
  by (auto simp: handle_open_device_def Let_def case_prod_beta split: option.splits if_splits)

lemma export_answer: "handle_present_export pr i g t = ((r, f), cl) \<Longrightarrow> r = 0 \<longleftrightarrow> f \<noteq> None"
  by (auto simp: handle_present_export_def Let_def case_prod_beta split: if_splits)

lemma realize_txn: "handle_realize_uvm_fd e c t = (r, calls, cl) \<Longrightarrow> ra_txn r = rc_txn c"
  by (auto simp: handle_realize_uvm_fd_def Let_def split: if_splits option.splits prod.splits)

lemma receive_answer: "receive_fd c n i d t = (r, t', cl) \<Longrightarrow> r = Inr () \<or> r = Inl EINVAL"
  by (auto simp: receive_fd_def Let_def case_prod_beta split: option.splits)

lemma read_job_refuses: "read_job c pb ab = Inl r \<Longrightarrow> a_txn r = c_txn c \<and> a_retval r < 0"
  by (auto simp: read_job_def refusal_def split: if_splits option.splits)

lemma ioctl_answer_or_queue:
  assumes "handle_ioctl_cmd c pb ab q = (q', rs)"
  shows "(\<exists>r. rs = [r] \<and> a_txn r = c_txn c \<and> a_retval r < 0 \<and> q' = q)
    \<or> rs = [] \<and> (\<exists>j. read_job c pb ab = Inr j \<and> j_txn j = c_txn c \<and> enqueue_job j q = Some q')"
  using assms read_job_refuses [of c pb ab] read_job_txn [of c pb ab]
  by (auto simp: handle_ioctl_cmd_def refusal_def split: sum.splits option.splits)



section \<open>Descriptors\<close>

text \<open>
  Every descriptor a command brings is in the table or closed when the command has been handled.  The one exception
  is the UVM file of a successful replay: nothing names it afterwards, and it stays open.
\<close>

definition opened :: "fd option \<Rightarrow> fd list" where
  "opened f = filter (\<lambda>x. x \<ge> 0) (case f of None \<Rightarrow> [] | Some x \<Rightarrow> [x])"

fun brings :: "stub_cmd \<Rightarrow> stub_table \<Rightarrow> fd list" where
  "brings (Cmd_Receive_Fd c n i dev) t = brought (Receive c n i dev)"
| "brings (Cmd_Open_Device txn op d st i dev fl) t = brought (Open op d st i dev fl)"
| "brings (Cmd_Present_Export txn pr i g) t = opened (snd (fst (handle_present_export pr i g t)))"
| "brings (Cmd_Xiso_Import txn pr c i) t = opened c"
| "brings (Cmd_Setup_Ring c f n m) t = opened f"
| "brings (Cmd_Realize c e) t =
    (case handle_realize_uvm_fd e c t of (r, calls, cl) \<Rightarrow> cl @ (if ra_retval r = 0 \<and> ra_rm_status r = 0 then [rv_open e] else []))"
| "brings _ t = []"

fun leaks :: "stub_cmd \<Rightarrow> stub_table \<Rightarrow> fd list" where
  "leaks (Cmd_Realize c e) t =
    (case handle_realize_uvm_fd e c t of (r, calls, cl) \<Rightarrow> if ra_retval r = 0 \<and> ra_rm_status r = 0 then [rv_open e] else [])"
| "leaks _ t = []"

fun cmd_ok :: "stub_cmd \<Rightarrow> bool" where
  "cmd_ok (Cmd_Receive_Fd c n i dev) \<longleftrightarrow> op_ok (Receive c n i dev)"
| "cmd_ok (Cmd_Open_Device txn op d st i dev fl) \<longleftrightarrow> op_ok (Open op d st i dev fl)"
| "cmd_ok (Cmd_Setup_Ring c f n m) \<longleftrightarrow> (case f of None \<Rightarrow> True | Some x \<Rightarrow> x \<ge> 0)"
| "cmd_ok (Cmd_Enter_Loop l) \<longleftrightarrow> False"
| "cmd_ok _ \<longleftrightarrow> True"

lemma setup_closes: "snd (snd (handle_setup_ring c f n m b)) = (case f of None \<Rightarrow> [] | Some x \<Rightarrow> [x])"
  by (simp add: handle_setup_ring_def Let_def split: option.splits)

lemma dispatch_accounts:
  assumes "stub_dispatch_cmd c s = (fin, s', rs, fx)" "cmd_ok c" "pool_ok (sb_table s)"
  shows "StubTable.held (sb_table s') + mset (se_closed fx) + mset (leaks c (sb_table s)) = StubTable.held (sb_table s) + mset (brings c (sb_table s))
    \<and> pool_ok (sb_table s')"
proof (cases c)
  case (Cmd_Receive_Fd cm n i dev)
  then show ?thesis
    using stub_do_held [of "Receive cm n i dev" "sb_table s"] assms by (auto simp: no_effects_def split: prod.splits)
next
  case (Cmd_Close_Fd i)
  then show ?thesis using stub_do_held [of "Close i" "sb_table s"] assms by (auto simp: no_effects_def split: prod.splits)
next
  case (Cmd_Open_Device txn op d st i dev fl)
  then show ?thesis
    using stub_do_held [of "Open op d st i dev fl" "sb_table s"] assms by (auto simp: no_effects_def split: prod.splits)
next
  case (Cmd_Poll i)
  then show ?thesis using stub_do_held [of "Arm i" "sb_table s"] assms by (auto simp: no_effects_def)
next
  case (Cmd_Unpoll i)
  then show ?thesis using stub_do_held [of "Disarm i" "sb_table s"] assms by (auto simp: no_effects_def)
next
  case (Cmd_Setup_Ring rc f n m)
  then show ?thesis
    using assms setup_closes [of rc f n m "sb_ring s"] by (auto simp: no_effects_def opened_def split: prod.splits option.splits)
next
  case (Cmd_Present_Export txn pr i g)
  then show ?thesis
    using assms by (auto simp: no_effects_def handle_present_export_def opened_def Let_def split: prod.splits if_splits)
next
  case (Cmd_Xiso_Import txn pr cm i)
  then show ?thesis
    using assms by (auto simp: no_effects_def handle_xiso_import_def opened_def Let_def split: prod.splits if_splits option.splits)
next
  case (Cmd_Realize rc e)
  then show ?thesis using assms by (auto simp: no_effects_def split: prod.splits)
qed (use assms in \<open>auto simp: no_effects_def split: prod.splits\<close>)

section \<open>Setting up the rings\<close>

text \<open>Below 2 GiB per ring the isolate's test keeps both rings inside the mapping.\<close>

lemma geometry_inside:
  assumes "ring_geometry_ok c" "unat (sr_ring_bytes c) < 2 ^ 31 - 256"
  shows "unat (sr_resp_off c) = 256 + unat (sr_ring_bytes c)"
    and "unat (sr_resp_off c) + 256 + unat (sr_ring_bytes c) \<le> unat (sr_region c)"
proof -
  have b: "unat (ucast (sr_ring_bytes c) :: u64) = unat (sr_ring_bytes c)" by simp
  have "unat (sizeof_ring + ucast (sr_ring_bytes c)) = 256 + unat (sr_ring_bytes c)"
    using assms(2) b by (simp add: sizeof_ring_def unat_word_ariths)
  then show off: "unat (sr_resp_off c) = 256 + unat (sr_ring_bytes c)"
    using assms by (simp add: ring_geometry_ok_def nvkvm_ring_resp_off_def unsigned_ucast_eq take_bit_eq_mod)
  have "unat (2 * (sizeof_ring + ucast (sr_ring_bytes c))) = 2 * (256 + unat (sr_ring_bytes c))"
    using assms(2) b by (simp add: sizeof_ring_def unat_word_ariths)
  then have "unat (ucast (nvkvm_ring_region_size (sr_ring_bytes c)) :: u32) = 2 * (256 + unat (sr_ring_bytes c))"
    using assms(2) by (simp add: nvkvm_ring_region_size_def unsigned_ucast_eq take_bit_eq_mod)
  then show "unat (sr_resp_off c) + 256 + unat (sr_ring_bytes c) \<le> unat (sr_region c)"
    using assms(1) off by (simp add: ring_geometry_ok_def word_less_nat_alt)
qed

text \<open>At 2 GiB the size of the region no longer fits 32 bits: a mapping of one page passes the test, and the response ring
  begins far behind it.\<close>

lemma geometry_truncated:
  "ring_geometry_ok \<lparr>sr_region = 4096, sr_req_off = 0, sr_resp_off = 0x80000100, sr_ring_bytes = 0x80000000\<rparr>"
  by (simp add: ring_geometry_ok_def nvkvm_ring_size_ok_def nvkvm_ring_resp_off_def nvkvm_ring_region_size_def sizeof_ring_def)

text \<open>The command QEMU sends for the ring it made, the memory it shows, and the isolate's answer as QEMU sees it.\<close>

definition qemu_setup_cmd :: setup_ring_cmd where
  "qemu_setup_cmd = \<lparr>sr_region = of_nat ring_region, sr_req_off = 0,
     sr_resp_off = ucast (nvkvm_ring_resp_off NVKVM_RING_DEFAULT_BYTES), sr_ring_bytes = NVKVM_RING_DEFAULT_BYTES\<rparr>"

definition isolate_setup :: "u32 \<Rightarrow> mem \<Rightarrow> fd \<Rightarrow> (int \<times> u64) \<times> ring_map option \<times> fd list" where
  "isolate_setup i m f = handle_setup_ring qemu_setup_cmd (Some f) True (Some (st64 m 256 (ring_probe i))) None"

definition setup_answer :: "u32 \<Rightarrow> mem \<Rightarrow> fd \<Rightarrow> ring_env \<Rightarrow> ring_env" where
  "setup_answer i m f re =
    (case isolate_setup i m f of ((e, v), base, _) \<Rightarrow>
       re\<lparr>re_answer := (if e = 0 then None else Some EINVAL), re_echo := v,
          re_back := (case base of None \<Rightarrow> 0
            | Some b \<Rightarrow> ld64 (rm_mem b) (unat (nvkvm_ring_resp_off NVKVM_RING_DEFAULT_BYTES) + 256))\<rparr>)"

lemma iso_at_upd: "iso_at i (iso_upd i f t) = f (iso_at i t)"
  by (simp add: iso_upd_def iso_at_def)

lemma qemu_geometry: "ring_geometry_ok qemu_setup_cmd"
  by (simp add: ring_geometry_ok_def qemu_setup_cmd_def ring_region_val nvkvm_ring_size_ok_def nvkvm_ring_resp_off_def
    nvkvm_ring_region_size_def sizeof_ring_def NVKVM_RING_DEFAULT_BYTES_def)

lemma isolate_setup_answer:
  "\<exists>b. isolate_setup i m f = ((0, ring_probe i), Some b, [f]) \<and> rm_resp_off b = 65792 \<and> rm_bytes b = NVKVM_RING_DEFAULT_BYTES
     \<and> ld64 (rm_mem b) (65792 + 256) = ring_probe i XOR NVKVM_RING_PROBE_MASK"
proof -
  have "unat (sr_resp_off qemu_setup_cmd) = 65792"
    by (simp add: qemu_setup_cmd_def nvkvm_ring_resp_off_def sizeof_ring_def NVKVM_RING_DEFAULT_BYTES_def)
  then show ?thesis
    by (simp add: isolate_setup_def handle_setup_ring_def qemu_geometry Let_def mem_simps)
      (simp add: qemu_setup_cmd_def nvkvm_ring_resp_off_def sizeof_ring_def NVKVM_RING_DEFAULT_BYTES_def)
qed

text \<open>C33: QEMU and the isolate agree on the rings.  For every isolate that has none yet and a memory file that can be made
  and mapped: the isolate accepts the geometry QEMU sends, sees QEMU's probe and answers it where QEMU looks, and so
  QEMU's setup succeeds, closing nothing.  Both rings of the isolate then lie inside the region.\<close>

theorem ring_handshake:
  assumes "iso_valid i t" "is_ring_memfd (iso_at i t) < 0" "re_memfd re = Inr mfd" "re_trunc re = Inr ()"
    and "ring_place env re ws = (Inr (gpa, qva), ws1)"
  shows "\<exists>b t'. isolate_setup i m f = ((0, ring_probe i), Some b, [f])
    \<and> nvkvm_isolate_ring_setup env (setup_answer i m f re) i (t, ws) = (None, (t', ws1), [])
    \<and> is_ring_ready (iso_at i t') \<and> is_ring_memfd (iso_at i t') = mfd \<and> is_ring_gpa (iso_at i t') = gpa
    \<and> unat (rm_resp_off b) + 256 + unat (rm_bytes b) \<le> ring_region"
proof -
  obtain b where b: "isolate_setup i m f = ((0, ring_probe i), Some b, [f])" "rm_resp_off b = 65792"
    "rm_bytes b = NVKVM_RING_DEFAULT_BYTES" "ld64 (rm_mem b) (65792 + 256) = ring_probe i XOR NVKVM_RING_PROBE_MASK"
    using isolate_setup_answer by blast
  have "unat (nvkvm_ring_resp_off NVKVM_RING_DEFAULT_BYTES) = 65792"
    by (simp add: nvkvm_ring_resp_off_def sizeof_ring_def NVKVM_RING_DEFAULT_BYTES_def)
  then have e: "setup_answer i m f re
      = re\<lparr>re_answer := None, re_echo := ring_probe i, re_back := ring_probe i XOR NVKVM_RING_PROBE_MASK\<rparr>"
    using b by (simp add: setup_answer_def)
  have place: "ring_place env (setup_answer i m f re) ws = (Inr (gpa, qva), ws1)"
    using assms(5) unfolding e by (simp add: ring_place_def cong: option.case_cong prod.case_cong)
  have "unat (rm_resp_off b) + 256 + unat (rm_bytes b) \<le> ring_region"
    using b by (simp add: ring_region_val NVKVM_RING_DEFAULT_BYTES_def)
  moreover have "\<not> bad_isolate i" using assms(1) by (simp add: iso_valid_def)
  then have "nvkvm_isolate_ring_setup env (setup_answer i m f re) i (t, ws)
      = (None, (iso_upd i (\<lambda>s. s\<lparr>is_ring_memfd := mfd, is_ring_qva := Some qva, is_ring_size := ring_region,
           is_ring_bytes := NVKVM_RING_DEFAULT_BYTES, is_ring_gpa := gpa, is_ring_ready := True\<rparr>) t, ws1), [])"
    using assms(1-4) place [unfolded e] by (simp add: nvkvm_isolate_ring_setup_def e)
  ultimately show ?thesis using b(1) by (simp add: iso_at_upd)
qed

definition exsb_table :: isolate_table where
  "exsb_table = \<lparr>isolates = (\<lambda>_. zero_isolate)(1 := (reset_isolate 1 zero_isolate)\<lparr>is_alive := True\<rparr>), next_isolate = 2\<rparr>"

definition exsb_env :: ring_env where
  "exsb_env = \<lparr>re_memfd = Inr 9, re_trunc = Inr (), re_map_window = False, re_map_private = Inr 0x7000, re_answer = Some EIO,
     re_echo = 0, re_back = 0\<rparr>"

definition exsb_win :: win_state where
  "exsb_win = (\<lparr>sparse_vmm_va = None, sparse_gpa_base = 0, sparse_size = 0, sparse_cur = 0, sparse_kvm_slot = -1, sparse_free = None\<rparr>,
     kvm_pool_init)"

theorem ring_handshake_witness:
  "\<exists>env t'. nvkvm_isolate_ring_setup env (setup_answer 1 (\<lambda>_. 0) 5 exsb_env) 1 (exsb_table, exsb_win) = (None, (t', exsb_win), [])
     \<and> is_ring_ready (iso_at 1 t')"
proof -
  define env :: win_env where "env = \<lparr>window_base_get = None, kvm_vm_fd = 10, kvm_set_region = (\<lambda>_ _ _. Inr ())\<rparr>"
  have "iso_at 1 exsb_table = (reset_isolate 1 zero_isolate)\<lparr>is_alive := True\<rparr>"
    by (simp add: iso_at_def exsb_table_def NVKVM_ISOLATE_MAX_def)
  then have "iso_valid 1 exsb_table" "is_ring_memfd (iso_at 1 exsb_table) < 0"
    by (simp_all add: iso_valid_def bad_isolate_def reset_isolate_def NVKVM_ISOLATE_MAX_def)
  moreover have "re_memfd exsb_env = Inr 9" "re_trunc exsb_env = Inr ()" by (simp_all add: exsb_env_def)
  moreover have "ring_place env exsb_env exsb_win = (Inr (0, 0x7000), exsb_win)"
    by (simp add: ring_place_def exsb_win_def exsb_env_def nvkvm_sparse_gpa_alloc_def)
  ultimately show ?thesis using ring_handshake [of 1 exsb_table exsb_env 9 env exsb_win] by blast
qed

section \<open>Policy\<close>


definition exsb_params :: "u8 list" where
  "exsb_params = replicate 8 0 @ [0x01, 0x00, 0x80, 0x20] @ replicate 20 0"


text \<open>
  The status of the final call of a replay is taken from the last word of the struct, which is padding: the driver
  keeps its status in the word before.  A pool that the driver refused is reported as made, and its file stays open.
\<close>

lemma realize_status_misread:
  assumes "unat (rc_state_size c) = sizeof_snapshot" "rv_state e = Some s" "rc_intent_size c = 9248" "rc_mode c = 1"
    and "us_n_gpus s = 0" "us_n_va_spaces s = 0" "us_n_range_groups s = 0"
    and "rv_buffer e" "rv_intent e = Some intent" "rv_open e = f" "0 \<le> f" "rv_replay e [] (Replay_Init (us_init_flags s)) = (0, 0)"
    and "rv_pool e intent = (0, st32 intent 9240 err)" "ld32 intent 9244 = 0"
    and "\<And>call. rv_map e call = Some va"
  shows "\<exists>calls. handle_realize_uvm_fd e c t
    = (\<lparr>ra_txn = rc_txn c, ra_retval = 0, ra_rm_status = 0, ra_host_va = va, ra_length = rc_length c\<rparr>, calls, [])"
proof -
  have "ld32 (st32 intent 9240 err) 9244 = 0" using assms(14) by (simp add: mem_simps)
  then show ?thesis
    using assms by (simp add: handle_realize_uvm_fd_def replay_calls_def realize_final_def Let_def
      STUB_MAX_REG_GPUS_def STUB_MAX_VA_SPACES_def STUB_MAX_RANGE_GROUPS_def)
qed

text \<open>A replay that is reported as failed has closed its file, and stopped at the first call that failed.\<close>

lemma replay_stops:
  "replay drv done cs = (calls, r) \<Longrightarrow> \<exists>more. calls = done @ more \<and> map Some more = take (length more) cs
     \<and> (case r of None \<Rightarrow> length more = length cs | Some (x, st) \<Rightarrow> x \<noteq> 0 \<or> st \<noteq> 0)"
proof (induction cs arbitrary: "done")
  case (Cons c cs)
  show ?case
  proof (cases c)
    case None
    then show ?thesis using Cons.prems by auto
  next
    case (Some u)
    show ?thesis
    proof (cases "fst (drv done u) < 0 \<or> snd (drv done u) \<noteq> 0")
      case True
      then show ?thesis using Cons.prems Some by (intro exI [of _ "[u]"]) (auto split: prod.splits if_splits)
    next
      case False
      then have "replay drv (done @ [u]) cs = (calls, r)" using Cons.prems Some by (simp split: prod.splits)
      from Cons.IH [OF this] obtain more where "calls = (done @ [u]) @ more" "map Some more = take (length more) cs"
        "case r of None \<Rightarrow> length more = length cs | Some (x, st) \<Rightarrow> x \<noteq> 0 \<or> st \<noteq> 0" by blast
      then show ?thesis using Some by (intro exI [of _ "u # more"]) (auto split: option.splits)
    qed
  qed
qed simp

end
