(* ===== verification/StubSeccomp.thy ===== *)
theory StubSeccomp
  imports Prelude
begin

text \<open>
  The system-call filter of the isolate (\<open>apply_seccomp\<close> in \<open>stub/nvkvm_stub.c\<close>): the program it emits, run by
  the four instructions of the kernel's packet-filter machine that it uses, against the list of calls it is meant to
  allow.  Numbers are those of x86-64.
\<close>

section \<open>The filter machine\<close>

text \<open>Loads address 32-bit words of the call's description: the number, the architecture, the arguments.\<close>

datatype bpf = LD_ABS nat | ALU_AND u32 | JEQ u32 nat nat | RET u32

function bpf_run :: "bpf list \<Rightarrow> (nat \<Rightarrow> u32) \<Rightarrow> u32 \<Rightarrow> u32 option" where
  "bpf_run [] d acc = None"
| "bpf_run (LD_ABS off # is) d acc = bpf_run is d (d off)"
| "bpf_run (ALU_AND k # is) d acc = bpf_run is d (acc AND k)"
| "bpf_run (JEQ k jt jf # is) d acc = bpf_run (drop (if acc = k then jt else jf) is) d acc"
| "bpf_run (RET k # is) d acc = Some k"
  by pat_completeness auto
termination
  by (relation "measure (\<lambda>(is, d, acc). length is)") auto

definition sd_nr :: nat where "sd_nr = 0"
definition sd_arch :: nat where "sd_arch = 4"
definition sd_arg2 :: nat where "sd_arg2 = 32"

section \<open>The filter\<close>

abbreviation AUDIT_ARCH_X86_64 :: u32 where "AUDIT_ARCH_X86_64 \<equiv> 0xC000003E"
abbreviation SECCOMP_RET_ALLOW :: u32 where "SECCOMP_RET_ALLOW \<equiv> 0x7fff0000"
abbreviation SECCOMP_RET_KILL_PROCESS :: u32 where "SECCOMP_RET_KILL_PROCESS \<equiv> 0x80000000"
abbreviation SECCOMP_RET_EPERM :: u32 where "SECCOMP_RET_EPERM \<equiv> 0x00050001"
abbreviation PROT_EXEC :: u32 where "PROT_EXEC \<equiv> 4"

definition ALLOW_IF :: "u32 \<Rightarrow> bpf list" where
  "ALLOW_IF nr = [JEQ nr 0 1, RET SECCOMP_RET_ALLOW]"

definition ALLOW_IF_NO_EXEC :: "u32 \<Rightarrow> bpf list" where
  "ALLOW_IF_NO_EXEC nr =
    [JEQ nr 0 5, LD_ABS sd_arg2, ALU_AND PROT_EXEC, JEQ PROT_EXEC 0 1, RET SECCOMP_RET_EPERM, RET SECCOMP_RET_ALLOW]"

text \<open>\<open>read write recvmsg sendmsg ioctl\<close>, then \<open>mmap mprotect\<close>, then \<open>munmap ppoll close exit exit_group rt_sigaction
  rt_sigreturn futex clone3 openat eventfd2 gettid tgkill\<close>.\<close>

definition apply_seccomp :: "bpf list" where
  "apply_seccomp =
    [LD_ABS sd_arch, JEQ AUDIT_ARCH_X86_64 1 0, RET SECCOMP_RET_KILL_PROCESS, LD_ABS sd_nr]
    @ concat (map ALLOW_IF [0, 1, 47, 46, 16])
    @ ALLOW_IF_NO_EXEC 9 @ ALLOW_IF_NO_EXEC 10
    @ concat (map ALLOW_IF [11, 271, 3, 60, 231, 13, 15, 202, 435, 257, 290, 186, 234])
    @ [RET SECCOMP_RET_EPERM]"

section \<open>What it allows\<close>

definition plain_calls :: "u32 set" where
  "plain_calls = {0, 1, 47, 46, 16, 11, 271, 3, 60, 231, 13, 15, 202, 435, 257, 290, 186, 234}"

definition mapping_calls :: "u32 set" where
  "mapping_calls = {9, 10}"

definition seccomp_spec :: "(nat \<Rightarrow> u32) \<Rightarrow> u32" where
  "seccomp_spec d =
    (if d sd_arch \<noteq> AUDIT_ARCH_X86_64 then SECCOMP_RET_KILL_PROCESS
     else if d sd_nr \<in> plain_calls \<or> d sd_nr \<in> mapping_calls \<and> \<not> bit (d sd_arg2) 2 then SECCOMP_RET_ALLOW
     else SECCOMP_RET_EPERM)"

lemma run_ALLOW_IF: "bpf_run (ALLOW_IF nr @ is) d acc = (if acc = nr then Some SECCOMP_RET_ALLOW else bpf_run is d acc)"
  by (simp add: ALLOW_IF_def)

lemma bit_prot_exec: "bit PROT_EXEC n \<longleftrightarrow> n = 2"
  using bit_exp_iff [where 'a = u32, of 2 n] by auto

lemma prot_exec_bit: "(x :: u32) AND PROT_EXEC = PROT_EXEC \<longleftrightarrow> bit x 2"
  by (simp only: bit_eq_iff [where 'a = u32] bit_and_iff bit_prot_exec) (auto dest: spec [of _ 2])

lemma run_no_exec:
  "bpf_run (ALLOW_IF_NO_EXEC nr @ is) d acc =
    (if acc = nr then Some (if bit (d sd_arg2) 2 then SECCOMP_RET_EPERM else SECCOMP_RET_ALLOW) else bpf_run is d acc)"
  by (simp add: ALLOW_IF_NO_EXEC_def prot_exec_bit)

text \<open>C31: The filter allows exactly what it should.  For every architecture, call number and argument the program ends with a
  verdict, and the verdict is the specification's: kill on a foreign architecture; allow the eighteen listed calls, and
  mmap and mprotect when they do not ask for execute permission; refuse everything else with \<open>EPERM\<close>.  The program
  fits the array it is built in, and every call the isolate issues itself is one of those allowed.\<close>

theorem seccomp_filter_exact:
  "bpf_run apply_seccomp d acc = Some (seccomp_spec d) \<and> length apply_seccomp \<le> 96
   \<and> {0, 1, 47, 46, 271, 257, 290, 16, 11, 3, 231, 60, 186, 234, 202, 15} \<subseteq> plain_calls"
proof -
  have "bpf_run apply_seccomp d acc = Some (seccomp_spec d)"
    by (simp add: apply_seccomp_def run_ALLOW_IF run_no_exec seccomp_spec_def plain_calls_def mapping_calls_def)
  moreover have "length apply_seccomp \<le> 96" by (simp add: apply_seccomp_def ALLOW_IF_def ALLOW_IF_NO_EXEC_def)
  moreover have "{0, 1, 47, 46, 271, 257, 290, 16, 11, 3, 231, 60, 186, 234, 202, 15} \<subseteq> plain_calls" by (simp add: plain_calls_def)
  ultimately show ?thesis by blast
qed

end
