(* ===== verification/Spec2Isabelle.thy ===== *)
theory Spec2Isabelle
  imports Ring HandleTable GpaWindow IoctlGate IsoMmap Frontend IsoPending Device HostFile Startup Stub StubSeccomp
begin

text \<open>
  Verification library for nvkvm, which forwards NVIDIA driver calls of a guest
  virtual machine to the host driver through a virtio device.
\<close>

end
